(* ===== verification/Prelude.thy ===== *)
theory Prelude
  imports Main "HOL-Library.Word" "HOL-Library.Sublist"
begin

text \<open>
  The base of the development: the types every component shares (bytes, Go strings, Go
  errors), the theorem collections, a few facts on maps and folds, and the two generic
  contracts that several components meet: a step function with an invariant
  (\<open>stepper\<close>) and a table of single-use tokens (\<open>single_use\<close>).

  A Go \<open>string\<close> is a sequence of bytes and is modelled by Isabelle's \<open>string\<close>
  (a list of 8-bit characters); a Go \<open>[]byte\<close> is a list of \<open>8 word\<close>. The Go
  conversions between the two are \<open>go_bytes\<close> and \<open>go_string\<close>.
\<close>

section \<open>Bytes and strings\<close>

type_synonym byte = "8 word"
type_synonym bytes = "byte list"

definition byte_of_chr :: "char \<Rightarrow> byte" where
  "byte_of_chr c = of_nat (of_char c)"

definition chr_of_byte :: "byte \<Rightarrow> char" where
  "chr_of_byte b = char_of (unat b)"

definition go_bytes :: "string \<Rightarrow> bytes" where
  "go_bytes s = map byte_of_chr s"

definition go_string :: "bytes \<Rightarrow> string" where
  "go_string b = map chr_of_byte b"

text \<open>The code of a character as a number, the form in which the byte classifications are written.\<close>

definition ccode :: "char \<Rightarrow> nat" where
  "ccode c = of_char c"

lemma ccode_less [simp]: "ccode c < 256"
  by (simp add: ccode_def)

lemma ccode_inject [simp]: "ccode c = ccode d \<longleftrightarrow> c = d"
  by (simp add: ccode_def)

lemma char_of_ccode [simp]: "char_of (ccode c) = c"
  by (simp add: ccode_def)

lemma ccode_char_of [simp]: "n < 256 \<Longrightarrow> ccode (char_of n) = n"
  by (simp add: ccode_def)

lemma unat_byte_of_chr [simp]: "unat (byte_of_chr c) = ccode c"
  by (simp add: byte_of_chr_def ccode_def unat_of_nat)

lemma unat_byte_less [simp]: "unat (b :: byte) < 256"
  using unsigned_less [of b, where ?'a = nat] by simp

lemma ccode_chr_of_byte [simp]: "ccode (chr_of_byte b) = unat b"
  by (simp add: chr_of_byte_def)

lemma chr_of_byte_of_chr [simp]: "chr_of_byte (byte_of_chr c) = c"
  by (simp add: chr_of_byte_def)

lemma byte_of_chr_of_byte [simp]: "byte_of_chr (chr_of_byte b) = b"
  by (simp add: word_unat_eq_iff)

lemma go_string_bytes [simp]: "go_string (go_bytes s) = s"
  by (induction s) (simp_all add: go_string_def go_bytes_def)

lemma go_bytes_string [simp]: "go_bytes (go_string b) = b"
  by (induction b) (simp_all add: go_string_def go_bytes_def)

section \<open>Theorem collections\<close>

named_theorems go_defs \<open>the small helper definitions of the model, unfolded by every component proof\<close>

section \<open>Maps\<close>

lemma map_delete_None [simp]: "(m(k := None)) k = None"
  by simp

lemma map_delete_Some: "(m(k := None)) j = Some v \<longleftrightarrow> j \<noteq> k \<and> m j = Some v"
  by simp

lemma map_upd_eq_Some: "(m(k \<mapsto> w)) j = Some v \<longleftrightarrow> (j = k \<and> v = w) \<or> (j \<noteq> k \<and> m j = Some v)"
  by auto

lemma dom_delete: "dom (m(k := None)) = dom m - {k}"
  by simp

lemma not_dom_None: "k \<notin> dom m \<Longrightarrow> m k = None"
  by (simp add: domIff)

lemmas map_update_simps = map_delete_Some map_upd_eq_Some

section \<open>Subsequences\<close>

lemma subseq_appendD: "subseq (xs @ ys) zs \<Longrightarrow> subseq xs zs"
  by (rule subseq_order.order_trans [of xs "xs @ ys"]) (simp_all add: list_emb_prefix)

section \<open>Runs of a step function\<close>

text \<open>
  A run is \<open>fold step es s\<close>. \<open>run_count P step es s\<close> counts the events of a run that
  satisfy \<open>P\<close> in the state they meet.
\<close>

fun run_count :: "('e \<Rightarrow> 's \<Rightarrow> bool) \<Rightarrow> ('e \<Rightarrow> 's \<Rightarrow> 's) \<Rightarrow> 'e list \<Rightarrow> 's \<Rightarrow> nat" where
  "run_count P step [] s = 0"
| "run_count P step (e # es) s = (if P e s then 1 else 0) + run_count P step es (step e s)"

lemma run_count_append:
  "run_count P step (es @ fs) s = run_count P step es s + run_count P step fs (fold step es s)"
  by (induction es arbitrary: s) simp_all

lemma run_count_mono:
  "(\<And>e s. P e s \<Longrightarrow> Q e s) \<Longrightarrow> run_count P step es s \<le> run_count Q step es s"
  by (induction es arbitrary: s) (auto intro: le_SucI add_mono)

text \<open>A step function that keeps an invariant keeps it along every run.\<close>

locale stepper =
  fixes step :: "'e \<Rightarrow> 's \<Rightarrow> 's"
    and inv :: "'s \<Rightarrow> bool"
  assumes inv_step: "inv s \<Longrightarrow> inv (step e s)"
begin

lemma inv_run: "inv s \<Longrightarrow> inv (fold step es s)"
  by (induction es arbitrary: s) (simp_all add: inv_step)

lemma inv_prefix: "inv s \<Longrightarrow> inv (fold step (take n es) s)"
  by (rule inv_run)

end

text \<open>
  A table of single-use tokens behind a step function: an event may redeem a token, which
  must be live and is not live afterwards; a token becomes live only by being minted. The
  contract gives the bound every client relies on: along any run, a token is redeemed at
  most once per time it was minted (plus once if it was live at the start). The laws are asked for
  where an invariant of the step function holds; a table that needs none has the simpler contract
  below.
\<close>

locale single_use_within = stepper step inv
  for step :: "'e \<Rightarrow> 's \<Rightarrow> 's" and inv :: "'s \<Rightarrow> bool" +
  fixes redeems :: "'t \<Rightarrow> 'e \<Rightarrow> 's \<Rightarrow> bool"
    and mints :: "'t \<Rightarrow> 'e \<Rightarrow> 's \<Rightarrow> bool"
    and live :: "'t \<Rightarrow> 's \<Rightarrow> bool"
  assumes within_live: "inv s \<Longrightarrow> redeems t e s \<Longrightarrow> live t s"
    and within_spends: "inv s \<Longrightarrow> redeems t e s \<Longrightarrow> \<not> live t (step e s)"
    and within_step: "inv s \<Longrightarrow> live t (step e s) \<Longrightarrow> live t s \<or> mints t e s"
begin

lemma bound_within:
  "inv s \<Longrightarrow> run_count (redeems t) step es s \<le> run_count (mints t) step es s + (if live t s then 1 else 0)"
proof (induction es arbitrary: s)
  case Nil
  then show ?case by simp
next
  case (Cons e es)
  from Cons.IH [OF inv_step [OF Cons.prems, of e]] show ?case
    using within_live [OF Cons.prems, of t e] within_spends [OF Cons.prems, of t e] within_step [OF Cons.prems, of t e]
    by (cases "redeems t e s"; cases "mints t e s"; cases "live t s"; cases "live t (step e s)") auto
qed

end

locale single_use =
  fixes step :: "'e \<Rightarrow> 's \<Rightarrow> 's"
    and redeems :: "'t \<Rightarrow> 'e \<Rightarrow> 's \<Rightarrow> bool"
    and mints :: "'t \<Rightarrow> 'e \<Rightarrow> 's \<Rightarrow> bool"
    and live :: "'t \<Rightarrow> 's \<Rightarrow> bool"
  assumes redeems_live: "redeems t e s \<Longrightarrow> live t s"
    and redeems_spends: "redeems t e s \<Longrightarrow> \<not> live t (step e s)"
    and live_step: "live t (step e s) \<Longrightarrow> live t s \<or> mints t e s"

sublocale single_use \<subseteq> everywhere: single_use_within step "\<lambda>_. True" redeems mints live
  by unfold_locales (auto dest: redeems_live redeems_spends live_step)

context single_use
begin

lemma redeem_bound:
  "run_count (redeems t) step es s \<le> run_count (mints t) step es s + (if live t s then 1 else 0)"
  by (rule everywhere.bound_within) (rule TrueI)

lemma no_replay:
  assumes "redeems t e s" and "run_count (mints t) step es (step e s) = 0"
  shows "run_count (redeems t) step es (step e s) = 0"
  using redeem_bound [of t es "step e s"] redeems_spends [OF assms(1)] assms(2) by simp

end

section \<open>State machines\<close>

text \<open>
  A state machine is a partial step function: \<open>None\<close> means that the event cannot happen
  in that state. \<open>runs\<close> is its reachability relation, with the events in order, and \<open>exec\<close>
  computes it.
\<close>

inductive runs :: "('e \<Rightarrow> 's \<Rightarrow> 's option) \<Rightarrow> 's \<Rightarrow> 'e list \<Rightarrow> 's \<Rightarrow> bool" for step where
  runs_none: "runs step s [] s"
| runs_more: "runs step s es t \<Longrightarrow> step e t = Some u \<Longrightarrow> runs step s (es @ [e]) u"

fun exec :: "('e \<Rightarrow> 's \<Rightarrow> 's option) \<Rightarrow> 'e list \<Rightarrow> 's \<Rightarrow> 's option" where
  "exec step [] s = Some s"
| "exec step (e # es) s = (case step e s of None \<Rightarrow> None | Some t \<Rightarrow> exec step es t)"

inductive_cases runs_NilE: "runs step s [] t"
inductive_cases runs_snocE: "runs step s (es @ [e]) t"

lemma exec_append:
  "exec step (es @ fs) s = (case exec step es s of None \<Rightarrow> None | Some t \<Rightarrow> exec step fs t)"
  by (induction es arbitrary: s) (simp_all split: option.split)

lemma runs_exec: "runs step s es t \<longleftrightarrow> exec step es s = Some t"
proof
  show "runs step s es t \<Longrightarrow> exec step es s = Some t"
    by (induction rule: runs.induct) (simp_all add: exec_append)
  show "exec step es s = Some t \<Longrightarrow> runs step s es t"
  proof (induction es arbitrary: t rule: rev_induct)
    case (snoc e es)
    then show ?case by (auto simp: exec_append intro: runs_more split: option.splits)
  qed (simp add: runs_none)
qed

lemma runs_append: "runs step s es t \<Longrightarrow> runs step t fs u \<Longrightarrow> runs step s (es @ fs) u"
  by (simp add: runs_exec exec_append)

lemma runs_split:
  "runs step s es t \<Longrightarrow> runs step s (es @ e # fs) u \<Longrightarrow> \<exists>w. step e t = Some w \<and> runs step w fs u"
  by (simp add: runs_exec exec_append split: option.splits)

text \<open>The contract of a machine with an invariant.\<close>

locale machine =
  fixes step :: "'e \<Rightarrow> 's \<Rightarrow> 's option"
    and ok :: "'s \<Rightarrow> bool"
  assumes ok_step: "ok s \<Longrightarrow> step e s = Some t \<Longrightarrow> ok t"
begin

lemma ok_runs: "runs step s es t \<Longrightarrow> ok s \<Longrightarrow> ok t"
  by (induction rule: runs.induct) (auto intro: ok_step)

end

text \<open>
  A machine that carries a stream: what an event puts in and takes out, and what is on its
  way. Along every run, what was taken out followed by what is on its way is what was on
  its way at the start followed by what was put in.
\<close>

fun along :: "('e \<Rightarrow> 's \<Rightarrow> 's option) \<Rightarrow> ('e \<Rightarrow> 's \<Rightarrow> 'm list) \<Rightarrow> 'e list \<Rightarrow> 's \<Rightarrow> 'm list" where
  "along step f [] s = []"
| "along step f (e # es) s = (case step e s of None \<Rightarrow> [] | Some t \<Rightarrow> f e s @ along step f es t)"

lemma along_snoc:
  "exec step es s = Some t \<Longrightarrow> step e t = Some u \<Longrightarrow>
   along step f (es @ [e]) s = along step f es s @ f e t"
  by (induction es arbitrary: s) (auto split: option.splits)

locale stream = machine step ok
  for step :: "'e \<Rightarrow> 's \<Rightarrow> 's option" and ok :: "'s \<Rightarrow> bool" +
  fixes puts :: "'e \<Rightarrow> 's \<Rightarrow> 'm list"
    and takes :: "'e \<Rightarrow> 's \<Rightarrow> 'm list"
    and content :: "'s \<Rightarrow> 'm list"
  assumes stream_step: "ok s \<Longrightarrow> step e s = Some t \<Longrightarrow> content s @ puts e s = takes e s @ content t"
begin

lemma conservation:
  "exec step es s = Some t \<Longrightarrow> ok s \<Longrightarrow>
   content s @ along step puts es s = along step takes es s @ content t"
proof (induction es arbitrary: s)
  case (Cons e es)
  then obtain u where u: "step e s = Some u" "exec step es u = Some t"
    by (auto split: option.splits)
  have "content u @ along step puts es u = along step takes es u @ content t"
    using Cons.IH [OF u(2)] ok_step [OF Cons.prems(2) u(1)] .
  then have "takes e s @ content u @ along step puts es u = takes e s @ along step takes es u @ content t"
    by simp
  then show ?case
    using stream_step [OF Cons.prems(2) u(1)] u(1) by (metis append.assoc along.simps(2) option.case(2))
qed simp

text \<open>Nothing is lost, repeated or reordered.\<close>

lemma in_order:
  "exec step es s = Some t \<Longrightarrow> ok s \<Longrightarrow> content s = [] \<Longrightarrow> prefix (along step takes es s) (along step puts es s)"
  using conservation [of es s t] by (simp add: prefix_def)

end

end
