(* ===== verification/Codec.thy ===== *)
theory Codec
  imports Prelude
begin

text \<open>
  The two text encodings the program uses: lower-case hex (session ids, tokens, device
  suffixes) and standard base64 with padding (\<open>encoding/base64.StdEncoding\<close>: keys,
  and the \<open>Data\<close> field of every frame). The decoder follows the library: carriage
  returns and newlines are skipped, padding may only end the input, non-zero trailing
  bits are accepted. A codec is a \<open>roundtrip\<close>: decoding what was encoded gives it back.
\<close>

unbundle bit_operations_syntax

section \<open>The contract of a codec\<close>

locale roundtrip =
  fixes encode :: "'a \<Rightarrow> 'b"
    and decode :: "'b \<Rightarrow> 'a option"
    and valid :: "'a \<Rightarrow> bool"
  assumes decode_encode: "valid x \<Longrightarrow> decode (encode x) = Some x"
begin

lemma encode_inject: "valid x \<Longrightarrow> valid y \<Longrightarrow> encode x = encode y \<longleftrightarrow> x = y"
  by (metis decode_encode option.inject)

lemma decode_map: "\<forall>x\<in>set xs. valid x \<Longrightarrow> map decode (map encode xs) = map Some xs"
  by (induction xs) (simp_all add: decode_encode)

end

section \<open>Hex\<close>

definition hex_digits :: string where
  "hex_digits = ''0123456789abcdef''"

definition hex_digit :: "byte \<Rightarrow> char" where
  "hex_digit b = hex_digits ! unat b"

fun hex_encode :: "bytes \<Rightarrow> string" where
  "hex_encode [] = []"
| "hex_encode (b # bs) = hex_digit (drop_bit 4 b) # hex_digit (b AND 15) # hex_encode bs"

definition hex_value :: "char \<Rightarrow> nat option" where
  "hex_value c =
     (let n = ccode c in
      if 48 \<le> n \<and> n \<le> 57 then Some (n - 48)
      else if 97 \<le> n \<and> n \<le> 102 then Some (n - 87)
      else if 65 \<le> n \<and> n \<le> 70 then Some (n - 55)
      else None)"

fun hex_decode :: "string \<Rightarrow> bytes option" where
  "hex_decode [] = Some []"
| "hex_decode [c] = None"
| "hex_decode (c # d # s) =
     (case (hex_value c, hex_value d, hex_decode s) of
        (Some h, Some l, Some bs) \<Rightarrow> Some (of_nat (16 * h + l) # bs)
      | _ \<Rightarrow> None)"

lemma unat_nibbles:
  "unat (drop_bit 4 (b :: byte)) = unat b div 16" "unat (b AND 15) = unat b mod 16"
proof -
  show "unat (drop_bit 4 b) = unat b div 16"
    by (simp only: unsigned_drop_bit_eq) (simp add: drop_bit_eq_div take_bit_eq_mod)
  have "b AND 15 = take_bit 4 b"
    by (simp add: take_bit_eq_mask mask_numeral)
  then show "unat (b AND 15) = unat b mod 16"
    by (simp only: unsigned_take_bit_eq) (simp add: take_bit_eq_mod)
qed

lemma hex_values: "map hex_value hex_digits = map Some [0..<16]"
  by (simp add: hex_digits_def hex_value_def ccode_def upt_rec)

lemma hex_value_digit:
  assumes "n < 16"
  shows "hex_value (hex_digits ! n) = Some n"
proof -
  have "length hex_digits = 16" by (simp add: hex_digits_def)
  then have "hex_value (hex_digits ! n) = map hex_value hex_digits ! n"
    using assms by simp
  then show ?thesis using assms by (simp add: hex_values)
qed

lemma length_hex_encode [simp]: "length (hex_encode bs) = 2 * length bs"
  by (induction bs) simp_all

lemma hex_digit_in: "unat b < 16 \<Longrightarrow> hex_digit b \<in> set hex_digits"
  unfolding hex_digit_def by (rule nth_mem) (simp add: hex_digits_def)

lemma set_hex_encode: "set (hex_encode bs) \<subseteq> set hex_digits"
  by (induction bs) (simp_all add: hex_digit_in unat_nibbles less_mult_imp_div_less)

lemma hex_decode_encode: "hex_decode (hex_encode bs) = Some bs"
proof (induction bs)
  case (Cons b bs)
  have "unat b div 16 < 16" by (simp add: less_mult_imp_div_less)
  moreover have "16 * (unat b div 16) + unat b mod 16 = unat b" by simp
  ultimately show ?case
    using Cons.IH
    by (simp add: hex_digit_def unat_nibbles hex_value_digit del: of_nat_add of_nat_mult)
qed simp

interpretation hex: roundtrip hex_encode hex_decode "\<lambda>_. True"
  by unfold_locales (simp add: hex_decode_encode)

section \<open>Base64\<close>

definition b64_alphabet :: string where
  "b64_alphabet = ''ABCDEFGHIJKLMNOPQRSTUVWXYZabcdefghijklmnopqrstuvwxyz0123456789+/''"

definition b64_char :: "nat \<Rightarrow> char" where
  "b64_char v = b64_alphabet ! (v mod 64)"

definition b64_value :: "char \<Rightarrow> nat option" where
  "b64_value c =
     (let n = ccode c in
      if 65 \<le> n \<and> n \<le> 90 then Some (n - 65)
      else if 97 \<le> n \<and> n \<le> 122 then Some (n - 71)
      else if 48 \<le> n \<and> n \<le> 57 then Some (n + 4)
      else if n = 43 then Some 62
      else if n = 47 then Some 63
      else None)"

fun b64_encode :: "bytes \<Rightarrow> string" where
  "b64_encode [] = []"
| "b64_encode [a] =
     (let v = unat a * 65536 in [b64_char (v div 262144), b64_char (v div 4096), CHR ''='', CHR ''=''])"
| "b64_encode [a, b] =
     (let v = unat a * 65536 + unat b * 256
      in [b64_char (v div 262144), b64_char (v div 4096), b64_char (v div 64), CHR ''=''])"
| "b64_encode (a # b # c # r) =
     (let v = unat a * 65536 + unat b * 256 + unat c
      in b64_char (v div 262144) # b64_char (v div 4096) # b64_char (v div 64) # b64_char v
         # b64_encode r)"

definition b64_join :: "nat \<Rightarrow> nat \<Rightarrow> nat \<Rightarrow> nat \<Rightarrow> nat" where
  "b64_join p q r s = p * 262144 + q * 4096 + r * 64 + s"

definition b64_bytes :: "nat \<Rightarrow> bytes" where
  "b64_bytes v = [of_nat (v div 65536), of_nat (v div 256), of_nat v]"

fun b64_quads :: "string \<Rightarrow> bytes option" where
  "b64_quads [] = Some []"
| "b64_quads (a # b # c # d # s) =
     (if d = CHR ''='' then
        (if s \<noteq> [] then None
         else if c = CHR ''='' then
           (case (b64_value a, b64_value b) of
              (Some p, Some q) \<Rightarrow> Some (take 1 (b64_bytes (b64_join p q 0 0)))
            | _ \<Rightarrow> None)
         else
           (case (b64_value a, b64_value b, b64_value c) of
              (Some p, Some q, Some r) \<Rightarrow> Some (take 2 (b64_bytes (b64_join p q r 0)))
            | _ \<Rightarrow> None))
      else
        (case (b64_value a, b64_value b, b64_value c, b64_value d, b64_quads s) of
           (Some p, Some q, Some r, Some t, Some bs) \<Rightarrow> Some (b64_bytes (b64_join p q r t) @ bs)
         | _ \<Rightarrow> None))"
| "b64_quads s = None"

definition b64_decode :: "string \<Rightarrow> bytes option" where
  "b64_decode s = b64_quads (filter (\<lambda>c. c \<noteq> CHR 0x0A \<and> c \<noteq> CHR 0x0D) s)"

section \<open>Base64 round trip\<close>

lemma b64_value_eq: "b64_value c \<noteq> Some v" if "64 \<le> v"
  using that by (auto simp: b64_value_def Let_def)

lemma b64_alphabet_values: "map b64_value b64_alphabet = map Some [0..<64]"
  by (simp add: b64_alphabet_def b64_value_def ccode_def upt_rec)

lemma b64_alphabet_value:
  assumes "n < 64"
  shows "b64_value (b64_alphabet ! n) = Some n"
proof -
  have "length b64_alphabet = 64" by (simp add: b64_alphabet_def)
  then have "b64_value (b64_alphabet ! n) = map b64_value b64_alphabet ! n"
    using assms by simp
  then show ?thesis using assms by (simp add: b64_alphabet_values)
qed

lemma b64_value_char [simp]: "b64_value (b64_char v) = Some (v mod 64)"
  using b64_alphabet_value by (simp add: b64_char_def)

lemma b64_value_special [simp]:
  "b64_value (CHR ''='') = None" "b64_value (CHR 0x0A) = None" "b64_value (CHR 0x0D) = None"
  by (simp_all add: b64_value_def ccode_def)

lemma b64_char_special [simp]:
  "b64_char v \<noteq> CHR ''=''" "b64_char v \<noteq> CHR 0x0A" "b64_char v \<noteq> CHR 0x0D"
  using b64_value_char [of v] b64_value_special by (metis option.distinct(1))+

lemma b64_join_split:
  assumes "v < 16777216"
  shows "b64_join (v div 262144 mod 64) (v div 4096 mod 64) (v div 64 mod 64) (v mod 64) = v"
proof -
  have a: "v div 64 = v div 4096 * 64 + v div 64 mod 64"
    using div_mult_mod_eq [of "v div 64" 64] by (simp add: div_mult2_eq [symmetric])
  have b: "v div 4096 = v div 262144 * 64 + v div 4096 mod 64"
    using div_mult_mod_eq [of "v div 4096" 64] by (simp add: div_mult2_eq [symmetric])
  have c: "v = v div 64 * 64 + v mod 64" by simp
  have d: "v div 262144 mod 64 = v div 262144"
    using assms by (simp add: less_mult_imp_div_less)
  show ?thesis
    unfolding b64_join_def d using a b c by linarith
qed

lemma b64_bytes_triple:
  "b64_bytes (unat a * 65536 + unat b * 256 + unat c) = [a, b, c]"
proof -
  let ?v = "unat a * 65536 + unat b * 256 + unat c"
  have "(of_nat 256 :: byte) = 0" by simp
  then have z: "(of_nat (256 * n + k) :: byte) = of_nat k" for n k
    by (simp only: of_nat_add of_nat_mult) simp
  have r: "unat b * 256 + unat c < 65536" "unat c < 256"
    using unat_byte_less [of b] unat_byte_less [of c] by linarith+
  have "?v div 65536 = unat a" using r by simp
  moreover have "?v div 256 = 256 * unat a + unat b"
    using r(2) by (simp add: div_add1_eq)
  moreover have "?v = 256 * (256 * unat a + unat b) + unat c" by simp
  ultimately show ?thesis
    unfolding b64_bytes_def by (simp only: z of_nat_unat ucast_id)
qed

lemma b64_triple_bound: "unat (a::byte) * 65536 + unat (b::byte) * 256 + unat (c::byte) < 16777216"
  using unat_byte_less [of a] unat_byte_less [of b] unat_byte_less [of c] by linarith

lemma b64_join_triple:
  fixes a b c :: byte
  defines "v \<equiv> unat a * 65536 + unat b * 256 + unat c"
  shows "b64_bytes (b64_join (v div 262144 mod 64) (v div 4096 mod 64) (v div 64 mod 64) (v mod 64))
    = [a, b, c]"
  unfolding v_def by (simp only: b64_join_split [OF b64_triple_bound] b64_bytes_triple)

lemma b64_quads_encode: "b64_quads (b64_encode bs) = Some bs"
proof (induction bs rule: b64_encode.induct)
  case (2 a)
  show ?case using b64_join_triple [of a 0 0] by (simp add: Let_def)
next
  case (3 a b)
  show ?case using b64_join_triple [of a b 0] by (simp add: Let_def)
next
  case (4 a b c r)
  then show ?case using b64_join_triple [of a b c] by (simp add: Let_def)
qed simp

lemma set_b64_encode: "set (b64_encode bs) \<subseteq> insert (CHR ''='') (range b64_char)"
  by (induction bs rule: b64_encode.induct) (auto simp: Let_def)

lemma b64_encode_Nil_iff [simp]: "b64_encode b = [] \<longleftrightarrow> b = []"
  by (cases b rule: b64_encode.cases) (simp_all add: Let_def)

lemma b64_decode_encode: "b64_decode (b64_encode bs) = Some bs"
proof -
  have "filter (\<lambda>c. c \<noteq> CHR 0x0A \<and> c \<noteq> CHR 0x0D) (b64_encode bs) = b64_encode bs"
    using set_b64_encode [of bs] by (auto simp: filter_id_conv dest!: subsetD dest: sym)
  then show ?thesis by (simp add: b64_decode_def b64_quads_encode)
qed

interpretation b64: roundtrip b64_encode b64_decode "\<lambda>_. True"
  by unfold_locales (simp add: b64_decode_encode)

end
