(* ===== verification/GoStrings.thy ===== *)
theory GoStrings
  imports Prelude "HOL-Library.Sublist"
begin

text \<open>
  The functions of Go's \<open>strings\<close>, \<open>unicode\<close> and \<open>bufio\<close> packages that the
  program calls: \<open>TrimSpace\<close>, \<open>Fields\<close>, \<open>Split\<close> on a comma, \<open>HasPrefix\<close> and
  the line scanner. White space is that of \<open>unicode.IsSpace\<close>, recognised on the UTF-8
  bytes of the string.
\<close>

section \<open>White space\<close>

definition wide_space :: "nat \<Rightarrow> nat \<Rightarrow> nat \<Rightarrow> bool" where
  "wide_space x y z \<longleftrightarrow>
     (x = 0xE1 \<and> y = 0x9A \<and> z = 0x80) \<or>
     (x = 0xE2 \<and> y = 0x80 \<and> (0x80 \<le> z \<and> z \<le> 0x8A \<or> z = 0xA8 \<or> z = 0xA9 \<or> z = 0xAF)) \<or>
     (x = 0xE2 \<and> y = 0x81 \<and> z = 0x9F) \<or>
     (x = 0xE3 \<and> y = 0x80 \<and> z = 0x80)"

text \<open>The byte length of the white-space rune a string starts with, 0 if it starts with none.\<close>

fun space_len :: "string \<Rightarrow> nat" where
  "space_len [] = 0"
| "space_len (a # r) =
     (if (9 \<le> ccode a \<and> ccode a \<le> 13) \<or> ccode a = 32 then 1
      else (case r of [] \<Rightarrow> 0
        | b # q \<Rightarrow>
          if ccode a = 0xC2 \<and> (ccode b = 0x85 \<or> ccode b = 0xA0) then 2
          else (case q of [] \<Rightarrow> 0
            | c # _ \<Rightarrow> if wide_space (ccode a) (ccode b) (ccode c) then 3 else 0)))"

text \<open>The same at the end of a string.\<close>

definition space_end_len :: "string \<Rightarrow> nat" where
  "space_end_len s =
     (let n = length s in
      if 1 \<le> n \<and> space_len (drop (n - 1) s) = 1 then 1
      else if 2 \<le> n \<and> space_len (drop (n - 2) s) = 2 then 2
      else if 3 \<le> n \<and> space_len (drop (n - 3) s) = 3 then 3
      else 0)"

lemma space_len_le: "space_len s \<le> length s"
  by (cases s rule: space_len.cases) (auto split: list.splits)

lemma space_end_len_le: "space_end_len s \<le> length s"
  by (auto simp: space_end_len_def Let_def)

lemma drop_space_less [termination_simp]:
  "0 < space_len s \<Longrightarrow> length s - space_len s < length s"
  using space_len_le [of s] by linarith

lemma space_len_ascii:
  "ccode a < 128 \<Longrightarrow> space_len (a # r) = (if (9 \<le> ccode a \<and> ccode a \<le> 13) \<or> ccode a = 32 then 1 else 0)"
  by (auto simp: wide_space_def split: list.splits)

section \<open>TrimSpace, Fields, Split\<close>

function trim_left :: "string \<Rightarrow> string" where
  "trim_left s = (if space_len s = 0 then s else trim_left (drop (space_len s) s))"
  by pat_completeness auto
termination
  by (relation "measure length") (auto simp: drop_space_less)

declare trim_left.simps [simp del]

function trim_right :: "string \<Rightarrow> string" where
  "trim_right s = (if space_end_len s = 0 then s
     else trim_right (take (length s - space_end_len s) s))"
  by pat_completeness auto
termination
proof (relation "measure length")
  fix s :: string
  assume "space_end_len s \<noteq> 0"
  then show "(take (length s - space_end_len s) s, s) \<in> measure length"
    using space_end_len_le [of s] by simp
qed simp

declare trim_right.simps [simp del]

definition trim_space :: "string \<Rightarrow> string" where
  "trim_space s = trim_right (trim_left s)"

text \<open>\<open>strings.Fields\<close>: the maximal runs of non-space bytes; \<open>cur\<close> is the current run, reversed.\<close>

definition flush :: "string \<Rightarrow> string list" where
  "flush cur = (if cur = [] then [] else [rev cur])"

function fields_from :: "string \<Rightarrow> string \<Rightarrow> string list" where
  "fields_from cur s =
     (case s of [] \<Rightarrow> flush cur
      | c # r \<Rightarrow>
        if 0 < space_len s then flush cur @ fields_from [] (drop (space_len s) s)
        else fields_from (c # cur) r)"
  by pat_completeness auto
termination
  by (relation "measure (\<lambda>(cur, s). length s)") (auto simp: drop_space_less)

declare fields_from.simps [simp del]

definition fields :: "string \<Rightarrow> string list" where
  "fields s = fields_from [] s"

fun split_on :: "char \<Rightarrow> string \<Rightarrow> string list" where
  "split_on d [] = [[]]"
| "split_on d (c # s) =
     (if c = d then [] # split_on d s
      else (case split_on d s of [] \<Rightarrow> [[c]] | x # xs \<Rightarrow> (c # x) # xs))"

definition has_prefix :: "string \<Rightarrow> string \<Rightarrow> bool" where
  "has_prefix s p = (take (length p) s = p)"

section \<open>Lines\<close>

text \<open>
  \<open>bufio.Scanner\<close> with \<open>ScanLines\<close>: lines end at a newline, one trailing carriage
  return is dropped, and a line that does not fit the 64 KiB buffer stops the scan with
  \<open>ErrTooLong\<close> (the second component is False), the lines before it having been delivered.
\<close>

definition max_token :: nat where
  "max_token = 65536"

definition drop_cr :: "string \<Rightarrow> string" where
  "drop_cr l = (if l \<noteq> [] \<and> last l = CHR 0x0D then butlast l else l)"

function scan_lines :: "string \<Rightarrow> string list \<times> bool" where
  "scan_lines s =
     (if s = [] then ([], True)
      else let l = takeWhile (\<lambda>c. c \<noteq> CHR 0x0A) s;
               r = dropWhile (\<lambda>c. c \<noteq> CHR 0x0A) s
           in if max_token \<le> length l then ([], False)
              else let (ls, ok) = scan_lines (tl r) in (drop_cr l # ls, ok))"
  by pat_completeness auto
termination
proof (relation "measure length")
  fix s l r :: string
  assume s: "s \<noteq> []" and r: "r = dropWhile (\<lambda>c. c \<noteq> CHR 0x0A) s"
  have "length r \<le> length s" unfolding r by (rule length_dropWhile_le)
  with s show "(tl r, s) \<in> measure length" by (cases r) auto
qed simp

declare scan_lines.simps [simp del]

lemma scan_lines_Nil [simp]: "scan_lines [] = ([], True)"
  by (simp add: scan_lines.simps [of "[]"])

lemma scan_lines_line:
  assumes "CHR 0x0A \<notin> set l" and "length l < max_token"
  shows "scan_lines (l @ CHR 0x0A # s) = (drop_cr l # fst (scan_lines s), snd (scan_lines s))"
proof -
  have nl: "\<And>c. c \<in> set l \<Longrightarrow> c \<noteq> CHR 0x0A" using assms(1) by auto
  have tw: "takeWhile (\<lambda>c. c \<noteq> CHR 0x0A) (l @ CHR 0x0A # s) = l"
    using nl by (simp add: takeWhile_append2)
  have dw: "dropWhile (\<lambda>c. c \<noteq> CHR 0x0A) (l @ CHR 0x0A # s) = CHR 0x0A # s"
    using nl by (simp add: dropWhile_append2)
  show ?thesis
    using assms(2) by (subst scan_lines.simps) (simp add: tw dw Let_def split_beta)
qed

section \<open>What trimming and splitting give\<close>

lemma space_len_append: "0 < space_len s \<Longrightarrow> space_len (s @ r) = space_len s"
  by (cases s rule: space_len.cases) (auto split: list.splits if_splits)

lemma space_len_take: "0 < space_len (take k s) \<Longrightarrow> space_len s = space_len (take k s)"
  using space_len_append [of "take k s" "drop k s"] by simp

lemma space_len_trim_left [simp]: "space_len (trim_left s) = 0"
  by (induction s rule: trim_left.induct) (subst trim_left.simps, simp)

lemma trim_left_fix: "space_len s = 0 \<Longrightarrow> trim_left s = s"
  by (subst trim_left.simps) simp

lemma space_end_len_trim_right [simp]: "space_end_len (trim_right s) = 0"
  by (induction s rule: trim_right.induct) (subst trim_right.simps, simp)

lemma trim_right_fix: "space_end_len s = 0 \<Longrightarrow> trim_right s = s"
  by (subst trim_right.simps) simp

lemma trim_right_take: "\<exists>k. trim_right s = take k s"
proof (induction s rule: trim_right.induct)
  case (1 s)
  show ?case
  proof (cases "space_end_len s = 0")
    case True
    then have "trim_right s = take (length s) s" by (simp add: trim_right_fix)
    then show ?thesis by blast
  next
    case False
    with "1" obtain k where "trim_right (take (length s - space_end_len s) s)
        = take k (take (length s - space_end_len s) s)" by blast
    with False show ?thesis by (subst trim_right.simps) auto
  qed
qed

lemma space_len_trim_space [simp]: "space_len (trim_space s) = 0"
proof -
  obtain k where k: "trim_right (trim_left s) = take k (trim_left s)"
    using trim_right_take by blast
  then show ?thesis using space_len_take [of k "trim_left s"] by (auto simp: trim_space_def)
qed

lemma space_end_len_trim_space [simp]: "space_end_len (trim_space s) = 0"
  by (simp add: trim_space_def)

lemma trim_space_fix: "space_len s = 0 \<Longrightarrow> space_end_len s = 0 \<Longrightarrow> trim_space s = s"
  by (simp add: trim_space_def trim_left_fix trim_right_fix)

lemma trim_space_idem [simp]: "trim_space (trim_space s) = trim_space s"
  by (rule trim_space_fix) simp_all

lemma set_trim_left: "set (trim_left s) \<subseteq> set s"
proof (induction s rule: trim_left.induct)
  case (1 s)
  then show ?case by (subst trim_left.simps) (auto dest: in_set_dropD)
qed

lemma set_trim_space: "set (trim_space s) \<subseteq> set s"
proof -
  obtain k where "trim_space s = take k (trim_left s)"
    using trim_right_take [of "trim_left s"] by (auto simp: trim_space_def)
  then show ?thesis using set_trim_left [of s] by (auto dest: in_set_takeD)
qed

lemma split_on_clean: "x \<in> set (split_on d s) \<Longrightarrow> d \<notin> set x"
  by (induction s arbitrary: x) (auto split: if_splits list.splits)

lemma split_on_not_Nil [simp]: "split_on d s \<noteq> []"
  by (induction s) (auto split: list.splits)

end
