(* ===== verification/Identity.thy ===== *)
theory Identity
  imports Codec GoStrings
begin

text \<open>
  The key material of \<open>internal/secure/secure.go\<close>: keypairs in base64, the identity file
  every agent and broker keeps, and the list of authorized peers. Key generation is the Noise
  library's, so a fresh keypair is an argument; the files are a map from paths to a mode and
  the contents, and what the operating system answers is an argument of each operation.
\<close>

section \<open>Keypairs\<close>

record keypair =
  kp_public :: bytes
  kp_private :: bytes

datatype secure_error =
    BadPrivate | BadPublic | Malformed string | BadBase64 string | NoRandom | OsError
  | BadKeyLine nat | LineTooLong
  | Unauthorized string | NoPeerStatic | NoiseFailed | ConnFailed | NotCompleted

definition generate_keypair :: "keypair option \<Rightarrow> secure_error + keypair" where
  "generate_keypair fresh = (case fresh of None \<Rightarrow> Inl NoRandom | Some kp \<Rightarrow> Inr kp)"

definition encode_public :: "bytes \<Rightarrow> string" where
  "encode_public = b64_encode"

definition decode_public :: "string \<Rightarrow> bytes option" where
  "decode_public = b64_decode"

definition load_keypair :: "keypair option \<Rightarrow> string \<Rightarrow> string \<Rightarrow> secure_error + keypair" where
  "load_keypair fresh priv pub =
     (if priv = [] then generate_keypair fresh
      else case b64_decode priv of
          None \<Rightarrow> Inl BadPrivate
        | Some k \<Rightarrow>
            (case b64_decode pub of
               None \<Rightarrow> Inl BadPublic
             | Some p \<Rightarrow> Inr \<lparr>kp_public = p, kp_private = k\<rparr>))"

section \<open>The identity file\<close>

type_synonym files = "string \<rightharpoonup> nat \<times> string"

text \<open>
  What the system answers: whether \<open>ReadFile\<close> fails for another reason than a missing file,
  the fresh keypair, whether \<open>MkdirAll\<close> works (\<open>filepath.Dir\<close> is never empty), and for
  \<open>WriteFile\<close> what a failed write left in the file, if it was created at all.
\<close>

datatype write_result = Written | WriteFailed "string option"

record os_answers =
  os_read_error :: bool
  os_fresh :: "keypair option"
  os_mkdir :: bool
  os_write :: write_result

definition parse_identity :: "string \<Rightarrow> string \<Rightarrow> secure_error + keypair" where
  "parse_identity path contents =
     (case GoStrings.fields contents of
        k # p # _ \<Rightarrow>
          (case (b64_decode k, b64_decode p) of
             (Some priv, Some pub) \<Rightarrow> Inr \<lparr>kp_public = pub, kp_private = priv\<rparr>
           | _ \<Rightarrow> Inl (BadBase64 path))
      | _ \<Rightarrow> Inl (Malformed path))"

definition print_identity :: "keypair \<Rightarrow> string" where
  "print_identity kp =
     encode_public (kp_private kp) @ [CHR 0x0A] @ encode_public (kp_public kp) @ [CHR 0x0A]"

definition identity_mode :: nat where "identity_mode = 0x180"

fun write_file :: "write_result \<Rightarrow> string \<Rightarrow> nat \<Rightarrow> string \<Rightarrow> files \<Rightarrow> files \<times> bool" where
  "write_file Written path mode contents fs =
     (fs(path \<mapsto> (case fs path of None \<Rightarrow> mode | Some (old, _) \<Rightarrow> old, contents)), True)"
| "write_file (WriteFailed None) path mode contents fs = (fs, False)"
| "write_file (WriteFailed (Some part)) path mode contents fs =
     (fs(path \<mapsto> (case fs path of None \<Rightarrow> mode | Some (old, _) \<Rightarrow> old, part)), False)"

definition load_or_create :: "os_answers \<Rightarrow> string \<Rightarrow> files \<Rightarrow> files \<times> (secure_error + keypair)" where
  "load_or_create os path fs =
     (if os_read_error os then (fs, Inl OsError)
      else case fs path of
          Some (_, contents) \<Rightarrow> (fs, parse_identity path contents)
        | None \<Rightarrow>
            (case generate_keypair (os_fresh os) of
               Inl e \<Rightarrow> (fs, Inl e)
             | Inr kp \<Rightarrow>
                 if \<not> os_mkdir os then (fs, Inl OsError)
                 else (case write_file (os_write os) path identity_mode (print_identity kp) fs of
                     (fs, True) \<Rightarrow> (fs, Inr kp)
                   | (fs, False) \<Rightarrow> (fs, Inl OsError))))"

definition resolve_identity ::
  "os_answers \<Rightarrow> string \<Rightarrow> string \<Rightarrow> string \<Rightarrow> files \<Rightarrow> files \<times> (secure_error + keypair)" where
  "resolve_identity os path priv pub fs =
     (if path \<noteq> [] then load_or_create os path fs
      else (fs, load_keypair (os_fresh os) priv pub))"

section \<open>Base64 text has no white space\<close>

lemma b64_char_ascii: "ccode (b64_char v) < 128 \<and> 33 \<le> ccode (b64_char v)"
proof -
  have "\<forall>c\<in>set b64_alphabet. ccode c < 128 \<and> 33 \<le> ccode c"
    by (simp add: b64_alphabet_def ccode_def)
  moreover have "b64_char v \<in> set b64_alphabet"
    unfolding b64_char_def by (rule nth_mem) (simp add: b64_alphabet_def)
  ultimately show ?thesis by blast
qed

definition graphic :: "char \<Rightarrow> bool" where
  "graphic c \<longleftrightarrow> 33 \<le> ccode c \<and> ccode c < 128"

lemma graphic_b64_encode: "c \<in> set (b64_encode bs) \<Longrightarrow> graphic c"
  using set_b64_encode [of bs] b64_char_ascii by (force simp: graphic_def ccode_def)

lemma graphic_space_len: "graphic c \<Longrightarrow> space_len (c # s) = 0"
  by (simp add: space_len_ascii graphic_def del: space_len.simps)

text \<open>A run of graphic characters is one field, ended by white space or the end of the string.\<close>

lemma fields_from_word:
  "\<forall>c\<in>set w. graphic c \<Longrightarrow> fields_from cur (w @ s) = fields_from (rev w @ cur) s"
proof (induction w arbitrary: cur)
  case (Cons c w)
  then have "fields_from cur ((c # w) @ s) = fields_from (c # cur) (w @ s)"
    by (subst fields_from.simps) (simp add: graphic_space_len del: space_len.simps)
  with Cons show ?case by simp
qed simp

lemma fields_from_space:
  "c \<in> {CHR 0x0A, CHR '' ''} \<Longrightarrow> fields_from cur (c # s) = flush cur @ fields_from [] s"
  by (subst fields_from.simps) (auto simp: space_len_ascii ccode_def simp del: space_len.simps)

lemma fields_word_space:
  assumes "\<forall>c\<in>set w. graphic c" and "w \<noteq> []" and "c \<in> {CHR 0x0A, CHR '' ''}"
  shows "GoStrings.fields (w @ c # s) = w # GoStrings.fields s"
  using assms by (simp add: GoStrings.fields_def fields_from_word fields_from_space flush_def)

lemma fields_word: "\<forall>c\<in>set w. graphic c \<Longrightarrow> w \<noteq> [] \<Longrightarrow> GoStrings.fields w = [w]"
  using fields_from_word [of w "[]" "[]"]
  by (simp add: GoStrings.fields_def fields_from.simps [of _ "[]"] flush_def)

lemma fields_Nil [simp]: "GoStrings.fields [] = []"
  by (simp add: GoStrings.fields_def fields_from.simps [of _ "[]"] flush_def)

section \<open>The identity survives\<close>

lemma parse_print_identity:
  assumes "kp_public kp \<noteq> []" and "kp_private kp \<noteq> []"
  shows "parse_identity path (print_identity kp) = Inr kp"
  using assms
  by (simp add: parse_identity_def print_identity_def encode_public_def fields_word_space
      graphic_b64_encode b64_decode_encode)

text \<open>
  C26. The identity is stable: once \<open>LoadOrCreateIdentity\<close> has returned a keypair for a path,
  whether it created or read it, every later call for the path whose read works returns the
  same keypair, whatever the system answers besides, and changes no file; a file that it
  created has mode 0600.
\<close>

theorem identity_stable:
  assumes "load_or_create os path fs = (fs', Inr kp)"
    and "\<And>f. os_fresh os = Some f \<Longrightarrow> kp_public f \<noteq> [] \<and> kp_private f \<noteq> []"
    and "\<not> os_read_error os'"
  shows "load_or_create os' path fs' = (fs', Inr kp) \<and>
    (fs path = None \<longrightarrow> fs' path = Some (0x180, print_identity kp))"
proof (cases "fs path")
  case None
  then have "os_fresh os = Some kp" and fs': "fs' = fs(path \<mapsto> (0x180, print_identity kp))"
    using assms(1)
    by (auto simp: load_or_create_def generate_keypair_def identity_mode_def
        split: if_splits option.splits prod.splits bool.splits elim!: write_file.elims)
  then have "kp_public kp \<noteq> [] \<and> kp_private kp \<noteq> []" using assms(2) by blast
  with fs' assms(3) show ?thesis by (simp add: load_or_create_def parse_print_identity)
next
  case (Some f)
  with assms(1,3) show ?thesis
    by (cases f) (auto simp: load_or_create_def split: if_splits)
qed

section \<open>Authorized keys\<close>

text \<open>
  One line: None if it is skipped, else the outcome of decoding its first field. A trimmed
  line that is not empty has a first field (\<open>fields_of_trimmed\<close> below), so the index in
  the code is in range.
\<close>

definition key_line :: "string \<Rightarrow> bytes option option" where
  "key_line line =
     (let text = trim_space line in
      if text = [] \<or> has_prefix text ''#'' then None
      else Some (b64_decode (hd (GoStrings.fields text))))"

fun parse_keys :: "nat \<Rightarrow> string list \<Rightarrow> bytes list \<Rightarrow> secure_error + bytes list" where
  "parse_keys n [] keys = Inr keys"
| "parse_keys n (l # ls) keys =
     (case key_line l of
        None \<Rightarrow> parse_keys (Suc n) ls keys
      | Some None \<Rightarrow> Inl (BadKeyLine (Suc n))
      | Some (Some k) \<Rightarrow> parse_keys (Suc n) ls (keys @ [k]))"

text \<open>The keys and the error, both of which are there when a line is too long for the scanner.\<close>

definition load_authorized_keys :: "bool \<Rightarrow> string \<Rightarrow> files \<Rightarrow> bytes list \<times> secure_error option" where
  "load_authorized_keys opened path fs =
     (case fs path of
        None \<Rightarrow> ([], Some OsError)
      | Some (_, contents) \<Rightarrow>
          if \<not> opened then ([], Some OsError)
          else (case scan_lines contents of (ls, ok) \<Rightarrow>
            (case parse_keys 0 ls [] of
               Inl e \<Rightarrow> ([], Some e)
             | Inr keys \<Rightarrow> (keys, if ok then None else Some LineTooLong))))"

lemma fields_from_cur: "cur \<noteq> [] \<Longrightarrow> fields_from cur s \<noteq> []"
proof (induction s arbitrary: cur)
  case (Cons c s)
  then show ?case by (subst fields_from.simps) (simp add: flush_def)
qed (simp add: fields_from.simps [of _ "[]"] flush_def)

lemma fields_of_trimmed: "trim_space l \<noteq> [] \<Longrightarrow> GoStrings.fields (trim_space l) \<noteq> []"
  using space_len_trim_space [of l] fields_from_cur
  by (cases "trim_space l")
     (auto simp: GoStrings.fields_def fields_from.simps [of "[]"] simp del: space_len_trim_space space_len.simps)

theorem identity_stable_witness:
  "load_or_create \<lparr>os_read_error = False, os_fresh = None, os_mkdir = False, os_write = WriteFailed None\<rparr> ''id''
     (fst (load_or_create \<lparr>os_read_error = False, os_fresh = Some \<lparr>kp_public = [1], kp_private = [2]\<rparr>,
        os_mkdir = True, os_write = Written\<rparr> ''id'' Map.empty)) =
   ([''id'' \<mapsto> (0x180, print_identity \<lparr>kp_public = [1], kp_private = [2]\<rparr>)],
    Inr \<lparr>kp_public = [1], kp_private = [2]\<rparr>)"
proof -
  let ?os = "\<lparr>os_read_error = False, os_fresh = Some \<lparr>kp_public = [1], kp_private = [2]\<rparr>, os_mkdir = True, os_write = Written\<rparr>"
  let ?kp = "\<lparr>kp_public = [1], kp_private = [2]\<rparr>"
  have "load_or_create ?os ''id'' Map.empty = ([''id'' \<mapsto> (0x180, print_identity ?kp)], Inr ?kp)"
    by (simp add: load_or_create_def generate_keypair_def identity_mode_def)
  with identity_stable [OF this, of "\<lparr>os_read_error = False, os_fresh = None, os_mkdir = False, os_write = WriteFailed None\<rparr>"]
  show ?thesis by simp
qed

text \<open>
  A failed write is not undone: when the file was created but not all of the first key
  was written, every later start on the path fails with the malformed file and never
  replaces it.
\<close>

theorem failed_write_bricks_identity:
  assumes "fs path = None" and "os_write os = WriteFailed (Some part)" and "length (GoStrings.fields part) < 2"
    and "\<not> os_read_error os" and "os_fresh os = Some kp" and "os_mkdir os" and "\<not> os_read_error os'"
  shows "\<exists>fs'. load_or_create os path fs = (fs', Inl OsError) \<and>
    load_or_create os' path fs' = (fs', Inl (Malformed path))"
proof -
  have "parse_identity path part = Inl (Malformed path)"
    using assms(3) by (auto simp: parse_identity_def split: list.split)
  with assms show ?thesis by (simp add: load_or_create_def generate_keypair_def)
qed

theorem failed_write_bricks_identity_witness:
  "\<exists>fs'. load_or_create \<lparr>os_read_error = False, os_fresh = Some \<lparr>kp_public = [1], kp_private = [2]\<rparr>,
       os_mkdir = True, os_write = WriteFailed (Some [])\<rparr> ''id'' Map.empty = (fs', Inl OsError) \<and>
     load_or_create \<lparr>os_read_error = False, os_fresh = None, os_mkdir = False, os_write = Written\<rparr> ''id'' fs'
       = (fs', Inl (Malformed ''id''))"
  by (rule failed_write_bricks_identity [where part = "[]"]) simp_all

section \<open>A file of authorized keys\<close>

datatype key_entry = KComment string | KBlank | KKey bytes string

fun entry_line :: "key_entry \<Rightarrow> string" where
  "entry_line (KComment c) = CHR ''#'' # c"
| "entry_line KBlank = []"
| "entry_line (KKey k label) = encode_public k @ (if label = [] then [] else CHR '' '' # label)"

definition entries_file :: "key_entry list \<Rightarrow> string" where
  "entries_file es = concat (map (\<lambda>e. entry_line e @ [CHR 0x0A]) es)"

fun entry_keys :: "key_entry \<Rightarrow> bytes list" where
  "entry_keys (KKey k label) = [k]"
| "entry_keys _ = []"

fun entry_ok :: "key_entry \<Rightarrow> bool" where
  "entry_ok (KComment c) \<longleftrightarrow> CHR 0x0A \<notin> set c \<and> length c < max_token - 1"
| "entry_ok KBlank \<longleftrightarrow> True"
| "entry_ok (KKey k label) \<longleftrightarrow> k \<noteq> [] \<and> CHR 0x0A \<notin> set label \<and>
     length (encode_public k) + length label < max_token - 1"

text \<open>Trimming keeps a word of graphic characters at the start of a line.\<close>

lemma space_end_len_at:
  "space_end_len s \<noteq> 0 \<Longrightarrow> space_len (drop (length s - space_end_len s) s) = space_end_len s"
  by (auto simp: space_end_len_def Let_def simp del: space_len.simps)

lemma space_end_len_word:
  assumes "\<forall>c\<in>set w. graphic c" and "w \<noteq> []"
  shows "space_end_len (w @ r) \<le> length r"
proof -
  have z: "space_len (drop (length (w @ r) - n) (w @ r)) = 0" if "length r < n" "n \<le> length (w @ r)" for n
  proof -
    have "length (w @ r) - n < length w" using that by simp
    then obtain c w' where "drop (length (w @ r) - n) w = c # w'" "c \<in> set w"
      by (metis Cons_nth_drop_Suc nth_mem)
    then show ?thesis using assms(1) \<open>length (w @ r) - n < length w\<close> graphic_space_len [of c] by simp
  qed
  show ?thesis
    using z [of "space_end_len (w @ r)"] space_end_len_at [of "w @ r"] space_end_len_le [of "w @ r"]
    by (metis gr_implies_not0 linorder_not_le)
qed

lemma trim_right_word:
  assumes "\<forall>c\<in>set w. graphic c" and "w \<noteq> []"
  shows "\<exists>k. trim_right (w @ r) = w @ take k r"
proof (induction "length r" arbitrary: r rule: less_induct)
  case less
  let ?n = "space_end_len (w @ r)"
  show ?case
  proof (cases "?n = 0")
    case True
    then have "trim_right (w @ r) = w @ take (length r) r" by (simp add: trim_right_fix)
    then show ?thesis by blast
  next
    case False
    have le: "?n \<le> length r" by (rule space_end_len_word [OF assms])
    then have "trim_right (w @ r) = trim_right (w @ take (length r - ?n) r)"
      using False by (subst trim_right.simps) simp
    moreover have "length (take (length r - ?n) r) < length r" using False le by simp
    then obtain k where "trim_right (w @ take (length r - ?n) r) = w @ take k (take (length r - ?n) r)"
      using less by blast
    ultimately show ?thesis by auto
  qed
qed

lemma trim_space_word:
  assumes "\<forall>c\<in>set w. graphic c" and "w \<noteq> []"
  shows "\<exists>k. trim_space (w @ r) = w @ take k r"
proof -
  have "space_len (w @ r) = 0" using assms graphic_space_len by (cases w) auto
  then show ?thesis using trim_right_word [OF assms] by (simp add: trim_space_def trim_left_fix)
qed

lemma has_prefix_Cons: "has_prefix (c # s) [d] \<longleftrightarrow> c = d"
  by (simp add: has_prefix_def)

lemma key_line_comment: "key_line (CHR ''#'' # c) = None"
proof -
  have "\<exists>k. trim_space (''#'' @ c) = ''#'' @ take k c"
    by (rule trim_space_word) (simp_all add: graphic_def ccode_def)
  then show ?thesis by (auto simp: key_line_def Let_def has_prefix_Cons)
qed

lemma key_line_Nil: "key_line [] = None"
  by (simp add: key_line_def trim_space_def trim_left_fix trim_right_fix space_end_len_def)

text \<open>A key is read from the start of its line, whatever follows it after a space.\<close>

lemma b64_value_hash: "b64_value (CHR ''#'') = None"
  by (simp add: b64_value_def ccode_def)

lemma hash_notin_b64: "CHR ''#'' \<notin> set (b64_encode k)"
proof
  assume "CHR ''#'' \<in> set (b64_encode k)"
  then have "CHR ''#'' \<in> insert (CHR ''='') (range b64_char)" by (rule subsetD [OF set_b64_encode])
  moreover have "CHR ''#'' \<noteq> CHR ''=''" by simp
  ultimately have "CHR ''#'' \<in> range b64_char" by blast
  then obtain v where "CHR ''#'' = b64_char v" by (rule rangeE)
  then have "b64_value (CHR ''#'') = Some (v mod 64)" by (simp only: b64_value_char)
  then show False by (simp only: b64_value_hash option.distinct)
qed

lemma key_line_key:
  assumes "k \<noteq> []" and "r = [] \<or> hd r = CHR '' ''"
  shows "key_line (encode_public k @ r) = Some (Some k)"
proof -
  let ?w = "encode_public k"
  have w: "\<forall>c\<in>set ?w. graphic c" "?w \<noteq> []" "CHR ''#'' \<notin> set ?w"
    using assms(1) by (simp_all add: encode_public_def graphic_b64_encode hash_notin_b64)
  obtain j where j: "trim_space (?w @ r) = ?w @ take j r"
    using trim_space_word [OF w(1,2)] by blast
  have "take j r = [] \<or> (\<exists>s. take j r = CHR '' '' # s)"
    using assms(2) by (cases r; cases j) auto
  then have "hd (GoStrings.fields (?w @ take j r)) = ?w"
  proof (elim disjE exE)
    show "take j r = [] \<Longrightarrow> hd (GoStrings.fields (?w @ take j r)) = ?w"
      by (simp only: append_Nil2 fields_word [OF w(1,2)] list.sel)
    show "take j r = CHR '' '' # s \<Longrightarrow> hd (GoStrings.fields (?w @ take j r)) = ?w" for s
      by (simp only: fields_word_space [OF w(1,2)] list.sel insert_iff simp_thms)
  qed
  moreover have "\<not> has_prefix (?w @ take j r) ''#''"
    using w(2,3) by (cases ?w) (auto simp: has_prefix_Cons)
  ultimately show ?thesis
    using w(2) unfolding key_line_def Let_def j by (simp add: encode_public_def b64_decode_encode)
qed

lemma graphic_control [simp]: "\<not> graphic (CHR 0x0A)" "\<not> graphic (CHR 0x0D)" "\<not> graphic (CHR '' '')"
  by (simp_all add: graphic_def ccode_def)

lemma drop_cr_word:
  assumes "\<forall>c\<in>set w. graphic c" and "r = [] \<or> hd r = CHR '' ''"
  shows "\<exists>r'. drop_cr (w @ r) = w @ r' \<and> (r' = [] \<or> hd r' = CHR '' '')"
proof (cases "r = []")
  case True
  have "graphic (last w)" if "w \<noteq> []" using assms(1) that by simp
  then have "drop_cr w = w" by (auto simp: drop_cr_def)
  with True show ?thesis by auto
next
  case False
  then obtain s where "r = CHR '' '' # s" using assms(2) by (cases r) auto
  then show ?thesis by (auto simp: drop_cr_def butlast_append)
qed

lemma key_line_entry:
  assumes "entry_ok e"
  shows "key_line (drop_cr (entry_line e)) = (case entry_keys e of [] \<Rightarrow> None | k # _ \<Rightarrow> Some (Some k))"
proof (cases e)
  case (KComment c)
  have "drop_cr (CHR ''#'' # c) = CHR ''#'' # (if c \<noteq> [] \<and> last c = CHR 0x0D then butlast c else c)"
    by (auto simp: drop_cr_def)
  with KComment show ?thesis by (simp add: key_line_comment)
next
  case KBlank
  then show ?thesis by (simp add: key_line_Nil drop_cr_def)
next
  case (KKey k label)
  have "\<forall>c\<in>set (encode_public k). graphic c" by (simp add: encode_public_def graphic_b64_encode)
  moreover have "(if label = [] then [] else CHR '' '' # label) = [] \<or>
      hd (if label = [] then [] else CHR '' '' # label) = CHR '' ''" by simp
  ultimately obtain r where r: "drop_cr (entry_line e) = encode_public k @ r" "r = [] \<or> hd r = CHR '' ''"
    unfolding KKey entry_line.simps using drop_cr_word by blast
  have "k \<noteq> []" using assms KKey by simp
  then show ?thesis unfolding r(1) using key_line_key [OF _ r(2)] by (simp add: KKey)
qed

lemma entry_line_scan:
  assumes "entry_ok e"
  shows "CHR 0x0A \<notin> set (entry_line e)" and "length (entry_line e) < max_token"
proof -
  have "CHR 0x0A \<notin> set (encode_public k)" for k
    using graphic_b64_encode [of "CHR 0x0A" k] by (auto simp: encode_public_def)
  with assms show "CHR 0x0A \<notin> set (entry_line e)" and "length (entry_line e) < max_token"
    by (cases e; auto simp: max_token_def)+
qed

lemma scan_entries:
  "\<forall>e\<in>set es. entry_ok e \<Longrightarrow>
   scan_lines (entries_file es @ s) =
     (map (\<lambda>e. drop_cr (entry_line e)) es @ fst (scan_lines s), snd (scan_lines s))"
proof (induction es)
  case (Cons e es)
  have "scan_lines (entry_line e @ CHR 0x0A # entries_file es @ s) =
      (drop_cr (entry_line e) # fst (scan_lines (entries_file es @ s)), snd (scan_lines (entries_file es @ s)))"
    using Cons.prems by (intro scan_lines_line entry_line_scan) simp_all
  with Cons show ?case by (simp add: entries_file_def)
qed (simp add: entries_file_def)

lemma parse_entries:
  "\<forall>e\<in>set es. entry_ok e \<Longrightarrow>
   parse_keys n (map (\<lambda>e. drop_cr (entry_line e)) es @ ls) keys =
     parse_keys (n + length es) ls (keys @ concat (map entry_keys es))"
proof (induction es arbitrary: n keys)
  case (Cons e es)
  then show ?case by (cases e) (simp_all add: key_line_entry del: entry_line.simps)
qed simp

text \<open>
  C32. The file of authorized keys: the keys of the entries come back in order, labels,
  comments and blank lines are ignored, and the first line whose first field is not base64
  is refused with its number, counted from 1, and no key is returned.
\<close>

theorem authorized_keys_roundtrip:
  assumes "fs path = Some (mode, entries_file es)" and "\<forall>e\<in>set es. entry_ok e"
    and "fs bad = Some (mode, entries_file es @ l @ CHR 0x0A # s)"
    and "CHR 0x0A \<notin> set l" and "length l < max_token" and "key_line (drop_cr l) = Some None"
  shows "load_authorized_keys True path fs = (concat (map entry_keys es), None) \<and>
    load_authorized_keys True bad fs = ([], Some (BadKeyLine (length es + 1)))"
  using scan_entries [OF assms(2), of "[]"] parse_entries [OF assms(2), of 0 "[]" "[]"]
    scan_entries [OF assms(2), of "l @ CHR 0x0A # s"] parse_entries [OF assms(2), of 0 _ "[]"]
    scan_lines_line [OF assms(4,5), of s] assms(1,3,6)
  by (simp add: load_authorized_keys_def)

theorem authorized_keys_roundtrip_witness:
  "let es = [KComment ''team keys'', KBlank, KKey [1, 2] ''alice'', KKey [3] []];
       fs = [''good'' \<mapsto> (0x1A4, entries_file es), ''bad'' \<mapsto> (0x1A4, entries_file es @ ''x'' @ [CHR 0x0A])]
   in load_authorized_keys True ''good'' fs = ([[1, 2], [3]], None) \<and>
      load_authorized_keys True ''bad'' fs = ([], Some (BadKeyLine 5))"
proof -
  let ?es = "[KComment ''team keys'', KBlank, KKey [1, 2] ''alice'', KKey [3] []]"
  let ?fs = "[''good'' \<mapsto> (0x1A4, entries_file ?es), ''bad'' \<mapsto> (0x1A4, entries_file ?es @ ''x'' @ [CHR 0x0A])]"
  have "trim_space ''x'' = ''x''"
    by (rule trim_space_fix) (simp_all add: space_end_len_def ccode_def)
  moreover have "GoStrings.fields ''x'' = [''x'']"
    by (rule fields_word) (simp_all add: graphic_def ccode_def)
  ultimately have "key_line (drop_cr ''x'') = Some None"
    by (simp add: key_line_def drop_cr_def has_prefix_def b64_decode_def)
  moreover have "\<forall>e\<in>set ?es. entry_ok e" by (simp add: max_token_def encode_public_def)
  ultimately show ?thesis
    using authorized_keys_roundtrip [where fs = ?fs and path = "''good''" and bad = "''bad''" and es = ?es and l = "''x''" and s = "[]" and mode = "0x1A4"]
    by (simp add: max_token_def)
qed

end
