(* ===== verification/Transport.thy ===== *)
theory Transport
  imports Prelude
begin

text \<open>
  The message connections of \<open>internal/transport\<close>: the in-memory pipe (\<open>transport.go\<close>), the
  native WebSocket (\<open>transport_ws.go\<close>) and the browser WebSocket (\<open>transport_js.go\<close>). Each
  operation is a step that is impossible (\<open>None\<close>) while the Go call blocks. Where a Go
  \<open>select\<close> has several ready cases it takes any of them: the argument \<open>pick\<close> is that choice.
\<close>

section \<open>The pipe\<close>

datatype pside = SideA | SideB

record pipe =
  p_ab :: "bytes list"
  p_ba :: "bytes list"
  p_closed :: bool

definition pipe_cap :: nat where "pipe_cap = 16"

definition new_pipe :: pipe where
  "new_pipe = \<lparr>p_ab = [], p_ba = [], p_closed = False\<rparr>"

fun p_out :: "pside \<Rightarrow> pipe \<Rightarrow> bytes list" where
  "p_out SideA p = p_ab p"
| "p_out SideB p = p_ba p"

fun set_p_out :: "pside \<Rightarrow> bytes list \<Rightarrow> pipe \<Rightarrow> pipe" where
  "set_p_out SideA q p = p\<lparr>p_ab := q\<rparr>"
| "set_p_out SideB q p = p\<lparr>p_ba := q\<rparr>"

fun peer :: "pside \<Rightarrow> pside" where
  "peer SideA = SideB"
| "peer SideB = SideA"

text \<open>The buffer and whether the call returned nil; \<open>pick\<close> takes the closed case if both are ready.\<close>

definition pipe_write :: "pside \<Rightarrow> bool \<Rightarrow> bytes \<Rightarrow> pipe \<Rightarrow> (pipe \<times> bool) option" where
  "pipe_write x pick m p =
     (if length (p_out x p) < pipe_cap \<and> \<not> (p_closed p \<and> pick) then Some (set_p_out x (p_out x p @ [m]) p, True)
      else if p_closed p then Some (p, False)
      else None)"

definition pipe_read :: "pside \<Rightarrow> bool \<Rightarrow> pipe \<Rightarrow> (pipe \<times> bytes option) option" where
  "pipe_read x pick p =
     (case p_out (peer x) p of
        m # q \<Rightarrow>
          if p_closed p \<and> pick then Some (p, None) else Some (set_p_out (peer x) q p, Some m)
      | [] \<Rightarrow> if p_closed p then Some (p, None) else None)"

definition pipe_close :: "pipe \<Rightarrow> pipe" where
  "pipe_close p = p\<lparr>p_closed := True\<rparr>"

datatype pipe_event = PWrite pside bool bytes | PRead pside bool | PClose pside

fun pipe_step :: "pipe_event \<Rightarrow> pipe \<Rightarrow> pipe option" where
  "pipe_step (PWrite x pick m) p = map_option fst (pipe_write x pick m p)"
| "pipe_step (PRead x pick) p = map_option fst (pipe_read x pick p)"
| "pipe_step (PClose x) p = Some (pipe_close p)"

text \<open>The messages an event accepts from a side, and delivers to its peer.\<close>

fun pipe_puts :: "pside \<Rightarrow> pipe_event \<Rightarrow> pipe \<Rightarrow> bytes list" where
  "pipe_puts x (PWrite y pick m) p =
     (case pipe_write y pick m p of Some (_, True) \<Rightarrow> if y = x then [m] else [] | _ \<Rightarrow> [])"
| "pipe_puts x _ p = []"

fun pipe_takes :: "pside \<Rightarrow> pipe_event \<Rightarrow> pipe \<Rightarrow> bytes list" where
  "pipe_takes x (PRead y pick) p =
     (case pipe_read y pick p of Some (_, Some m) \<Rightarrow> if peer y = x then [m] else [] | _ \<Rightarrow> [])"
| "pipe_takes x _ p = []"

definition pipe_ok :: "pipe \<Rightarrow> bool" where
  "pipe_ok p \<longleftrightarrow> length (p_ab p) \<le> pipe_cap \<and> length (p_ba p) \<le> pipe_cap"

lemma set_p_out_simps [simp]:
  "p_out x (set_p_out y q p) = (if x = y then q else p_out x p)" "p_closed (set_p_out y q p) = p_closed p"
  by (cases x; cases y; simp)+

lemma pipe_ok_out: "pipe_ok p \<longleftrightarrow> (\<forall>x. length (p_out x p) \<le> pipe_cap)"
  unfolding pipe_ok_def by (metis p_out.simps pside.exhaust)

lemma p_out_close [simp]: "p_out x (pipe_close p) = p_out x p" "p_closed (pipe_close p)"
  by (cases x; simp add: pipe_close_def)+

lemma pipe_step_ok: "pipe_ok p \<Longrightarrow> pipe_step e p = Some q \<Longrightarrow> pipe_ok q"
  unfolding pipe_ok_out
  by (cases e) (fastforce simp: pipe_write_def pipe_read_def split: if_splits list.splits)+

interpretation pipe_stream: stream pipe_step pipe_ok "pipe_puts x" "pipe_takes x" "p_out x" for x
proof unfold_locales
  show "pipe_ok s \<Longrightarrow> pipe_step e s = Some t \<Longrightarrow> pipe_ok t" for e s t
    by (rule pipe_step_ok)
  show "pipe_step e s = Some t \<Longrightarrow> p_out x s @ pipe_puts x e s = pipe_takes x e s @ p_out x t" for e s t
    by (cases e) (auto simp: pipe_write_def pipe_read_def split: if_splits list.splits)
qed

text \<open>
  The pipe delivers in order: along every run of writes, reads and closes by both sides,
  what one side has read is a prefix of what its peer's writes were accepted for, and the
  rest is in the buffer, which never holds more than 16 messages.
\<close>

theorem pipe_fifo:
  assumes "exec pipe_step es new_pipe = Some p"
  shows "along pipe_step (pipe_puts x) es new_pipe = along pipe_step (pipe_takes x) es new_pipe @ p_out x p \<and>
    length (p_out x p) \<le> 16"
proof -
  have ok: "pipe_ok new_pipe" by (simp add: pipe_ok_def new_pipe_def)
  have "p_out x new_pipe = []" by (cases x) (simp_all add: new_pipe_def)
  moreover have "pipe_ok p"
    using pipe_stream.ok_runs ok assms by (metis runs_exec)
  then have "length (p_out x p) \<le> 16" by (simp add: pipe_ok_out pipe_cap_def)
  ultimately show ?thesis using pipe_stream.conservation [OF assms ok, of x] by simp
qed

theorem pipe_fifo_witness:
  "\<exists>p. exec pipe_step [PWrite SideA True [1], PWrite SideA True [2], PRead SideB True] new_pipe = Some p \<and>
     along pipe_step (pipe_puts SideA) [PWrite SideA True [1], PWrite SideA True [2], PRead SideB True] new_pipe
       = [[1]] @ p_out SideA p"
proof -
  let ?es = "[PWrite SideA True [1], PWrite SideA True [2], PRead SideB True]"
  have run: "exec pipe_step ?es new_pipe = Some (set_p_out SideA [[2]] new_pipe)"
    by (simp add: pipe_write_def pipe_read_def pipe_cap_def new_pipe_def)
  have "along pipe_step (pipe_takes SideA) ?es new_pipe = [[1]]"
    by (simp add: pipe_write_def pipe_read_def pipe_cap_def new_pipe_def)
  with pipe_fifo [OF run, of SideA] show ?thesis by (intro exI [of _ "set_p_out SideA [[2]] new_pipe"] conjI run) simp
qed

text \<open>
  Closing unblocks: once either side has closed the pipe, no read or write of either side
  blocks, a read of an empty buffer and a write to a full one return the error, and the pipe
  stays closed.
\<close>

theorem pipe_close_unblocks:
  "pipe_write x pick m (pipe_close p) \<noteq> None \<and> pipe_read x pick (pipe_close p) \<noteq> None \<and>
   (p_out (peer x) p = [] \<longrightarrow> pipe_read x pick (pipe_close p) = Some (pipe_close p, None)) \<and>
   (pipe_cap \<le> length (p_out x p) \<longrightarrow> pipe_write x pick m (pipe_close p) = Some (pipe_close p, False)) \<and>
   (\<forall>e q. pipe_step e (pipe_close p) = Some q \<longrightarrow> p_closed q)"
proof -
  have "p_closed q" if "pipe_step e (pipe_close p) = Some q" for e q
    using that by (cases e) (auto simp: pipe_write_def pipe_read_def split: if_splits list.splits)
  then show ?thesis by (auto simp: pipe_write_def pipe_read_def split: list.split)
qed

theorem pipe_close_unblocks_witness:
  "pipe_read SideA True (pipe_close new_pipe) = Some (pipe_close new_pipe, None)"
  using pipe_close_unblocks [of SideA True "[]" new_pipe] by (simp add: new_pipe_def)

section \<open>The native WebSocket\<close>

text \<open>
  \<open>WSConn\<close> writes one binary frame (type 2) per message under its mutex, and reads the
  payload of the next data frame whatever its type. The frames and the outcomes are the
  WebSocket library's.
\<close>

record wsconn =
  ws_out :: "(nat \<times> bytes) list"

definition ws_write_msg :: "bool \<Rightarrow> bytes \<Rightarrow> wsconn \<Rightarrow> wsconn \<times> bool" where
  "ws_write_msg net p c = (if net then (c\<lparr>ws_out := ws_out c @ [(2, p)]\<rparr>, True) else (c, False))"

definition ws_read_msg :: "(nat \<times> bytes) option \<Rightarrow> bytes option" where
  "ws_read_msg received = map_option snd received"

section \<open>The browser WebSocket\<close>

text \<open>
  \<open>JSConn\<close>: a channel of 32 messages filled by the \<open>message\<close> callback, and the socket it
  sends on. \<open>Close\<close> acts once; errors and closes of the socket call it.
\<close>

record jsconn =
  js_in :: "bytes list"
  js_sent :: "bytes list"
  js_closed :: bool

definition js_cap :: nat where "js_cap = 32"

definition js_new :: jsconn where
  "js_new = \<lparr>js_in = [], js_sent = [], js_closed = False\<rparr>"

definition js_close :: "jsconn \<Rightarrow> jsconn" where
  "js_close c = c\<lparr>js_closed := True\<rparr>"

text \<open>\<open>DialWS\<close>: the first of the \<open>open\<close> and \<open>error\<close> events decides; an error closes the connection.\<close>

definition dial_ws :: "bool \<Rightarrow> jsconn \<times> bool" where
  "dial_ws opened = (if opened then (js_new, True) else (js_close js_new, False))"

definition js_on_message :: "bool \<Rightarrow> bytes \<Rightarrow> jsconn \<Rightarrow> jsconn option" where
  "js_on_message pick m c =
     (if length (js_in c) < js_cap \<and> \<not> (js_closed c \<and> pick) then Some (c\<lparr>js_in := js_in c @ [m]\<rparr>)
      else if js_closed c then Some c
      else None)"

definition js_write_msg :: "bytes \<Rightarrow> jsconn \<Rightarrow> jsconn \<times> bool" where
  "js_write_msg p c =
     (if js_closed c then (c, False) else (c\<lparr>js_sent := js_sent c @ [p]\<rparr>, True))"

definition js_read_msg :: "bool \<Rightarrow> jsconn \<Rightarrow> (jsconn \<times> bytes option) option" where
  "js_read_msg pick c =
     (case js_in c of
        m # q \<Rightarrow> if js_closed c \<and> pick then Some (c, None) else Some (c\<lparr>js_in := q\<rparr>, Some m)
      | [] \<Rightarrow> if js_closed c then Some (c, None) else None)"

datatype js_event = JMessage bool bytes | JWrite bytes | JRead bool | JClose

fun js_step :: "js_event \<Rightarrow> jsconn \<Rightarrow> jsconn option" where
  "js_step (JMessage pick m) c = js_on_message pick m c"
| "js_step (JWrite p) c = Some (fst (js_write_msg p c))"
| "js_step (JRead pick) c = map_option fst (js_read_msg pick c)"
| "js_step JClose c = Some (js_close c)"

fun js_puts :: "js_event \<Rightarrow> jsconn \<Rightarrow> bytes list" where
  "js_puts (JMessage pick m) c =
     (if length (js_in c) < js_cap \<and> \<not> (js_closed c \<and> pick) then [m] else [])"
| "js_puts _ c = []"

fun js_takes :: "js_event \<Rightarrow> jsconn \<Rightarrow> bytes list" where
  "js_takes (JRead pick) c = (case js_read_msg pick c of Some (_, Some m) \<Rightarrow> [m] | _ \<Rightarrow> [])"
| "js_takes _ c = []"

definition js_ok :: "jsconn \<Rightarrow> bool" where
  "js_ok c \<longleftrightarrow> length (js_in c) \<le> js_cap"

interpretation js_stream: stream js_step js_ok js_puts js_takes js_in
proof unfold_locales
  show "js_ok s \<Longrightarrow> js_step e s = Some t \<Longrightarrow> js_ok t" for e s t
    by (cases e) (auto simp: js_ok_def js_on_message_def js_write_msg_def js_read_msg_def js_close_def
        split: if_splits list.splits)
  show "js_step e s = Some t \<Longrightarrow> js_in s @ js_puts e s = js_takes e s @ js_in t" for e s t
    by (cases e) (auto simp: js_on_message_def js_write_msg_def js_read_msg_def js_close_def
        split: if_splits list.splits)
qed

text \<open>
  The browser connection delivers in order: along every run what has been read is a
  prefix of the messages the callback accepted, at most 32 are waiting, and once closed a
  write is refused and sends nothing.
\<close>

theorem jsconn_fifo:
  assumes "exec js_step es (fst (dial_ws opened)) = Some c"
  shows "prefix (along js_step js_takes es (fst (dial_ws opened))) (along js_step js_puts es (fst (dial_ws opened))) \<and>
    length (js_in c) \<le> 32 \<and> js_write_msg p (js_close c) = (js_close c, False)"
proof -
  have ok: "js_ok (fst (dial_ws opened))" "js_in (fst (dial_ws opened)) = []"
    by (simp_all add: js_ok_def dial_ws_def js_new_def js_close_def)
  have "js_ok c" using js_stream.ok_runs ok(1) assms by (metis runs_exec)
  then show ?thesis
    using js_stream.in_order [OF assms ok] by (simp add: js_ok_def js_cap_def js_write_msg_def js_close_def)
qed

theorem jsconn_fifo_witness:
  "prefix (along js_step js_takes [JMessage True [1], JRead True, JMessage True [2], JClose] (fst (dial_ws True)))
     (along js_step js_puts [JMessage True [1], JRead True, JMessage True [2], JClose] (fst (dial_ws True)))"
proof -
  have "\<exists>c. exec js_step [JMessage True [1], JRead True, JMessage True [2], JClose] (fst (dial_ws True)) = Some c"
    by (simp add: js_on_message_def js_read_msg_def js_cap_def dial_ws_def js_new_def)
  then show ?thesis using jsconn_fifo by blast
qed

end
