(* ===== verification/Secure.thy ===== *)
theory Secure
  imports Identity Transport
begin

text \<open>
  The secure session of \<open>internal/secure/secure.go\<close>: the Noise IK handshake over a message
  connection, the check of the initiator's key and the encrypted session. The Noise library is
  the parameter \<open>noise\<close>; its randomness is a seed. What the connection answers to the calls of
  a handshake is an argument, and what it was told is the resulting \<open>hs_conn\<close>.
\<close>

unbundle bit_operations_syntax

section \<open>The library\<close>

text \<open>
  A handshake state \<open>'h\<close> and a cipher state \<open>'c\<close>. \<open>WriteMessage\<close> and \<open>ReadMessage\<close> return the
  two cipher states when they complete the handshake. Each operation may fail.
\<close>

record ('h, 'c) noise =
  nz_new :: "bytes \<Rightarrow> bool \<Rightarrow> keypair \<Rightarrow> bytes \<Rightarrow> 'h option"
  nz_write :: "'h \<Rightarrow> ('h \<times> bytes \<times> ('c \<times> 'c) option) option"
  nz_read :: "'h \<Rightarrow> bytes \<Rightarrow> ('h \<times> ('c \<times> 'c) option) option"
  nz_peer :: "'h \<Rightarrow> bytes"
  nz_encrypt :: "'c \<Rightarrow> bytes \<Rightarrow> ('c \<times> bytes) option"
  nz_decrypt :: "'c \<Rightarrow> bytes \<Rightarrow> 'c \<times> bytes option"

section \<open>Authorization\<close>

text \<open>\<open>subtle.ConstantTimeCompare\<close>: the bytes are combined without an early exit.\<close>

definition constant_time_compare :: "bytes \<Rightarrow> bytes \<Rightarrow> bool" where
  "constant_time_compare xs ys =
     (if length xs \<noteq> length ys then False
      else fold (\<lambda>(x, y) v. v OR (x XOR y)) (zip xs ys) 0 = 0)"

fun authorized_in :: "bytes \<Rightarrow> bytes list \<Rightarrow> bool" where
  "authorized_in key [] = False"
| "authorized_in key (a # as) =
     (if length a = length key \<and> constant_time_compare a key then True else authorized_in key as)"

definition authorized :: "bytes \<Rightarrow> bytes list \<Rightarrow> bool" where
  "authorized key allowed = (if allowed = [] then True else authorized_in key allowed)"

lemma word_or_zero: "(x :: byte) OR y = 0 \<longleftrightarrow> x = 0 \<and> y = 0"
  by (rule or_eq_0_iff)

lemma word_xor_zero: "(x :: byte) XOR y = 0 \<longleftrightarrow> x = y"
proof
  assume "x XOR y = 0"
  then have "(x XOR y) XOR y = y" by simp
  then show "x = y" by (simp add: xor.assoc)
qed simp

lemma fold_or_xor:
  "length xs = length ys \<Longrightarrow>
   fold (\<lambda>(x, y) v. v OR (x XOR y)) (zip xs ys) (v :: byte) = 0 \<longleftrightarrow> v = 0 \<and> xs = ys"
  by (induction xs ys arbitrary: v rule: list_induct2) (auto simp: word_or_zero word_xor_zero)

lemma constant_time_compare_iff: "constant_time_compare xs ys \<longleftrightarrow> xs = ys"
  by (auto simp: constant_time_compare_def fold_or_xor)

lemma authorized_in_iff: "authorized_in key allowed \<longleftrightarrow> key \<in> set allowed"
  by (induction allowed) (auto simp: constant_time_compare_iff)

text \<open>
  The loop over the allowed keys with its constant-time comparison decides membership,
  and an empty list allows every key.
\<close>

theorem authorized_iff: "authorized key allowed \<longleftrightarrow> allowed = [] \<or> key \<in> set allowed"
  by (simp add: authorized_def authorized_in_iff)

section \<open>The handshake\<close>

record hs_config =
  hs_static :: keypair
  hs_initiator :: bool
  hs_peer_static :: bytes
  hs_authorized :: "bytes list"

record 'c session_keys =
  sk_send :: 'c
  sk_recv :: 'c
  sk_peer :: bytes

record hs_conn =
  hc_sent :: "bytes list"
  hc_closed :: bool

definition fresh_conn :: hs_conn where
  "fresh_conn = \<lparr>hc_sent = [], hc_closed = False\<rparr>"

definition conn_send :: "bytes \<Rightarrow> bool \<Rightarrow> hs_conn \<Rightarrow> hs_conn" where
  "conn_send m written c = (if written then c\<lparr>hc_sent := hc_sent c @ [m]\<rparr> else c)"

text \<open>
  The end of \<open>Handshake\<close>: both cipher states must be there; the first encrypts from the
  initiator to the responder.
\<close>

definition hs_finish ::
  "('h, 'c) noise \<Rightarrow> bool \<Rightarrow> 'h \<Rightarrow> ('c \<times> 'c) option \<Rightarrow> secure_error + 'c session_keys" where
  "hs_finish nz initiator h cs =
     (case cs of
        None \<Rightarrow> Inl NotCompleted
      | Some (c0, c1) \<Rightarrow>
          Inr (if initiator then \<lparr>sk_send = c0, sk_recv = c1, sk_peer = nz_peer nz h\<rparr>
               else \<lparr>sk_send = c1, sk_recv = c0, sk_peer = nz_peer nz h\<rparr>))"

text \<open>
  \<open>written\<close> is whether the connection took the message of this side, \<open>received\<close> what its read
  returned: the initiator writes and then reads, the responder reads and then writes.
\<close>

definition handshake ::
  "('h, 'c) noise \<Rightarrow> bytes \<Rightarrow> hs_config \<Rightarrow> bool \<Rightarrow> bytes option \<Rightarrow> hs_conn \<times> (secure_error + 'c session_keys)" where
  "handshake nz seed cfg written received =
     (if hs_initiator cfg \<and> length (hs_peer_static cfg) = 0 then (fresh_conn, Inl NoPeerStatic)
      else case nz_new nz seed (hs_initiator cfg) (hs_static cfg) (hs_peer_static cfg) of
          None \<Rightarrow> (fresh_conn, Inl NoiseFailed)
        | Some h \<Rightarrow>
            if hs_initiator cfg then
              (case nz_write nz h of
                 None \<Rightarrow> (fresh_conn, Inl NoiseFailed)
               | Some (h, out, _) \<Rightarrow>
                   let c = conn_send out written fresh_conn in
                   if \<not> written then (c, Inl ConnFailed)
                   else (case received of
                       None \<Rightarrow> (c, Inl ConnFailed)
                     | Some msg2 \<Rightarrow>
                         (case nz_read nz h msg2 of
                            None \<Rightarrow> (c, Inl NoiseFailed)
                          | Some (h, cs) \<Rightarrow> (c, hs_finish nz True h cs))))
            else
              (case received of
                 None \<Rightarrow> (fresh_conn, Inl ConnFailed)
               | Some msg1 \<Rightarrow>
                   (case nz_read nz h msg1 of
                      None \<Rightarrow> (fresh_conn, Inl NoiseFailed)
                    | Some (h, _) \<Rightarrow>
                        let p = nz_peer nz h in
                        if \<not> authorized p (hs_authorized cfg) then
                          (fresh_conn\<lparr>hc_closed := True\<rparr>, Inl (Unauthorized (encode_public p)))
                        else (case nz_write nz h of
                            None \<Rightarrow> (fresh_conn, Inl NoiseFailed)
                          | Some (h, out, cs) \<Rightarrow>
                              let c = conn_send out written fresh_conn in
                              if \<not> written then (c, Inl ConnFailed)
                              else (c, hs_finish nz False h cs)))))"

text \<open>
  The gate of the responder: against any library and any first message, an initiator whose
  key is not in a non-empty list of authorized keys is sent nothing, gets no session and the
  connection is closed, and the error names its key.
\<close>

theorem unauthorized_peer_rejected:
  assumes "\<not> hs_initiator cfg" and "nz_new nz seed False (hs_static cfg) (hs_peer_static cfg) = Some h"
    and "nz_read nz h msg1 = Some (h', cs)"
    and "hs_authorized cfg \<noteq> []" and "nz_peer nz h' \<notin> set (hs_authorized cfg)"
  shows "handshake nz seed cfg written (Some msg1) =
    (\<lparr>hc_sent = [], hc_closed = True\<rparr>, Inl (Unauthorized (encode_public (nz_peer nz h'))))"
  using assms
  by (simp add: handshake_def authorized_def authorized_in_iff fresh_conn_def Let_def)

section \<open>The session\<close>

text \<open>
  \<open>Write\<close> and \<open>Read\<close> over the pipe. An encryption that succeeds advances the cipher state even
  if the connection refuses the message, and so does the decryption the library attempted.
\<close>

record 'c link =
  ep_a :: "'c session_keys"
  ep_b :: "'c session_keys"
  ep_pipe :: pipe

fun ep_keys :: "pside \<Rightarrow> 'c link \<Rightarrow> 'c session_keys" where
  "ep_keys SideA e = ep_a e"
| "ep_keys SideB e = ep_b e"

fun set_ep_keys :: "pside \<Rightarrow> 'c session_keys \<Rightarrow> 'c link \<Rightarrow> 'c link" where
  "set_ep_keys SideA k e = e\<lparr>ep_a := k\<rparr>"
| "set_ep_keys SideB k e = e\<lparr>ep_b := k\<rparr>"

definition session_write ::
  "('h, 'c) noise \<Rightarrow> pside \<Rightarrow> bool \<Rightarrow> bytes \<Rightarrow> 'c link \<Rightarrow> ('c link \<times> bool) option" where
  "session_write nz x pick m e =
     (case nz_encrypt nz (sk_send (ep_keys x e)) m of
        None \<Rightarrow> Some (e, False)
      | Some (c, ct) \<Rightarrow>
          (case pipe_write x pick ct (ep_pipe e) of
             None \<Rightarrow> None
           | Some (p, ok) \<Rightarrow>
               Some ((set_ep_keys x ((ep_keys x e)\<lparr>sk_send := c\<rparr>) e)\<lparr>ep_pipe := p\<rparr>, ok)))"

definition session_read ::
  "('h, 'c) noise \<Rightarrow> pside \<Rightarrow> bool \<Rightarrow> 'c link \<Rightarrow> ('c link \<times> bytes option) option" where
  "session_read nz x pick e =
     (case pipe_read x pick (ep_pipe e) of
        None \<Rightarrow> None
      | Some (p, None) \<Rightarrow> Some (e\<lparr>ep_pipe := p\<rparr>, None)
      | Some (p, Some ct) \<Rightarrow>
          (case nz_decrypt nz (sk_recv (ep_keys x e)) ct of
             (c, m) \<Rightarrow> Some ((set_ep_keys x ((ep_keys x e)\<lparr>sk_recv := c\<rparr>) e)\<lparr>ep_pipe := p\<rparr>, m)))"

definition session_close :: "'c link \<Rightarrow> 'c link" where
  "session_close e = e\<lparr>ep_pipe := pipe_close (ep_pipe e)\<rparr>"

datatype session_event = SWrite pside bool bytes | SRead pside bool

fun session_step :: "('h, 'c) noise \<Rightarrow> session_event \<Rightarrow> 'c link \<Rightarrow> 'c link option" where
  "session_step nz (SWrite x pick m) e = map_option fst (session_write nz x pick m e)"
| "session_step nz (SRead x pick) e = map_option fst (session_read nz x pick e)"

text \<open>The messages whose \<open>Write\<close> by a side succeeded, and those its peer's \<open>Read\<close> returned.\<close>

fun session_puts :: "('h, 'c) noise \<Rightarrow> pside \<Rightarrow> session_event \<Rightarrow> 'c link \<Rightarrow> bytes list" where
  "session_puts nz x (SWrite y pick m) e =
     (case session_write nz y pick m e of Some (_, True) \<Rightarrow> if y = x then [m] else [] | _ \<Rightarrow> [])"
| "session_puts nz x _ e = []"

fun session_takes :: "('h, 'c) noise \<Rightarrow> pside \<Rightarrow> session_event \<Rightarrow> 'c link \<Rightarrow> bytes list" where
  "session_takes nz x (SRead y pick) e =
     (case session_read nz y pick e of Some (_, Some m) \<Rightarrow> if y = peer x then [m] else [] | _ \<Rightarrow> [])"
| "session_takes nz x _ e = []"

section \<open>What the library promises\<close>

text \<open>
  Cipher states in step: what one encrypts the other decrypts, and they stay in step. The IK
  pattern between an initiator that pins the responder's key and the owner of that key: the
  first message tells the responder the initiator's key, the second completes both sides with
  cipher states in step.
\<close>

definition ciphers_ok :: "('h, 'c) noise \<Rightarrow> ('c \<Rightarrow> 'c \<Rightarrow> bool) \<Rightarrow> bool" where
  "ciphers_ok nz sync \<longleftrightarrow>
     (\<forall>c d m c' ct. sync c d \<longrightarrow> nz_encrypt nz c m = Some (c', ct) \<longrightarrow>
        (\<exists>d'. nz_decrypt nz d ct = (d', Some m) \<and> sync c' d'))"

definition ik_ok :: "('h, 'c) noise \<Rightarrow> ('c \<Rightarrow> 'c \<Rightarrow> bool) \<Rightarrow> (keypair \<Rightarrow> bool) \<Rightarrow> bool" where
  "ik_ok nz sync valid \<longleftrightarrow>
     (\<forall>si sr ki kr. valid ki \<longrightarrow> valid kr \<longrightarrow>
        (\<exists>hi hr hi1 m1 hr1 hr2 m2 hi2 i0 i1 r0 r1.
           nz_new nz si True ki (kp_public kr) = Some hi \<and> nz_new nz sr False kr [] = Some hr \<and>
           nz_write nz hi = Some (hi1, m1, None) \<and>
           nz_read nz hr m1 = Some (hr1, None) \<and> nz_peer nz hr1 = kp_public ki \<and>
           nz_write nz hr1 = Some (hr2, m2, Some (r0, r1)) \<and> nz_peer nz hr2 = kp_public ki \<and>
           nz_read nz hi1 m2 = Some (hi2, Some (i0, i1)) \<and> nz_peer nz hi2 = kp_public kr \<and>
           sync i0 r0 \<and> sync r1 i1))"

section \<open>The channel end to end\<close>

fun decrypt_all :: "('h, 'c) noise \<Rightarrow> 'c \<Rightarrow> bytes list \<Rightarrow> ('c \<times> bytes list) option" where
  "decrypt_all nz d [] = Some (d, [])"
| "decrypt_all nz d (ct # q) =
     (case nz_decrypt nz d ct of
        (d, None) \<Rightarrow> None
      | (d, Some m) \<Rightarrow> map_option (\<lambda>(d, ms). (d, m # ms)) (decrypt_all nz d q))"

lemma decrypt_all_snoc:
  "decrypt_all nz d q = Some (d1, ms) \<Longrightarrow> nz_decrypt nz d1 ct = (d2, Some m) \<Longrightarrow>
   decrypt_all nz d (q @ [ct]) = Some (d2, ms @ [m])"
  by (induction q arbitrary: d ms) (auto split: prod.splits option.splits)

definition in_flight :: "('h, 'c) noise \<Rightarrow> pside \<Rightarrow> 'c link \<Rightarrow> ('c \<times> bytes list) option" where
  "in_flight nz x e = decrypt_all nz (sk_recv (ep_keys (peer x) e)) (p_out x (ep_pipe e))"

definition in_step :: "('h, 'c) noise \<Rightarrow> ('c \<Rightarrow> 'c \<Rightarrow> bool) \<Rightarrow> pside \<Rightarrow> 'c link \<Rightarrow> bool" where
  "in_step nz sync x e \<longleftrightarrow> (\<exists>d ms. in_flight nz x e = Some (d, ms) \<and> sync (sk_send (ep_keys x e)) d)"

definition link_ok :: "('h, 'c) noise \<Rightarrow> ('c \<Rightarrow> 'c \<Rightarrow> bool) \<Rightarrow> 'c link \<Rightarrow> bool" where
  "link_ok nz sync e \<longleftrightarrow> \<not> p_closed (ep_pipe e) \<and> (\<forall>x. in_step nz sync x e)"

lemma link_views [simp]:
  "ep_keys y (set_ep_keys x k e) = (if y = x then k else ep_keys y e)"
  "ep_keys y (e\<lparr>ep_pipe := p\<rparr>) = ep_keys y e"
  "ep_pipe (set_ep_keys x k e) = ep_pipe e"
  "peer (peer x) = x" "peer x \<noteq> x" "x \<noteq> peer x"
  by (cases x; cases y; simp)+

lemma other_side: "y \<noteq> x \<longleftrightarrow> y = peer x"
  by (cases x; cases y) simp_all

lemma link_okI:
  "\<not> p_closed (ep_pipe e) \<Longrightarrow> in_step nz sync x e \<Longrightarrow> in_step nz sync (peer x) e \<Longrightarrow> link_ok nz sync e"
  unfolding link_ok_def by (metis other_side)

text \<open>A write that was accepted, and a read that returned a message, while the pipe is open.\<close>

lemma session_writeE:
  assumes "session_write nz x pick m e = Some (e', r)" and "\<not> p_closed (ep_pipe e)"
  obtains "e' = e" and "\<not> r"
  | c ct where "nz_encrypt nz (sk_send (ep_keys x e)) m = Some (c, ct)" and "r"
      and "e' = (set_ep_keys x ((ep_keys x e)\<lparr>sk_send := c\<rparr>) e)
        \<lparr>ep_pipe := set_p_out x (p_out x (ep_pipe e) @ [ct]) (ep_pipe e)\<rparr>"
  using assms by (auto simp: session_write_def pipe_write_def split: option.splits prod.splits if_splits)

lemma session_readE:
  assumes "session_read nz x pick e = Some (e', r)" and "\<not> p_closed (ep_pipe e)"
  obtains ct q c where "p_out (peer x) (ep_pipe e) = ct # q"
    and "nz_decrypt nz (sk_recv (ep_keys x e)) ct = (c, r)"
    and "e' = (set_ep_keys x ((ep_keys x e)\<lparr>sk_recv := c\<rparr>) e)\<lparr>ep_pipe := set_p_out (peer x) q (ep_pipe e)\<rparr>"
  using assms by (auto simp: session_read_def pipe_read_def split: option.splits prod.splits if_splits list.splits)

lemma write_in_step:
  assumes "ciphers_ok nz sync" and "link_ok nz sync e" and "session_write nz x pick m e = Some (e', r)"
  shows "link_ok nz sync e' \<and>
    snd (the (in_flight nz y e')) = snd (the (in_flight nz y e)) @ (if r \<and> y = x then [m] else [])"
proof -
  have open': "\<not> p_closed (ep_pipe e)" using assms(2) by (simp add: link_ok_def)
  from assms(3) open' show ?thesis
  proof (cases rule: session_writeE)
    case 1
    with assms(2) show ?thesis by simp
  next
    case (2 c ct)
    obtain d ms where f: "in_flight nz x e = Some (d, ms)" "sync (sk_send (ep_keys x e)) d"
      using assms(2) unfolding link_ok_def in_step_def by blast
    then obtain d' where d': "nz_decrypt nz d ct = (d', Some m)" "sync c d'"
      using assms(1) 2(1) by (metis ciphers_ok_def)
    have fx: "in_flight nz x e' = Some (d', ms @ [m])"
      using decrypt_all_snoc [OF _ d'(1)] f(1) by (simp add: in_flight_def 2(3))
    have fy: "in_flight nz (peer x) e' = in_flight nz (peer x) e"
      by (simp add: in_flight_def 2(3))
    have "in_step nz sync x e'" using fx d'(2) by (simp add: in_step_def 2(3))
    moreover have "in_step nz sync (peer x) e'"
      using assms(2) fy by (simp add: in_step_def link_ok_def 2(3))
    ultimately have "link_ok nz sync e'" using open' 2(3) by (intro link_okI [of _ _ _ x]) simp_all
    then show ?thesis using fx fy f(1) 2(2) other_side [of y x] by auto
  qed
qed

lemma read_in_step:
  assumes "link_ok nz sync e" and "session_read nz x pick e = Some (e', r)"
  shows "link_ok nz sync e' \<and>
    snd (the (in_flight nz y e)) = (case r of Some m \<Rightarrow> if y = peer x then [m] else [] | None \<Rightarrow> []) @
      snd (the (in_flight nz y e'))"
proof -
  have open': "\<not> p_closed (ep_pipe e)" using assms(1) by (simp add: link_ok_def)
  from assms(2) open' obtain ct q c where q: "p_out (peer x) (ep_pipe e) = ct # q"
    and c: "nz_decrypt nz (sk_recv (ep_keys x e)) ct = (c, r)"
    and e': "e' = (set_ep_keys x ((ep_keys x e)\<lparr>sk_recv := c\<rparr>) e)\<lparr>ep_pipe := set_p_out (peer x) q (ep_pipe e)\<rparr>"
    by (rule session_readE)
  obtain d ms where f: "in_flight nz (peer x) e = Some (d, ms)" "sync (sk_send (ep_keys (peer x) e)) d"
    using assms(1) unfolding link_ok_def in_step_def by blast
  then obtain m ms' where r: "r = Some m" "ms = m # ms'" "decrypt_all nz c q = Some (d, ms')"
    using q c by (auto simp: in_flight_def split: option.splits)
  have fx: "in_flight nz (peer x) e' = Some (d, ms')" using r(3) by (simp add: in_flight_def e')
  have fy: "in_flight nz x e' = in_flight nz x e" by (simp add: in_flight_def e')
  have "in_step nz sync (peer x) e'" using fx f(2) by (simp add: in_step_def e')
  moreover have "in_step nz sync x e'"
    using assms(1) fy by (simp add: in_step_def link_ok_def e')
  ultimately have "link_ok nz sync e'" using open' e' by (intro link_okI [of _ _ _ x]) simp_all
  then show ?thesis using fx fy f(1) r other_side [of y x] by auto
qed

lemma session_stream:
  assumes "ciphers_ok nz sync"
  shows "stream (session_step nz) (link_ok nz sync) (session_puts nz x) (session_takes nz x)
    (\<lambda>e. snd (the (in_flight nz x e)))"
proof unfold_locales
  fix e s t
  assume ok: "link_ok nz sync s" and step: "session_step nz e s = Some t"
  show "link_ok nz sync t"
    using write_in_step [OF assms ok] read_in_step [OF ok] step by (cases e) auto
  show "snd (the (in_flight nz x s)) @ session_puts nz x e s
      = session_takes nz x e s @ snd (the (in_flight nz x t))"
  proof (cases e)
    case (SWrite y pick m)
    with step obtain r where w: "session_write nz y pick m s = Some (t, r)" by auto
    show ?thesis using write_in_step [OF assms ok w, of x] by (cases r) (simp_all add: SWrite w)
  next
    case (SRead y pick)
    with step obtain r where w: "session_read nz y pick s = Some (t, r)" by auto
    show ?thesis using read_in_step [OF ok w, of x] other_side [of y x]
      by (cases r) (auto simp: SRead w)
  qed
qed

text \<open>The handshake of an initiator that pins the responder's key with a responder that accepts it.\<close>

lemma secure_handshake:
  assumes "ik_ok nz sync valid" and "valid (hs_static ci)" and "valid (hs_static cr)"
    and "hs_initiator ci" and "\<not> hs_initiator cr" and "hs_peer_static cr = []"
    and "hs_peer_static ci = kp_public (hs_static cr)" and "kp_public (hs_static cr) \<noteq> []"
    and "authorized (kp_public (hs_static ci)) (hs_authorized cr)"
  shows "\<exists>m1 m2 a b.
    handshake nz si ci True (Some m2) = (\<lparr>hc_sent = [m1], hc_closed = False\<rparr>, Inr a) \<and>
    handshake nz sr cr True (Some m1) = (\<lparr>hc_sent = [m2], hc_closed = False\<rparr>, Inr b) \<and>
    sk_peer a = kp_public (hs_static cr) \<and> sk_peer b = kp_public (hs_static ci) \<and>
    sync (sk_send a) (sk_recv b) \<and> sync (sk_send b) (sk_recv a)"
proof -
  from assms(1-3) obtain hi hr hi1 m1 hr1 hr2 m2 hi2 i0 i1 r0 r1 where h:
    "nz_new nz si True (hs_static ci) (kp_public (hs_static cr)) = Some hi"
    "nz_new nz sr False (hs_static cr) [] = Some hr"
    "nz_write nz hi = Some (hi1, m1, None)" "nz_read nz hr m1 = Some (hr1, None)"
    "nz_peer nz hr1 = kp_public (hs_static ci)" "nz_write nz hr1 = Some (hr2, m2, Some (r0, r1))"
    "nz_peer nz hr2 = kp_public (hs_static ci)" "nz_read nz hi1 m2 = Some (hi2, Some (i0, i1))"
    "nz_peer nz hi2 = kp_public (hs_static cr)" "sync i0 r0" "sync r1 i1"
    unfolding ik_ok_def by metis
  let ?a = "\<lparr>sk_send = i0, sk_recv = i1, sk_peer = kp_public (hs_static cr)\<rparr>"
  let ?b = "\<lparr>sk_send = r1, sk_recv = r0, sk_peer = kp_public (hs_static ci)\<rparr>"
  have a: "handshake nz si ci True (Some m2) = (\<lparr>hc_sent = [m1], hc_closed = False\<rparr>, Inr ?a)"
    using assms(4,7,8) h by (simp add: handshake_def hs_finish_def conn_send_def fresh_conn_def)
  have b: "handshake nz sr cr True (Some m1) = (\<lparr>hc_sent = [m2], hc_closed = False\<rparr>, Inr ?b)"
    using assms(5,6,9) h by (simp add: handshake_def hs_finish_def conn_send_def fresh_conn_def)
  show ?thesis
    using a b h(10,11) by (intro exI [of _ m1] exI [of _ m2] exI [of _ ?a] exI [of _ ?b]) simp
qed

text \<open>
  C3. The secure channel, given what the library promises: an initiator that pins the
  responder's key and a responder that accepts the initiator's key, each given the other's
  message, both get a session that names the other's key, each having sent one message; and along every run of
  writes and reads on those sessions over an open pipe, what a side has read is a prefix of
  what the other side has successfully written, in plaintext and in both directions.
\<close>

theorem secure_channel:
  assumes "ciphers_ok nz sync" and "ik_ok nz sync valid"
    and "valid (hs_static ci)" and "valid (hs_static cr)"
    and "hs_initiator ci" and "\<not> hs_initiator cr" and "hs_peer_static cr = []"
    and "hs_peer_static ci = kp_public (hs_static cr)" and "kp_public (hs_static cr) \<noteq> []"
    and "authorized (kp_public (hs_static ci)) (hs_authorized cr)"
  shows "\<exists>m1 m2 a b.
    handshake nz si ci True (Some m2) = (\<lparr>hc_sent = [m1], hc_closed = False\<rparr>, Inr a) \<and>
    handshake nz sr cr True (Some m1) = (\<lparr>hc_sent = [m2], hc_closed = False\<rparr>, Inr b) \<and>
    sk_peer a = kp_public (hs_static cr) \<and> sk_peer b = kp_public (hs_static ci) \<and>
    (\<forall>es e x. exec (session_step nz) es \<lparr>ep_a = a, ep_b = b, ep_pipe = new_pipe\<rparr> = Some e \<longrightarrow>
       prefix (along (session_step nz) (session_takes nz x) es \<lparr>ep_a = a, ep_b = b, ep_pipe = new_pipe\<rparr>)
         (along (session_step nz) (session_puts nz x) es \<lparr>ep_a = a, ep_b = b, ep_pipe = new_pipe\<rparr>))"
proof -
  obtain m1 m2 a b where h:
    "handshake nz si ci True (Some m2) = (\<lparr>hc_sent = [m1], hc_closed = False\<rparr>, Inr a)"
    "handshake nz sr cr True (Some m1) = (\<lparr>hc_sent = [m2], hc_closed = False\<rparr>, Inr b)"
    "sk_peer a = kp_public (hs_static cr)" "sk_peer b = kp_public (hs_static ci)"
    "sync (sk_send a) (sk_recv b)" "sync (sk_send b) (sk_recv a)"
    using secure_handshake [OF assms(2-10)] by blast
  let ?e = "\<lparr>ep_a = a, ep_b = b, ep_pipe = new_pipe\<rparr>"
  have flight: "in_flight nz x ?e = Some (sk_recv (ep_keys (peer x) ?e), [])" for x
    by (cases x) (simp_all add: in_flight_def new_pipe_def)
  have "in_step nz sync x ?e" for x
    using h(5,6) flight [of x] by (cases x) (simp_all add: in_step_def)
  then have ok: "link_ok nz sync ?e" by (simp add: link_ok_def new_pipe_def)
  have "prefix (along (session_step nz) (session_takes nz x) es ?e)
      (along (session_step nz) (session_puts nz x) es ?e)"
    if "exec (session_step nz) es ?e = Some e" for es e x
    using stream.in_order [OF session_stream [OF assms(1)] that ok] flight [of x] by simp
  with h show ?thesis
    by (intro exI [of _ m1] exI [of _ m2] exI [of _ a] exI [of _ b]) simp
qed

text \<open>An instance of the parameter: no encryption, but a counter that keeps the sides in step.\<close>

definition counting_noise :: "(bool \<times> bytes \<times> bytes, nat) noise" where
  "counting_noise = \<lparr>
     nz_new = (\<lambda>seed initiator kp pk. Some (initiator, kp_public kp, pk)),
     nz_write = (\<lambda>(initiator, me, pk). Some ((initiator, me, pk), if initiator then me else [],
        if initiator then None else Some (0, 0))),
     nz_read = (\<lambda>(initiator, me, pk) m. if initiator then Some ((initiator, me, pk), Some (0, 0))
        else Some ((initiator, me, m), None)),
     nz_peer = (\<lambda>(initiator, me, pk). pk),
     nz_encrypt = (\<lambda>c m. Some (Suc c, of_nat c # m)),
     nz_decrypt = (\<lambda>d ct. case ct of [] \<Rightarrow> (d, None)
        | b # m \<Rightarrow> if b = of_nat d then (Suc d, Some m) else (d, None))\<rparr>"

lemma counting_noise_ok: "ciphers_ok counting_noise (=)" "ik_ok counting_noise (=) (\<lambda>_. True)"
proof -
  show "ciphers_ok counting_noise (=)" by (simp add: ciphers_ok_def counting_noise_def)
  show "ik_ok counting_noise (=) (\<lambda>_. True)"
    unfolding ik_ok_def
  proof (intro allI impI)
    fix si sr :: bytes and ki kr :: keypair
    let ?nz = counting_noise
    let ?hi = "(True, kp_public ki, kp_public kr)" and ?hr = "(False, kp_public kr, kp_public ki)"
    have "nz_new ?nz si True ki (kp_public kr) = Some ?hi \<and>
        nz_new ?nz sr False kr [] = Some (False, kp_public kr, []) \<and>
        nz_write ?nz ?hi = Some (?hi, kp_public ki, None) \<and>
        nz_read ?nz (False, kp_public kr, []) (kp_public ki) = Some (?hr, None) \<and> nz_peer ?nz ?hr = kp_public ki \<and>
        nz_write ?nz ?hr = Some (?hr, [], Some (0, 0)) \<and> nz_peer ?nz ?hr = kp_public ki \<and>
        nz_read ?nz ?hi [] = Some (?hi, Some (0, 0)) \<and> nz_peer ?nz ?hi = kp_public kr \<and>
        (0 :: nat) = 0 \<and> (0 :: nat) = 0"
      by (simp add: counting_noise_def)
    then show "\<exists>hi hr hi1 m1 hr1 hr2 m2 hi2 i0 i1 r0 r1.
        nz_new ?nz si True ki (kp_public kr) = Some hi \<and> nz_new ?nz sr False kr [] = Some hr \<and>
        nz_write ?nz hi = Some (hi1, m1, None) \<and>
        nz_read ?nz hr m1 = Some (hr1, None) \<and> nz_peer ?nz hr1 = kp_public ki \<and>
        nz_write ?nz hr1 = Some (hr2, m2, Some (r0, r1)) \<and> nz_peer ?nz hr2 = kp_public ki \<and>
        nz_read ?nz hi1 m2 = Some (hi2, Some (i0, i1)) \<and> nz_peer ?nz hi2 = kp_public kr \<and>
        i0 = r0 \<and> r1 = i1"
      by blast
  qed
qed

theorem secure_channel_witness:
  "\<exists>m1 m2 a b.
    handshake counting_noise [] \<lparr>hs_static = \<lparr>kp_public = [1], kp_private = []\<rparr>, hs_initiator = True,
        hs_peer_static = [2], hs_authorized = []\<rparr> True (Some m2) = (\<lparr>hc_sent = [m1], hc_closed = False\<rparr>, Inr a) \<and>
    handshake counting_noise [] \<lparr>hs_static = \<lparr>kp_public = [2], kp_private = []\<rparr>, hs_initiator = False,
        hs_peer_static = [], hs_authorized = [[1]]\<rparr> True (Some m1) = (\<lparr>hc_sent = [m2], hc_closed = False\<rparr>, Inr b) \<and>
    sk_peer a = [2] \<and> sk_peer b = [1]"
  using secure_channel [OF counting_noise_ok, of "\<lparr>hs_static = \<lparr>kp_public = [1], kp_private = []\<rparr>,
      hs_initiator = True, hs_peer_static = [2], hs_authorized = []\<rparr>" "\<lparr>hs_static = \<lparr>kp_public = [2],
      kp_private = []\<rparr>, hs_initiator = False, hs_peer_static = [], hs_authorized = [[1]]\<rparr>" "[]" "[]"]
  by (simp add: authorized_def authorized_in_iff) blast

theorem unauthorized_peer_rejected_witness:
  "handshake counting_noise [] \<lparr>hs_static = \<lparr>kp_public = [2], kp_private = []\<rparr>, hs_initiator = False,
      hs_peer_static = [], hs_authorized = [[1]]\<rparr> True (Some [7]) =
    (\<lparr>hc_sent = [], hc_closed = True\<rparr>, Inl (Unauthorized (encode_public [7])))"
  using unauthorized_peer_rejected [of "\<lparr>hs_static = \<lparr>kp_public = [2], kp_private = []\<rparr>,
      hs_initiator = False, hs_peer_static = [], hs_authorized = [[1]]\<rparr>" counting_noise "[]"
      "(False, [2], [])" "[7]" "(False, [2], [7])" None True]
  by (simp add: counting_noise_def)

end
