(* ===== verification/Utf8.thy ===== *)
theory Utf8
  imports Prelude
begin

text \<open>
  UTF-8 as Go's \<open>unicode/utf8\<close> decodes it: the length of the well-formed multi-byte
  sequence a byte string starts with (0 where \<open>DecodeRune\<close> reports \<open>RuneError\<close> with
  width 1), the encoding of a code point, and the well-formed strings. The JSON encoder
  and decoder replace ill-formed bytes, so text round trips are stated for well-formed
  strings.
\<close>

definition cont :: "char \<Rightarrow> bool" where
  "cont c \<longleftrightarrow> 0x80 \<le> ccode c \<and> ccode c \<le> 0xBF"

text \<open>The range of the second byte, by the first (Go's \<open>acceptRanges\<close>).\<close>

definition second_ok :: "char \<Rightarrow> char \<Rightarrow> bool" where
  "second_ok a b \<longleftrightarrow>
     (let x = ccode a; y = ccode b in
      (if x = 0xE0 then 0xA0 else if x = 0xF0 then 0x90 else 0x80) \<le> y \<and>
      y \<le> (if x = 0xED then 0x9F else if x = 0xF4 then 0x8F else 0xBF))"

fun utf8_len :: "string \<Rightarrow> nat" where
  "utf8_len (a # b # r) =
     (let x = ccode a in
      if 0xC2 \<le> x \<and> x \<le> 0xDF then (if second_ok a b then 2 else 0)
      else if 0xE0 \<le> x \<and> x \<le> 0xEF then
        (case r of c # _ \<Rightarrow> if second_ok a b \<and> cont c then 3 else 0 | [] \<Rightarrow> 0)
      else if 0xF0 \<le> x \<and> x \<le> 0xF4 then
        (case r of c # d # _ \<Rightarrow> if second_ok a b \<and> cont c \<and> cont d then 4 else 0 | _ \<Rightarrow> 0)
      else 0)"
| "utf8_len s = 0"

lemma utf8_len_le: "utf8_len s \<le> length s"
  by (cases s rule: utf8_len.cases) (auto simp: Let_def split: list.splits)

lemma utf8_len_append: "0 < utf8_len s \<Longrightarrow> utf8_len (s @ r) = utf8_len s"
  by (cases s rule: utf8_len.cases) (auto simp: Let_def split: list.splits if_splits)

lemma utf8_len_take: "0 < utf8_len s \<Longrightarrow> utf8_len (take (utf8_len s) s) = utf8_len s"
  by (cases s rule: utf8_len.cases) (auto simp: Let_def split: list.splits if_splits)

lemma utf8_len_ge: "0 < utf8_len s \<Longrightarrow> 2 \<le> utf8_len s"
  by (cases s rule: utf8_len.cases) (auto simp: Let_def split: list.splits if_splits)

lemma utf8_len_ascii: "ccode a < 128 \<Longrightarrow> utf8_len (a # s) = 0"
  by (cases s) (simp_all add: Let_def)

lemma cont_high: "cont c \<Longrightarrow> 128 \<le> ccode c"
  by (simp add: cont_def)

lemma second_ok_high: "second_ok a b \<Longrightarrow> 128 \<le> ccode b"
  unfolding second_ok_def Let_def by (rule le_trans [rotated], erule conjunct1) simp

text \<open>The shapes of a well-formed multi-byte sequence.\<close>

lemma utf8_len_cases:
  assumes "0 < utf8_len s"
  obtains (two) a b r where "s = a # b # r" "utf8_len s = 2" "128 \<le> ccode a" "128 \<le> ccode b"
  | (three) a b c r where "s = a # b # c # r" "utf8_len s = 3"
      "128 \<le> ccode a" "128 \<le> ccode b" "128 \<le> ccode c"
  | (four) a b c d r where "s = a # b # c # d # r" "utf8_len s = 4"
      "128 \<le> ccode a" "128 \<le> ccode b" "128 \<le> ccode c" "128 \<le> ccode d"
proof -
  from assms obtain a b r where s: "s = a # b # r"
    by (cases s rule: utf8_len.cases) auto
  consider "0xC2 \<le> ccode a" "ccode a \<le> 0xDF" | "0xE0 \<le> ccode a" "ccode a \<le> 0xEF"
    | "0xF0 \<le> ccode a" "ccode a \<le> 0xF4"
    using assms unfolding s by (simp add: Let_def split: if_splits)
  then show thesis
  proof cases
    case 1
    then have "second_ok a b" "utf8_len s = 2"
      using assms unfolding s by (auto simp: Let_def split: if_splits)
    then show thesis using 1 by (intro two [OF s]) (auto dest: second_ok_high)
  next
    case 2
    then obtain c q where r: "r = c # q" and ok: "second_ok a b" "cont c" "utf8_len s = 3"
      using assms unfolding s by (cases r) (auto simp: Let_def split: if_splits)
    then show thesis using 2 by (intro three [OF s [unfolded r]]) (auto dest: second_ok_high cont_high)
  next
    case 3
    then obtain c d q where r: "r = c # d # q"
        and ok: "second_ok a b" "cont c" "cont d" "utf8_len s = 4"
      using assms unfolding s by (cases r; cases "tl r") (auto simp: Let_def split: if_splits list.splits)
    then show thesis using 3 by (intro four [OF s [unfolded r]]) (auto dest: second_ok_high cont_high)
  qed
qed

text \<open>Every byte of a multi-byte sequence is outside ASCII.\<close>

lemma utf8_take_high: "c \<in> set (take (utf8_len s) s) \<Longrightarrow> 128 \<le> ccode c"
  by (cases "utf8_len s = 0"; simp; elim utf8_len_cases) auto

function valid_utf8 :: "string \<Rightarrow> bool" where
  "valid_utf8 [] = True"
| "valid_utf8 (c # s) =
     (if ccode c < 128 then valid_utf8 s
      else 0 < utf8_len (c # s) \<and> valid_utf8 (drop (utf8_len (c # s) - 1) s))"
  by pat_completeness auto
termination
  by (relation "measure length") auto

lemma valid_utf8_ascii: "\<forall>c\<in>set s. ccode c < 128 \<Longrightarrow> valid_utf8 s"
  by (induction s) auto

text \<open>\<open>utf8.AppendRune\<close> for a code point that is not a surrogate.\<close>

definition utf8_enc :: "nat \<Rightarrow> string" where
  "utf8_enc r =
     (if r < 0x80 then [char_of r]
      else if r < 0x800 then [char_of (0xC0 + r div 64), char_of (0x80 + r mod 64)]
      else if r < 0x10000 then
        [char_of (0xE0 + r div 4096), char_of (0x80 + r div 64 mod 64), char_of (0x80 + r mod 64)]
      else
        [char_of (0xF0 + r div 262144), char_of (0x80 + r div 4096 mod 64),
         char_of (0x80 + r div 64 mod 64), char_of (0x80 + r mod 64)])"

text \<open>The encoding of U+FFFD, with which ill-formed input is replaced.\<close>

definition replacement :: string where
  "replacement = [CHR 0xEF, CHR 0xBF, CHR 0xBD]"

end
