(* ===== verification/JsonFacts.thy ===== *)
theory JsonFacts
  imports JsonParse
begin

text \<open>
  The two facts about the JSON layer that the rest of the development relies on: the
  parser's fuel never runs out (\<open>parse_fuel_enough\<close>), and rendering followed by parsing is
  the identity on well-formed values (\<open>parse_render\<close>).
\<close>

section \<open>The fuel is enough\<close>

lemma expect_two: "expect c s = Some r \<Longrightarrow> Suc (length r) \<le> length s"
  by (drule expect_shorter) simp

lemma parse_fuel:
  "(2 * length s < f \<longrightarrow> 2 * length s < g \<longrightarrow> parse_value d f s = parse_value d g s) \<and>
   (2 * length s + 1 < f \<longrightarrow> 2 * length s + 1 < g \<longrightarrow> parse_elems d f s = parse_elems d g s) \<and>
   (2 * length s + 1 < f \<longrightarrow> 2 * length s + 1 < g \<longrightarrow> parse_members d f s = parse_members d g s)"
proof (induction f arbitrary: g d s)
  case 0
  then show ?case by simp
next
  case (Suc f)
  note IHv = Suc.IH [THEN conjunct1, rule_format]
    and IHe = Suc.IH [THEN conjunct2, THEN conjunct1, rule_format]
    and IHm = Suc.IH [THEN conjunct2, THEN conjunct2, rule_format]
  have "parse_value d (Suc f) s = parse_value d g s"
    if f: "2 * length s < Suc f" and g: "2 * length s < g"
  proof (cases "skip_ws s")
    case Nil
    with g show ?thesis by (cases g) simp_all
  next
    case (Cons c r)
    obtain g' where g': "g = Suc g'" using g by (cases g) auto
    have "length (c # r) \<le> length s" using length_skip_ws [of s] Cons by simp
    then have "2 * length r + 1 < f" "2 * length r + 1 < g'" using f g g' by simp_all
    then show ?thesis
      using IHe [of r g' "d - 1"] IHm [of r g' "d - 1"]
      by (simp add: g' Cons split: option.split)
  qed
  moreover have "parse_elems d (Suc f) s = parse_elems d g s"
    if f: "2 * length s + 1 < Suc f" and g: "2 * length s + 1 < g"
  proof -
    obtain g' where g': "g = Suc g'" using g by (cases g) auto
    have v: "parse_value d f s = parse_value d g' s"
      using f g g' by (intro IHv) simp_all
    have "parse_elems d f q = parse_elems d g' q"
      if "parse_value d g' s = Some (x, r)" "expect (CHR '','') r = Some q" for x r q
      using f g g' parse_shorter(1) [OF that(1)] expect_two [OF that(2)]
      by (intro IHe) simp_all
    then show ?thesis by (simp add: g' v split: option.splits)
  qed
  moreover have "parse_members d (Suc f) s = parse_members d g s"
    if f: "2 * length s + 1 < Suc f" and g: "2 * length s + 1 < g"
  proof -
    obtain g' where g': "g = Suc g'" using g by (cases g) auto
    have v: "parse_value d f q = parse_value d g' q"
      if k: "Option.bind (expect quote s) str_body = Some (k, r)" and q: "expect (CHR '':'') r = Some q"
      for k r q
    proof (intro IHv)
      obtain t where "expect quote s = Some t" "str_body t = Some (k, r)"
        using k by (auto simp: Option.bind_eq_Some_conv)
      then have "length q < length s"
        using q by (auto dest!: consumes)
      then show "2 * length q < f" "2 * length q < g'" using f g g' by simp_all
    qed
    have m: "parse_members d f t = parse_members d g' t"
      if "Option.bind (expect quote s) str_body = Some (k, r)"
        "Option.bind (expect (CHR '':'') r) (parse_value d g') = Some (x, q)"
        "expect (CHR '','') q = Some t"
      for k r x q t
    proof (intro IHm)
      have "length r < length s" "length q < length r" "length t < length q"
        using that by (auto split: Option.bind_splits dest!: parsers_consume)
      then show "2 * length t + 1 < f" "2 * length t + 1 < g'" using f g g' by simp_all
    qed
    have "Option.bind (expect (CHR '':'') r) (parse_value d f)
        = Option.bind (expect (CHR '':'') r) (parse_value d g')"
      if "Option.bind (expect quote s) str_body = Some (k, r)" for k r
      using v [OF that] by (cases "expect (CHR '':'') r") simp_all
    then show ?thesis using m by (simp add: g' split: option.splits)
  qed
  ultimately show ?case by blast
qed

lemma parse_fuel_enough:
  "2 * length s < f \<Longrightarrow> parse_value d f s = parse_value d (Suc (2 * length s)) s"
  using parse_fuel [of s f "Suc (2 * length s)" d] by simp

section \<open>Strings survive\<close>

lemma read_hex4_hex4: "n < 65536 \<Longrightarrow> read_hex4 (hex4 n @ s) = Some (n, s)"
proof -
  assume n: "n < 65536"
  have "n div 16 = n div 256 * 16 + n div 16 mod 16" "n div 256 = n div 4096 * 16 + n div 256 mod 16"
    using div_mult_mod_eq [of "n div 16" 16] div_mult_mod_eq [of "n div 256" 16]
    by (simp_all add: div_mult2_eq [symmetric])
  moreover have d: "n div 4096 < 16" using n by (simp add: less_mult_imp_div_less)
  moreover have "n = n div 16 * 16 + n mod 16" by simp
  ultimately have "n div 4096 * 4096 + n div 256 mod 16 * 256 + n div 16 mod 16 * 16 + n mod 16 = n"
    by linarith
  then show ?thesis by (simp add: hex4_def hex_value_digit d)
qed

lemma ccode_quote [simp]: "ccode quote = 34" and ccode_backslash [simp]: "ccode backslash = 92"
  by (simp_all add: quote_def backslash_def ccode_def)

lemma quote_not_backslash [simp]: "quote \<noteq> backslash" "backslash \<noteq> quote"
  by (simp_all add: quote_def backslash_def)

lemma read_u_escape:
  assumes "n < 65536" "n < 0xD800 \<or> 0xE000 \<le> n"
  shows "str_body (u_escape n @ s) = map_option (\<lambda>(y, r). (utf8_enc n @ y, r)) (str_body s)"
  using assms by (auto simp: u_escape_def read_u_def read_hex4_hex4)

lemma str_body_short:
  assumes "short_escape c = Some e"
  shows "str_body (backslash # e # s) = map_option (\<lambda>(y, r). (c # y, r)) (str_body s)"
proof -
  have "unescape e = Some c \<and> e \<noteq> CHR ''u''"
    using assms
    by (auto simp: short_escape_def unescape_def quote_def backslash_def split: if_splits)
  then show ?thesis by simp
qed

lemma str_body_ascii:
  assumes "ccode c < 128"
  shows "str_body (enc_ascii c @ s) = map_option (\<lambda>(y, r). (c # y, r)) (str_body s)"
proof (cases "short_escape c")
  case (Some e)
  then show ?thesis
    using str_body_short [OF Some] by (simp add: enc_ascii_def del: str_body.simps)
next
  case None
  then have "c \<noteq> quote" "c \<noteq> backslash" by (auto simp: short_escape_def)
  with None assms show ?thesis
    by (auto simp: enc_ascii_def read_u_escape utf8_enc_def)
qed

lemma str_body_high:
  assumes "128 \<le> ccode c" "0 < utf8_len (c # s)"
  shows "str_body (take (utf8_len (c # s)) (c # s) @ t)
    = map_option (\<lambda>(y, r). (take (utf8_len (c # s)) (c # s) @ y, r)) (str_body t)"
proof -
  let ?n = "utf8_len (c # s)"
  define w where "w = take ?n (c # s)"
  have "?n \<le> length (c # s)" by (rule utf8_len_le)
  then have len: "length w = ?n" by (simp add: w_def)
  have "utf8_len w = ?n" using assms(2) by (simp only: w_def utf8_len_take)
  then have app: "utf8_len (w @ t) = ?n" using assms(2) utf8_len_append [of w t] by simp
  obtain w' where w: "w = c # w'" using assms(2) by (cases ?n) (simp_all add: w_def)
  have "c \<noteq> quote" "c \<noteq> backslash" using assms(1) by auto
  then have "str_body (w @ t) = map_option (\<lambda>(y, r). (take ?n (w @ t) @ y, r))
      (str_body (drop ?n (w @ t)))"
    using assms app unfolding w by (simp add: drop_Cons')
  then show ?thesis using len by (simp flip: w_def)
qed

lemma char_of_eqI: "ccode c = n \<Longrightarrow> char_of n = c"
  by (drule sym) simp

lemma separator_chars:
  "char_of (226::nat) = CHR 0xE2" "char_of (128::nat) = CHR 0x80"
  "char_of (168::nat) = CHR 0xA8" "char_of (169::nat) = CHR 0xA9"
  by (rule char_of_eqI, simp add: ccode_def)+

lemma str_body_separator:
  "line_sep s \<Longrightarrow> utf8_enc 0x2028 = take 3 s" "para_sep s \<Longrightarrow> utf8_enc 0x2029 = take 3 s"
  by (simp_all add: line_sep_def para_sep_def utf8_enc_def separator_chars)

lemma separator_len: "line_sep s \<or> para_sep s \<Longrightarrow> utf8_len s = 3"
  by (cases s rule: utf8_len.cases)
     (auto simp: line_sep_def para_sep_def second_ok_def cont_def ccode_def take_Cons'
        split: list.splits if_splits)

lemma str_body_enc_chars:
  "valid_utf8 s \<Longrightarrow> str_body (enc_chars s @ quote # t) = Some (s, t)"
proof (induction s rule: enc_chars.induct)
  case (2 c s)
  show ?case
  proof (cases "ccode c < 128")
    case True
    with "2" show ?thesis by (simp add: str_body_ascii)
  next
    case False
    let ?n = "utf8_len (c # s)"
    from False "2.prems" have n: "0 < ?n" and v: "valid_utf8 (drop (?n - 1) s)" by simp_all
    have whole: "take ?n (c # s) @ drop (?n - 1) s = c # s"
      using n by (cases ?n) simp_all
    consider "line_sep (c # s)" | "\<not> line_sep (c # s)" "para_sep (c # s)"
      | "\<not> line_sep (c # s)" "\<not> para_sep (c # s)" by blast
    then show ?thesis
    proof cases
      case 1
      then have 3: "?n = 3" using separator_len by blast
      with 1 False n v whole "2.IH"(3) show ?thesis
        using str_body_separator(1) [OF 1]
        by (simp add: read_u_escape numeral_3_eq_3 numeral_2_eq_2)
    next
      case 2
      then have 3: "?n = 3" using separator_len by blast
      with 2 False n v whole "2.IH"(4) show ?thesis
        using str_body_separator(2) [OF 2(2)]
        by (simp add: read_u_escape numeral_3_eq_3 numeral_2_eq_2)
    next
      case 3
      then have "enc_chars (c # s) = take ?n (c # s) @ enc_chars (drop (?n - 1) s)"
        using False n by simp
      moreover have "str_body (enc_chars (drop (?n - 1) s) @ quote # t) = Some (drop (?n - 1) s, t)"
        using "2.IH"(5) False n 3 v by simp
      ultimately show ?thesis
        using str_body_high [of c s] False n whole by (simp del: enc_chars.simps str_body.simps)
    qed
  qed
qed simp

section \<open>Values survive\<close>

fun wf_json :: "json \<Rightarrow> bool" where
  "wf_json (JNum n) = (scan_number n = Some (n, []))"
| "wf_json (JStr s) = valid_utf8 s"
| "wf_json (JArr xs) = (\<forall>x\<in>set xs. wf_json x)"
| "wf_json (JObj ms) = (\<forall>(k, v)\<in>set ms. valid_utf8 k \<and> wf_json v)"
| "wf_json _ = True"

fun jdepth :: "json \<Rightarrow> nat" where
  "jdepth (JArr xs) = Suc (Max (insert 0 (set (map jdepth xs))))"
| "jdepth (JObj ms) = Suc (Max (insert 0 (set (map (\<lambda>(k, v). jdepth v) ms))))"
| "jdepth _ = 0"

text \<open>What may follow a value: nothing, or a character that cannot continue a number.\<close>

definition delim :: "string \<Rightarrow> bool" where
  "delim r \<longleftrightarrow> (case r of [] \<Rightarrow> True
     | c # _ \<Rightarrow> \<not> is_digit c \<and> c \<noteq> CHR ''.'' \<and> c \<noteq> CHR ''e'' \<and> c \<noteq> CHR ''E'')"

lemma expect_hit [simp]: "\<not> is_ws c \<Longrightarrow> expect c (c # s) = Some s"
  by (simp add: expect_def skip_ws_def)

lemma expect_miss: "\<not> is_ws x \<Longrightarrow> x \<noteq> c \<Longrightarrow> expect c (x # s) = None"
  by (simp add: expect_def skip_ws_def)

lemma quote_brackets:
  "quote \<noteq> CHR ''{''" "quote \<noteq> CHR ''[''" "quote \<noteq> CHR ''}''" "quote \<noteq> CHR '']''"
  by (simp_all add: quote_def)

lemma punctuation [simp]:
  "\<not> is_ws (CHR '','')" "\<not> is_ws (CHR '']'')" "\<not> is_ws (CHR ''['')" "\<not> is_ws (CHR ''{'')"
  "\<not> is_ws (CHR ''}'')" "\<not> is_ws (CHR '':'')" "\<not> is_ws quote"
  "delim (CHR '','' # s)" "delim (CHR '']'' # s)" "delim (CHR ''}'' # s)" "delim []"
  by (simp_all add: is_ws_def delim_def is_digit_def ccode_def quote_def)

lemma takeWhile_digit_delim:
  "delim r \<Longrightarrow> takeWhile is_digit (s @ r) = takeWhile is_digit s"
  "delim r \<Longrightarrow> dropWhile is_digit (s @ r) = dropWhile is_digit s @ r"
  by (induction s) (auto simp: delim_def split: list.splits)

lemma take_digits_append:
  "delim r \<Longrightarrow> take_digits s = Some (d, q) \<Longrightarrow> take_digits (s @ r) = Some (d, q @ r)"
  by (auto simp: take_digits_def takeWhile_digit_delim Let_def split: if_splits)

lemma scan_int_append:
  "delim r \<Longrightarrow> scan_int s = Some (d, q) \<Longrightarrow> scan_int (s @ r) = Some (d, q @ r)"
  using take_digits_append [of r s] by (auto simp: scan_int_def split: list.splits if_splits)

lemma scan_frac_append:
  "delim r \<Longrightarrow> scan_frac s = Some (d, q) \<Longrightarrow> scan_frac (s @ r) = Some (d, q @ r)"
  using take_digits_append [of r "tl s"]
  by (cases s) (auto simp: scan_frac_def delim_def split: list.splits if_splits)

lemma scan_exp_append:
  "delim r \<Longrightarrow> scan_exp s = Some (d, q) \<Longrightarrow> scan_exp (s @ r) = Some (d, q @ r)"
proof (cases s)
  case Nil
  assume "delim r" "scan_exp s = Some (d, q)"
  with Nil show ?thesis by (auto simp: scan_exp_def delim_def split: list.splits)
next
  case (Cons c t)
  assume "delim r" "scan_exp s = Some (d, q)"
  with Cons show ?thesis
    using take_digits_append [of r t] take_digits_append [of r "tl t"]
    by (auto simp: scan_exp_def split: list.splits if_splits)
qed

lemma scan_number_append:
  assumes "delim r" and "scan_number s = Some (n, q)"
  shows "scan_number (s @ r) = Some (n, q @ r)"
proof -
  let ?t = "if s \<noteq> [] \<and> hd s = CHR ''-'' then tl s else s"
  obtain i t f u e where p: "scan_int ?t = Some (i, t)" "scan_frac t = Some (f, u)"
      "scan_exp u = Some (e, q)"
    and n: "n = (if s \<noteq> [] \<and> hd s = CHR ''-'' then [hd s] else []) @ i @ f @ e"
    using assms(2)
    by (auto simp: scan_number_def Let_def Option.bind_eq_Some_conv split: if_splits)
  have s: "s \<noteq> []" using p(1) by (auto simp: scan_int_def)
  show ?thesis
    using s n scan_int_append [OF assms(1) p(1)] scan_frac_append [OF assms(1) p(2)]
      scan_exp_append [OF assms(1) p(3)]
    by (cases s) (auto simp: scan_number_def)
qed

section \<open>Rendering and parsing\<close>

text \<open>What a rendered value starts with.\<close>

lemma scan_number_head:
  assumes "scan_number s = Some (n, q)"
  obtains c r where "s = c # r" "is_digit c \<or> c = CHR ''-''"
proof -
  have "is_digit (CHR ''0'')" by (simp add: is_digit_def ccode_def)
  then have "s \<noteq> [] \<and> (is_digit (hd s) \<or> hd s = CHR ''-'')"
    using assms
    by (cases s) (auto simp: scan_number_def Let_def scan_int_def take_digits_def
        Option.bind_eq_Some_conv split: if_splits)
  then show thesis using that by (cases s) auto
qed

definition value_head :: "char \<Rightarrow> bool" where
  "value_head c \<longleftrightarrow> \<not> is_ws c \<and> c \<noteq> CHR '']'' \<and> c \<noteq> CHR ''}''"

lemma value_head_simps [simp]:
  "value_head (CHR ''n'')" "value_head (CHR ''t'')" "value_head (CHR ''f'')"
  "value_head quote" "value_head (CHR ''['')" "value_head (CHR ''{'')" "value_head (CHR ''-'')"
  "is_digit c \<Longrightarrow> value_head c"
  by (auto simp: value_head_def is_ws_def is_digit_def ccode_def quote_def)

lemma render_head:
  assumes "wf_json v"
  obtains c r where "render v = c # r" "value_head c"
proof (cases v)
  case (JNum n)
  with assms have "scan_number n = Some (n, [])" by simp
  then show thesis using that JNum by (elim scan_number_head) auto
next
  case (JBool b)
  then show thesis using that by (cases b) auto
qed (use that in \<open>auto simp: enc_string_def\<close>)

lemma skip_ws_head: "value_head c \<Longrightarrow> skip_ws (c # s) = c # s"
  by (simp add: value_head_def skip_ws_def)

text \<open>\<open>parses d v\<close>: with enough fuel, \<open>v\<close> is read back from the front of the input.\<close>

definition parses :: "nat \<Rightarrow> json \<Rightarrow> bool" where
  "parses d v \<longleftrightarrow> (\<forall>f r. delim r \<longrightarrow> 2 * length (render v @ r) < f \<longrightarrow>
     parse_value d f (render v @ r) = Some (v, r))"

lemma parsesD: "parses d v \<Longrightarrow> delim r \<Longrightarrow> 2 * length (render v @ r) < f \<Longrightarrow>
    parse_value d f (render v @ r) = Some (v, r)"
  by (simp add: parses_def)

lemma parse_elems_render:
  "xs \<noteq> [] \<Longrightarrow> \<forall>x\<in>set xs. parses d x \<Longrightarrow>
   2 * length (sep_concat (map render xs) @ CHR '']'' # r) + 1 < f \<Longrightarrow>
   parse_elems d f (sep_concat (map render xs) @ CHR '']'' # r) = Some (xs, r)"
proof (induction xs arbitrary: f)
  case (Cons x xs)
  obtain f' where f: "f = Suc f'" using Cons.prems(3) by (cases f) auto
  have px: "parses d x" using Cons.prems(2) by simp
  show ?case
  proof (cases xs)
    case Nil
    have "parse_value d f' (render x @ CHR '']'' # r) = Some (x, CHR '']'' # r)"
      using Cons.prems(3) by (intro parsesD [OF px]) (simp_all add: Nil f)
    then show ?thesis by (simp add: Nil f expect_miss)
  next
    case (Cons y ys)
    let ?t = "sep_concat (map render xs) @ CHR '']'' # r"
    have "parse_value d f' (render x @ CHR '','' # ?t) = Some (x, CHR '','' # ?t)"
      using Cons.prems(3) by (intro parsesD [OF px]) (simp_all add: Cons f)
    moreover have "parse_elems d f' ?t = Some (xs, r)"
      using Cons.prems \<open>xs = y # ys\<close> by (intro Cons.IH) (simp_all add: f)
    ultimately show ?thesis by (simp add: Cons f)
  qed
qed simp

abbreviation render_member :: "string \<times> json \<Rightarrow> string" where
  "render_member \<equiv> (\<lambda>(k, v). enc_string k @ CHR '':'' # render v)"

lemma read_key:
  "valid_utf8 k \<Longrightarrow> Option.bind (expect quote (enc_string k @ s)) str_body = Some (k, s)"
  by (simp add: enc_string_def str_body_enc_chars)

lemma parse_members_render:
  "ms \<noteq> [] \<Longrightarrow> \<forall>(k, v)\<in>set ms. valid_utf8 k \<and> parses d v \<Longrightarrow>
   2 * length (sep_concat (map render_member ms) @ CHR ''}'' # r) + 1 < f \<Longrightarrow>
   parse_members d f (sep_concat (map render_member ms) @ CHR ''}'' # r) = Some (ms, r)"
proof (induction ms arbitrary: f)
  case (Cons m ms)
  obtain k v where m: "m = (k, v)" by (cases m)
  obtain f' where f: "f = Suc f'" using Cons.prems(3) by (cases f) auto
  have k: "valid_utf8 k" and pv: "parses d v" using Cons.prems(2) m by auto
  show ?case
  proof (cases ms)
    case Nil
    have "parse_value d f' (render v @ CHR ''}'' # r) = Some (v, CHR ''}'' # r)"
      using Cons.prems(3) by (intro parsesD [OF pv]) (simp_all add: Nil f m)
    then show ?thesis by (simp add: Nil f m read_key [OF k] expect_miss)
  next
    case (Cons m' ms')
    let ?t = "sep_concat (map render_member ms) @ CHR ''}'' # r"
    have t: "sep_concat (map render_member (m # ms)) @ CHR ''}'' # r
        = enc_string k @ CHR '':'' # render v @ CHR '','' # ?t"
      by (simp add: Cons m)
    have "parse_value d f' (render v @ CHR '','' # ?t) = Some (v, CHR '','' # ?t)"
      using Cons.prems(3) unfolding t by (intro parsesD [OF pv]) (simp_all add: f)
    moreover have "parse_members d f' ?t = Some (ms, r)"
      using Cons.prems \<open>ms = m' # ms'\<close> unfolding t by (intro Cons.IH) (simp_all add: f)
    ultimately show ?thesis unfolding t by (simp add: f m read_key [OF k])
  qed
qed simp

lemma Max_insert_le:
  "finite A \<Longrightarrow> Suc (Max (insert 0 A)) \<le> d \<longleftrightarrow> 0 < d \<and> (\<forall>x\<in>A. x \<le> d - 1)"
  by (cases d) auto

lemma render_parses: "wf_json v \<Longrightarrow> jdepth v \<le> d \<Longrightarrow> parses d v"
proof (induction v arbitrary: d)
  case JNull
  show ?case unfolding parses_def
  proof (intro allI impI)
    fix f r assume "2 * length (render JNull @ r) < f"
    then show "parse_value d f (render JNull @ r) = Some (JNull, r)"
      by (cases f) (simp_all add: skip_ws_head expect_word_def quote_def)
  qed
next
  case (JBool b)
  show ?case unfolding parses_def
  proof (intro allI impI)
    fix f r assume "2 * length (render (JBool b) @ r) < f"
    then show "parse_value d f (render (JBool b) @ r) = Some (JBool b, r)"
      by (cases f; cases b) (simp_all add: skip_ws_head expect_word_def quote_def)
  qed
next
  case (JNum n)
  show ?case unfolding parses_def
  proof (intro allI impI)
    fix f r assume f: "2 * length (render (JNum n) @ r) < f" and r: "delim r"
    obtain c t where n: "n = c # t" and c: "is_digit c \<or> c = CHR ''-''"
      using JNum.prems by (auto elim: scan_number_head)
    have "scan_number (n @ r) = Some (n, r)"
      using scan_number_append [OF r, of n n "[]"] JNum.prems by simp
    moreover have "c \<noteq> CHR ''{'' \<and> c \<noteq> CHR ''['' \<and> c \<noteq> quote \<and> c \<noteq> CHR ''t'' \<and> c \<noteq> CHR ''f'' \<and> c \<noteq> CHR ''n''"
      using c by (auto simp: is_digit_def ccode_def quote_def)
    moreover have "value_head c" using c by auto
    ultimately show "parse_value d f (render (JNum n) @ r) = Some (JNum n, r)"
      using f by (cases f) (simp_all add: n skip_ws_head)
  qed
next
  case (JStr s)
  show ?case unfolding parses_def
  proof (intro allI impI)
    fix f r assume "2 * length (render (JStr s) @ r) < f"
    then show "parse_value d f (render (JStr s) @ r) = Some (JStr s, r)"
      using JStr.prems
      by (cases f) (simp_all add: enc_string_def skip_ws_head str_body_enc_chars quote_brackets)
  qed
next
  case (JArr xs)
  have d: "0 < d" and xs: "\<forall>x\<in>set xs. parses (d - 1) x"
    using JArr by (auto simp: Max_insert_le)
  show ?case unfolding parses_def
  proof (intro allI impI)
    fix f r assume f: "2 * length (render (JArr xs) @ r) < f"
    then obtain f' where f': "f = Suc f'" by (cases f) auto
    show "parse_value d f (render (JArr xs) @ r) = Some (JArr xs, r)"
    proof (cases xs)
      case Nil
      then show ?thesis using d by (simp add: f' skip_ws_head)
    next
      case (Cons x ys)
      have "wf_json x" using JArr.prems Cons by simp
      then obtain c t where "render x = c # t" "value_head c" by (rule render_head)
      then have "expect (CHR '']'') (sep_concat (map render xs) @ CHR '']'' # r) = None"
        by (cases ys) (auto simp: Cons value_head_def intro!: expect_miss)
      moreover have "parse_elems (d - 1) f' (sep_concat (map render xs) @ CHR '']'' # r) = Some (xs, r)"
        using f f' Cons xs by (intro parse_elems_render) auto
      ultimately show ?thesis using d by (simp add: f' skip_ws_head)
    qed
  qed
next
  case (JObj ms)
  have d: "0 < d" and ms: "\<forall>(k, v)\<in>set ms. valid_utf8 k \<and> parses (d - 1) v"
    using JObj by (auto simp: Max_insert_le split: prod.splits)
  show ?case unfolding parses_def
  proof (intro allI impI)
    fix f r assume f: "2 * length (render (JObj ms) @ r) < f"
    then obtain f' where f': "f = Suc f'" by (cases f) auto
    show "parse_value d f (render (JObj ms) @ r) = Some (JObj ms, r)"
    proof (cases ms)
      case Nil
      then show ?thesis using d by (simp add: f' skip_ws_head)
    next
      case (Cons m ms')
      have "quote \<noteq> CHR ''}''" by (simp add: quote_def)
      then have "expect (CHR ''}'') (sep_concat (map render_member ms) @ CHR ''}'' # r) = None"
        by (cases ms') (auto simp: Cons enc_string_def split_beta intro!: expect_miss)
      moreover have "parse_members (d - 1) f' (sep_concat (map render_member ms) @ CHR ''}'' # r) = Some (ms, r)"
        using f f' Cons ms by (intro parse_members_render) auto
      ultimately show ?thesis using d by (simp add: f' skip_ws_head)
    qed
  qed
qed

lemma parse_render:
  assumes "wf_json v" and "jdepth v \<le> max_nesting"
  shows "parse_json (render v) = Some v"
  using parsesD [OF render_parses [OF assms], of "[]" "Suc (2 * length (render v))"]
  by (simp add: parse_json_def skip_ws_def)

lemma parse_first_object:
  assumes "wf_json (JObj ms)" and "jdepth (JObj ms) \<le> max_nesting"
  shows "delim r \<Longrightarrow> parse_first (render (JObj ms) @ r) = Some (JObj ms)"
    and "parse_first (render (JObj ms)) = Some (JObj ms)"
proof -
  show *: "parse_first (render (JObj ms) @ r) = Some (JObj ms)" if "delim r" for r
    unfolding parse_first_def
    by (subst parsesD [OF render_parses [OF assms] that]) (simp_all del: render.simps)
  show "parse_first (render (JObj ms)) = Some (JObj ms)" using * [of "[]"] by simp
qed

interpretation json: roundtrip render parse_json "\<lambda>v. wf_json v \<and> jdepth v \<le> max_nesting"
  by unfold_locales (simp add: parse_render)

end
