(* ===== verification/Protocol.thy ===== *)
theory Protocol
  imports JsonFacts
begin

text \<open>
  The frame of the agent-broker session (\<open>internal/protocol/protocol.go\<close>): the \<open>Msg\<close>
  struct with its JSON tags, its encoding by \<open>json.Marshal\<close> (fields in order,
  \<open>omitempty\<close> on all but the type, the data as base64) and its decoding by
  \<open>json.Unmarshal\<close> (field names matched exactly, then up to case; null is skipped; a
  value of the wrong type is an error that leaves its field alone and lets the others
  be decoded).
\<close>

section \<open>The message type\<close>

record msg =
  msg_type :: string
  msg_session :: string
  msg_device :: string
  msg_name :: string
  msg_os :: string
  msg_token :: string
  msg_data :: bytes
  msg_message :: string

definition zero_msg :: msg where
  "zero_msg = \<lparr>msg_type = [], msg_session = [], msg_device = [], msg_name = [], msg_os = [],
     msg_token = [], msg_data = [], msg_message = []\<rparr>"

definition type_register :: string where "type_register = ''register''"
definition type_registered :: string where "type_registered = ''registered''"
definition type_error :: string where "type_error = ''error''"
definition type_open :: string where "type_open = ''open''"
definition type_input :: string where "type_input = ''in''"
definition type_output :: string where "type_output = ''out''"
definition type_resize :: string where "type_resize = ''resize''"
definition type_close :: string where "type_close = ''close''"

lemmas msg_types = type_register_def type_registered_def type_error_def type_open_def
  type_input_def type_output_def type_resize_def type_close_def

section \<open>Encoding\<close>

definition omit_empty :: "string \<Rightarrow> string \<Rightarrow> (string \<times> json) list" where
  "omit_empty k v = (if v = [] then [] else [(k, JStr v)])"

definition msg_json :: "msg \<Rightarrow> json" where
  "msg_json m = JObj (
     (''t'', JStr (msg_type m)) #
     omit_empty ''s'' (msg_session m) @
     omit_empty ''d'' (msg_device m) @
     omit_empty ''n'' (msg_name m) @
     omit_empty ''os'' (msg_os m) @
     omit_empty ''tok'' (msg_token m) @
     omit_empty ''data'' (b64_encode (msg_data m)) @
     omit_empty ''msg'' (msg_message m))"

definition marshal_msg :: "msg \<Rightarrow> bytes" where
  "marshal_msg m = go_bytes (render (msg_json m))"

section \<open>Decoding\<close>

datatype mfield = FType | FSession | FDevice | FName | FOS | FToken | FData | FMessage

definition field_names :: "(string \<times> mfield) list" where
  "field_names =
     [(''t'', FType), (''s'', FSession), (''d'', FDevice), (''n'', FName), (''os'', FOS),
      (''tok'', FToken), (''data'', FData), (''msg'', FMessage)]"

text \<open>
  \<open>foldName\<close>: the spelling up to Unicode simple case folding. Besides the ASCII capitals,
  only U+017F (long s) and U+212A (the Kelvin sign) fold to an ASCII letter.
\<close>

fun fold_name :: "string \<Rightarrow> string" where
  "fold_name [] = []"
| "fold_name [a] = [if 65 \<le> ccode a \<and> ccode a \<le> 90 then char_of (ccode a + 32) else a]"
| "fold_name (a # b # s) =
     (if 65 \<le> ccode a \<and> ccode a \<le> 90 then char_of (ccode a + 32) # fold_name (b # s)
      else if a = CHR 0xC5 \<and> b = CHR 0xBF then CHR ''s'' # fold_name s
      else if a = CHR 0xE2 \<and> b = CHR 0x84 \<and> s \<noteq> [] \<and> hd s = CHR 0xAA
        then CHR ''k'' # fold_name (tl s)
      else a # fold_name (b # s))"

definition field_of :: "string \<Rightarrow> mfield option" where
  "field_of k =
     (case map_of field_names k of
        Some f \<Rightarrow> Some f
      | None \<Rightarrow> map_of field_names (fold_name k))"

fun set_string :: "mfield \<Rightarrow> string \<Rightarrow> msg \<Rightarrow> msg" where
  "set_string FType v m = m\<lparr>msg_type := v\<rparr>"
| "set_string FSession v m = m\<lparr>msg_session := v\<rparr>"
| "set_string FDevice v m = m\<lparr>msg_device := v\<rparr>"
| "set_string FName v m = m\<lparr>msg_name := v\<rparr>"
| "set_string FOS v m = m\<lparr>msg_os := v\<rparr>"
| "set_string FToken v m = m\<lparr>msg_token := v\<rparr>"
| "set_string FMessage v m = m\<lparr>msg_message := v\<rparr>"
| "set_string FData v m = m"

text \<open>An element of a JSON array decoded into a byte: its value and whether it fits.\<close>

definition decimal :: "string \<Rightarrow> nat option" where
  "decimal n = (if n \<noteq> [] \<and> list_all is_digit n
     then Some (foldl (\<lambda>v c. 10 * v + (ccode c - 48)) 0 n) else None)"

fun byte_elem :: "json \<Rightarrow> byte \<times> bool" where
  "byte_elem (JNum n) =
     (case decimal n of Some v \<Rightarrow> if v < 256 then (of_nat v, True) else (0, False)
      | None \<Rightarrow> (0, False))"
| "byte_elem JNull = (0, True)"
| "byte_elem _ = (0, False)"

fun set_data :: "json \<Rightarrow> msg \<Rightarrow> msg \<times> bool" where
  "set_data (JStr s) m =
     (case b64_decode s of Some b \<Rightarrow> (m\<lparr>msg_data := b\<rparr>, True) | None \<Rightarrow> (m, False))"
| "set_data (JArr xs) m =
     (m\<lparr>msg_data := map (fst \<circ> byte_elem) xs\<rparr>, list_all (snd \<circ> byte_elem) xs)"
| "set_data JNull m = (m\<lparr>msg_data := []\<rparr>, True)"
| "set_data _ m = (m, False)"

definition set_field :: "mfield \<Rightarrow> json \<Rightarrow> msg \<Rightarrow> msg \<times> bool" where
  "set_field f v m =
     (if f = FData then set_data v m
      else case v of
          JStr s \<Rightarrow> (set_string f s m, True)
        | JNull \<Rightarrow> (m, True)
        | _ \<Rightarrow> (m, False))"

definition decode_member :: "string \<times> json \<Rightarrow> msg \<times> bool \<Rightarrow> msg \<times> bool" where
  "decode_member kv mo =
     (case field_of (fst kv) of
        None \<Rightarrow> mo
      | Some f \<Rightarrow> let (m', ok) = set_field f (snd kv) (fst mo) in (m', snd mo \<and> ok))"

definition decode_msg :: "json \<Rightarrow> msg \<times> bool" where
  "decode_msg j =
     (case j of
        JObj ms \<Rightarrow> fold decode_member ms (zero_msg, True)
      | JNull \<Rightarrow> (zero_msg, True)
      | _ \<Rightarrow> (zero_msg, False))"

text \<open>The message \<open>json.Unmarshal\<close> leaves behind, and whether it returned a nil error.\<close>

definition unmarshal_msg :: "bytes \<Rightarrow> msg \<times> bool" where
  "unmarshal_msg b =
     (case parse_json (go_string b) of
        None \<Rightarrow> (zero_msg, False)
      | Some j \<Rightarrow> decode_msg j)"

section \<open>Round trip\<close>

definition wf_msg :: "msg \<Rightarrow> bool" where
  "wf_msg m \<longleftrightarrow> list_all (\<lambda>f. valid_utf8 (f m))
     [msg_type, msg_session, msg_device, msg_name, msg_os, msg_token, msg_message]"

lemma valid_utf8_b64: "valid_utf8 (b64_encode bs)"
proof (rule valid_utf8_ascii, rule ballI)
  fix c assume "c \<in> set (b64_encode bs)"
  then have "c = CHR ''='' \<or> c \<in> range b64_char" using set_b64_encode by blast
  then have "c = CHR ''='' \<or> (\<exists>v. b64_value c = Some v)" by auto
  then show "ccode c < 128"
    by (auto simp: b64_value_def Let_def ccode_def split: if_splits)
qed

lemma wf_msg_json: "wf_msg m \<Longrightarrow> wf_json (msg_json m)"
  by (auto simp: wf_msg_def msg_json_def omit_empty_def valid_utf8_b64 ccode_def)

lemma jdepth_msg_json: "jdepth (msg_json m) \<le> max_nesting"
  by (auto simp: msg_json_def omit_empty_def max_nesting_def)

lemma field_of_names [simp]:
  "field_of ''t'' = Some FType" "field_of ''s'' = Some FSession" "field_of ''d'' = Some FDevice"
  "field_of ''n'' = Some FName" "field_of ''os'' = Some FOS" "field_of ''tok'' = Some FToken"
  "field_of ''data'' = Some FData" "field_of ''msg'' = Some FMessage"
  by (simp_all add: field_of_def field_names_def)

lemma decode_string_member:
  "field_of k = Some f \<Longrightarrow> f \<noteq> FData \<Longrightarrow>
   decode_member (k, JStr v) (m, ok) = (set_string f v m, ok)"
  by (simp add: decode_member_def set_field_def)

lemma decode_data_member:
  "field_of k = Some FData \<Longrightarrow>
   decode_member (k, JStr (b64_encode b)) (m, ok) = (m\<lparr>msg_data := b\<rparr>, ok)"
  by (simp add: decode_member_def set_field_def b64_decode_encode)

lemma decode_msg_json: "decode_msg (msg_json m) = (m, True)"
  by (cases m)
     (simp add: decode_msg_def msg_json_def omit_empty_def zero_msg_def
        decode_string_member decode_data_member)

lemma unmarshal_marshal: "wf_msg m \<Longrightarrow> unmarshal_msg (marshal_msg m) = (m, True)"
  by (simp add: unmarshal_msg_def marshal_msg_def parse_render wf_msg_json jdepth_msg_json
      decode_msg_json)

interpretation frame: roundtrip marshal_msg
  "\<lambda>b. (case unmarshal_msg b of (m, ok) \<Rightarrow> if ok then Some m else None)" wf_msg
  by unfold_locales (simp add: unmarshal_marshal)

end
