(* ===== verification/Agent.thy ===== *)
theory Agent
  imports Protocol
begin

text \<open>
  The device side (\<open>internal/agent/agent.go\<close> over \<open>internal/shell/shell.go\<close>): registration,
  the loop that serves the broker's frames, and one reader goroutine per shell. As for the
  broker, an event runs the loop or one reader from one place to the next; a step is one
  critical section of \<open>a.mu\<close>, one write to the session (under \<open>a.wmu\<close>) or one operation on
  a shell, and the outcomes of those operations are part of the event.
\<close>

section \<open>Registration\<close>

record agent_config =
  acf_device :: string
  acf_name :: string
  acf_os :: string
  acf_token :: string
  acf_shell :: string

definition register_msg :: "agent_config \<Rightarrow> msg" where
  "register_msg cfg = zero_msg\<lparr>msg_type := type_register, msg_device := acf_device cfg,
     msg_name := acf_name cfg, msg_os := acf_os cfg, msg_token := acf_token cfg\<rparr>"

datatype agent_error = ErrDial | ErrHandshake | ErrSend | ErrRecv
  | ErrRejected string | ErrUnexpected string

text \<open>
  \<open>Run\<close> up to its loop: what the dial, the handshake, the write and the read of the reply
  returned. The error of decoding the reply is dropped.
\<close>

definition agent_register :: "bool \<Rightarrow> bool \<Rightarrow> bool \<Rightarrow> bytes option \<Rightarrow> agent_error option" where
  "agent_register dialed shaken written reply =
     (if \<not> dialed then Some ErrDial
      else if \<not> shaken then Some ErrHandshake
      else if \<not> written then Some ErrSend
      else case reply of
          None \<Rightarrow> Some ErrRecv
        | Some raw \<Rightarrow>
            (let m = fst (unmarshal_msg raw) in
             if msg_type m = type_error then Some (ErrRejected (msg_message m))
             else if msg_type m = type_registered then None
             else Some (ErrUnexpected (msg_type m))))"

section \<open>Shells\<close>

text \<open>The places in a reader goroutine of \<open>openShell\<close>.\<close>

datatype reader_pc =
    RRead
  | RSend bytes bool
  | RTake
  | RHangup nat
  | RSayClose
  | RDone

text \<open>
  A shell: its session, whether its terminal is open, what has been typed into it and what
  its reader has read from it.
\<close>

record shell =
  sh_path :: string
  sh_session :: string
  sh_open :: bool
  sh_typed :: "bytes list"
  sh_read :: "bytes list"
  sh_pc :: reader_pc

definition shell_path :: "string \<Rightarrow> string" where
  "shell_path p = (if p = [] then ''/bin/sh'' else p)"

text \<open>\<open>shell.Start\<close> for a session, and \<open>Session.Close\<close>.\<close>

definition shell_start :: "string \<Rightarrow> string \<Rightarrow> shell" where
  "shell_start p i = \<lparr>sh_path = shell_path p, sh_session = i, sh_open = True, sh_typed = [], sh_read = [],
     sh_pc = RDone\<rparr>"

definition shell_close :: "shell \<Rightarrow> shell" where
  "shell_close sh = sh\<lparr>sh_open := False\<rparr>"

section \<open>The agent\<close>

text \<open>The places in the loop of \<open>Run\<close>.\<close>

datatype loop_pc =
    LRead
  | LInsert string nat
  | LType nat bytes
  | LHangup string nat
  | LSayClose string
  | LKill "nat set"
  | LDone

record agent =
  ag_cfg :: agent_config
  ag_shells :: "string \<rightharpoonup> nat"
  ag_procs :: "nat \<rightharpoonup> shell"
  ag_out :: "msg list"
  ag_pc :: loop_pc

definition agent_new :: "agent_config \<Rightarrow> agent" where
  "agent_new cfg = \<lparr>ag_cfg = cfg, ag_shells = Map.empty, ag_procs = Map.empty, ag_out = [], ag_pc = LRead\<rparr>"

definition ag_write :: "bool \<Rightarrow> msg \<Rightarrow> agent \<Rightarrow> agent" where
  "ag_write net m s = (if net then s\<lparr>ag_out := ag_out s @ [m]\<rparr> else s)"

definition set_shell :: "nat \<Rightarrow> shell \<Rightarrow> agent \<Rightarrow> agent" where
  "set_shell n sh s = s\<lparr>ag_procs := (ag_procs s)(n \<mapsto> sh)\<rparr>"

definition close_proc :: "nat \<Rightarrow> agent \<Rightarrow> agent" where
  "close_proc n s =
     (case ag_procs s n of None \<Rightarrow> s | Some sh \<Rightarrow> set_shell n (shell_close sh) s)"

definition reader_goto :: "nat \<Rightarrow> reader_pc \<Rightarrow> agent \<Rightarrow> agent" where
  "reader_goto n pc s =
     (case ag_procs s n of None \<Rightarrow> s | Some sh \<Rightarrow> set_shell n (sh\<lparr>sh_pc := pc\<rparr>) s)"

text \<open>The critical section of \<open>closeShell\<close>.\<close>

definition take_shell :: "string \<Rightarrow> agent \<Rightarrow> agent \<times> nat option" where
  "take_shell i s = (s\<lparr>ag_shells := (ag_shells s)(i := None)\<rparr>, ag_shells s i)"

definition close_msg :: "string \<Rightarrow> msg" where
  "close_msg i = zero_msg\<lparr>msg_type := type_close, msg_session := i\<rparr>"

section \<open>The loop\<close>

text \<open>
  One frame of the loop, up to the end of its first step: \<open>start\<close> is the number of the shell
  that \<open>shell.Start\<close> made, or None if it failed, and then \<open>net\<close> is whether the refusal was
  written.
\<close>

definition loop_frame :: "bytes \<Rightarrow> nat option \<Rightarrow> bool \<Rightarrow> agent \<Rightarrow> agent option" where
  "loop_frame raw start net s =
     (if ag_pc s \<noteq> LRead then None
      else case unmarshal_msg raw of (m, ok) \<Rightarrow>
        let i = msg_session m in
        if \<not> ok then Some s
        else if msg_type m = type_open then
          (case start of
             None \<Rightarrow> Some (ag_write net (close_msg i) s)
           | Some n \<Rightarrow>
               if ag_procs s n \<noteq> None then None
               else Some ((set_shell n (shell_start (acf_shell (ag_cfg s)) i) s)\<lparr>ag_pc := LInsert i n\<rparr>))
        else if msg_type m = type_input then
          Some (case ag_shells s i of None \<Rightarrow> s | Some n \<Rightarrow> s\<lparr>ag_pc := LType n (msg_data m)\<rparr>)
        else if msg_type m = type_close then
          Some (case take_shell i s of (s, None) \<Rightarrow> s | (s, Some n) \<Rightarrow> s\<lparr>ag_pc := LHangup i n\<rparr>)
        else Some s)"

text \<open>The rest of \<open>openShell\<close>, \<open>input\<close> and \<open>closeShell\<close>.\<close>

definition loop_insert :: "agent \<Rightarrow> agent option" where
  "loop_insert s =
     (case ag_pc s of
        LInsert i n \<Rightarrow> Some (reader_goto n RRead
          (s\<lparr>ag_shells := (ag_shells s)(i \<mapsto> n), ag_pc := LRead\<rparr>))
      | _ \<Rightarrow> None)"

text \<open>
  \<open>written\<close>: whether the terminal took the input, of which \<open>input\<close> never learns. A write that fails after
  a part of the bytes counts as one that took none.
\<close>

definition loop_type :: "bool \<Rightarrow> agent \<Rightarrow> agent option" where
  "loop_type written s =
     (case ag_pc s of
        LType n d \<Rightarrow>
          (case ag_procs s n of
             None \<Rightarrow> None
           | Some sh \<Rightarrow> Some ((if written \<and> sh_open sh
               then set_shell n (sh\<lparr>sh_typed := sh_typed sh @ [d]\<rparr>) s else s)\<lparr>ag_pc := LRead\<rparr>))
      | _ \<Rightarrow> None)"

definition loop_hangup :: "agent \<Rightarrow> agent option" where
  "loop_hangup s =
     (case ag_pc s of
        LHangup i n \<Rightarrow> Some ((close_proc n s)\<lparr>ag_pc := LSayClose i\<rparr>)
      | _ \<Rightarrow> None)"

definition loop_say_close :: "bool \<Rightarrow> agent \<Rightarrow> agent option" where
  "loop_say_close net s =
     (case ag_pc s of
        LSayClose i \<Rightarrow> Some ((ag_write net (close_msg i) s)\<lparr>ag_pc := LRead\<rparr>)
      | _ \<Rightarrow> None)"

text \<open>A read error: \<open>closeAll\<close> swaps the map and then closes what was in it, in any order.\<close>

definition loop_read_error :: "agent \<Rightarrow> agent option" where
  "loop_read_error s =
     (if ag_pc s \<noteq> LRead then None
      else Some (s\<lparr>ag_shells := Map.empty, ag_pc := LKill (ran (ag_shells s))\<rparr>))"

definition loop_kill :: "nat \<Rightarrow> agent \<Rightarrow> agent option" where
  "loop_kill n s =
     (case ag_pc s of
        LKill ns \<Rightarrow> if n \<in> ns then Some ((close_proc n s)\<lparr>ag_pc := LKill (ns - {n})\<rparr>) else None
      | _ \<Rightarrow> None)"

definition loop_return :: "agent \<Rightarrow> agent option" where
  "loop_return s = (if ag_pc s = LKill {} then Some (s\<lparr>ag_pc := LDone\<rparr>) else None)"

section \<open>A reader\<close>

definition chunk_size :: nat where "chunk_size = 4096"

text \<open>One \<open>sh.Read\<close>: the bytes it returned and whether it also returned an error.\<close>

definition reader_read :: "nat \<Rightarrow> bytes \<Rightarrow> bool \<Rightarrow> agent \<Rightarrow> agent option" where
  "reader_read n d rerr s =
     (case ag_procs s n of
        Some sh \<Rightarrow>
          if sh_pc sh = RRead \<and> length d \<le> chunk_size then
            Some (if d \<noteq> [] then set_shell n (sh\<lparr>sh_read := sh_read sh @ [d], sh_pc := RSend d rerr\<rparr>) s
                  else if rerr then reader_goto n RTake s else s)
          else None
      | None \<Rightarrow> None)"

definition output_msg :: "string \<Rightarrow> bytes \<Rightarrow> msg" where
  "output_msg i d = zero_msg\<lparr>msg_type := type_output, msg_session := i, msg_data := d\<rparr>"

definition reader_send :: "nat \<Rightarrow> bool \<Rightarrow> agent \<Rightarrow> agent option" where
  "reader_send n net s =
     (case ag_procs s n of
        Some sh \<Rightarrow>
          (case sh_pc sh of
             RSend d rerr \<Rightarrow> Some (reader_goto n (if \<not> net \<or> rerr then RTake else RRead)
               (ag_write net (output_msg (sh_session sh) d) s))
           | _ \<Rightarrow> None)
      | None \<Rightarrow> None)"

definition reader_take :: "nat \<Rightarrow> agent \<Rightarrow> agent option" where
  "reader_take n s =
     (case ag_procs s n of
        Some sh \<Rightarrow>
          if sh_pc sh = RTake then
            Some (case take_shell (sh_session sh) s of
                (s, None) \<Rightarrow> reader_goto n RDone s
              | (s, Some m) \<Rightarrow> reader_goto n (RHangup m) s)
          else None
      | None \<Rightarrow> None)"

definition reader_hangup :: "nat \<Rightarrow> agent \<Rightarrow> agent option" where
  "reader_hangup n s =
     (case ag_procs s n of
        Some sh \<Rightarrow>
          (case sh_pc sh of
             RHangup m \<Rightarrow> Some (reader_goto n RSayClose (close_proc m s))
           | _ \<Rightarrow> None)
      | None \<Rightarrow> None)"

definition reader_say_close :: "nat \<Rightarrow> bool \<Rightarrow> agent \<Rightarrow> agent option" where
  "reader_say_close n net s =
     (case ag_procs s n of
        Some sh \<Rightarrow>
          if sh_pc sh = RSayClose then Some (reader_goto n RDone (ag_write net (close_msg (sh_session sh)) s))
          else None
      | None \<Rightarrow> None)"

section \<open>Runs\<close>

datatype agent_event =
    LFrame bytes "nat option" bool
  | LDoInsert
  | LDoType bool
  | LDoHangup
  | LDoSayClose bool
  | LReadErr
  | LDoKill nat
  | LReturn
  | RDoRead nat bytes bool
  | RDoSend nat bool
  | RDoTake nat
  | RDoHangup nat
  | RDoSayClose nat bool

fun agent_step :: "agent_event \<Rightarrow> agent \<Rightarrow> agent option" where
  "agent_step (LFrame raw start net) s = loop_frame raw start net s"
| "agent_step LDoInsert s = loop_insert s"
| "agent_step (LDoType written) s = loop_type written s"
| "agent_step LDoHangup s = loop_hangup s"
| "agent_step (LDoSayClose net) s = loop_say_close net s"
| "agent_step LReadErr s = loop_read_error s"
| "agent_step (LDoKill n) s = loop_kill n s"
| "agent_step LReturn s = loop_return s"
| "agent_step (RDoRead n d rerr) s = reader_read n d rerr s"
| "agent_step (RDoSend n net) s = reader_send n net s"
| "agent_step (RDoTake n) s = reader_take n s"
| "agent_step (RDoHangup n) s = reader_hangup n s"
| "agent_step (RDoSayClose n net) s = reader_say_close n net s"

end
