(* ===== verification/Registry.thy ===== *)
theory Registry
  imports Prelude Json
begin

text \<open>
  The broker's in-memory device catalogue (\<open>internal/registry/registry.go\<close>): the map of
  attached devices by id, and the force-graph that \<open>/devices.json\<close> serves. Go iterates a
  map in an unspecified order, so the operations that iterate take the order in which the
  runtime visits the keys; \<open>visits\<close> says what an order may be.
\<close>

section \<open>The contract of a catalogue\<close>

locale catalogue =
  fixes empty :: 'c
    and add :: "'d \<Rightarrow> 'c \<Rightarrow> 'c"
    and remove :: "'k \<Rightarrow> 'c \<Rightarrow> 'c"
    and get :: "'c \<Rightarrow> 'k \<Rightarrow> 'd option"
    and key :: "'d \<Rightarrow> 'k"
    and inv :: "'c \<Rightarrow> bool"
  assumes get_empty: "get empty k = None"
    and get_add: "get (add d c) k = (if k = key d then Some d else get c k)"
    and get_remove: "get (remove j c) k = (if k = j then None else get c k)"
    and inv_empty: "inv empty"
    and inv_add: "inv c \<Longrightarrow> inv (add d c)"
    and inv_remove: "inv c \<Longrightarrow> inv (remove j c)"
    and get_key: "inv c \<Longrightarrow> get c k = Some d \<Longrightarrow> key d = k"
begin

text \<open>Operations on different keys commute, as far as lookups can tell.\<close>

lemma add_add: "key d \<noteq> key e \<Longrightarrow> get (add d (add e c)) k = get (add e (add d c)) k"
  by (simp add: get_add)

lemma add_remove: "key d \<noteq> j \<Longrightarrow> get (add d (remove j c)) k = get (remove j (add d c)) k"
  by (simp add: get_add get_remove)

text \<open>Only the last of several additions under one key counts.\<close>

lemma add_again: "key d = key e \<Longrightarrow> get (add d (add e c)) k = get (add d c) k"
  by (simp add: get_add)

text \<open>A run of additions and removals: what a key holds is decided by its last operation.\<close>

fun apply_op :: "'d + 'k \<Rightarrow> 'c \<Rightarrow> 'c" where
  "apply_op (Inl d) c = add d c"
| "apply_op (Inr j) c = remove j c"

lemma inv_apply_op: "inv c \<Longrightarrow> inv (apply_op x c)"
  by (cases x) (simp_all add: inv_add inv_remove)

lemma run_inv: "inv c \<Longrightarrow> inv (fold apply_op xs c)"
  by (induction xs arbitrary: c) (simp_all add: inv_apply_op)

lemma run_untouched:
  "\<forall>x\<in>set xs. (case x of Inl d \<Rightarrow> key d \<noteq> k | Inr j \<Rightarrow> j \<noteq> k) \<Longrightarrow>
   get (fold apply_op xs c) k = get c k"
  by (induction xs arbitrary: c) (auto simp: get_add get_remove split: sum.splits)

end

section \<open>The registry\<close>

record device =
  dev_id :: string
  dev_name :: string
  dev_os :: string
  dev_addr :: string
  dev_pubkey :: string
  dev_last_seen :: int

record registry =
  reg_cloud :: string
  reg_devices :: "string \<rightharpoonup> device"

definition reg_new :: "string \<Rightarrow> registry" where
  "reg_new cloud = \<lparr>reg_cloud = cloud, reg_devices = Map.empty\<rparr>"

definition reg_add :: "device \<Rightarrow> registry \<Rightarrow> registry" where
  "reg_add d r = r\<lparr>reg_devices := (reg_devices r)(dev_id d \<mapsto> d)\<rparr>"

definition reg_remove :: "string \<Rightarrow> registry \<Rightarrow> registry" where
  "reg_remove i r = r\<lparr>reg_devices := (reg_devices r)(i := None)\<rparr>"

definition reg_get :: "registry \<Rightarrow> string \<Rightarrow> device option" where
  "reg_get r i = reg_devices r i"

text \<open>The orders in which Go may visit the keys of a map: each key once.\<close>

definition visits :: "string list \<Rightarrow> (string \<rightharpoonup> 'a) \<Rightarrow> bool" where
  "visits ks m \<longleftrightarrow> distinct ks \<and> set ks = dom m"

definition reg_list :: "string list \<Rightarrow> registry \<Rightarrow> device list" where
  "reg_list order r = List.map_filter (reg_devices r) order"

section \<open>The force graph\<close>

text \<open>The members of a JSON object built from a Go map are written in the order of their keys.\<close>

definition cloud_node :: "registry \<Rightarrow> json" where
  "cloud_node r = JObj [(''group'', JNum ''1''), (''id'', JStr (reg_cloud r))]"

definition device_node :: "device \<Rightarrow> json" where
  "device_node d = JObj [(''addr'', JStr (dev_addr d)), (''group'', JNum ''2''),
     (''id'', JStr (dev_id d)), (''name'', JStr (dev_name d)), (''os'', JStr (dev_os d))]"

definition device_link :: "registry \<Rightarrow> device \<Rightarrow> json" where
  "device_link r d = JObj [(''source'', JStr (reg_cloud r)), (''target'', JStr (dev_id d)),
     (''value'', JNum ''1'')]"

fun graph_loop :: "registry \<Rightarrow> string list \<Rightarrow> json list \<times> json list \<Rightarrow> json list \<times> json list" where
  "graph_loop r [] acc = acc"
| "graph_loop r (k # ks) (nodes, links) =
     (case reg_devices r k of
        None \<Rightarrow> graph_loop r ks (nodes, links)
      | Some d \<Rightarrow> graph_loop r ks (nodes @ [device_node d], links @ [device_link r d]))"

definition reg_graph :: "string list \<Rightarrow> registry \<Rightarrow> json" where
  "reg_graph order r =
     (let (nodes, links) = graph_loop r order ([cloud_node r], [])
      in JObj [(''links'', JArr links), (''nodes'', JArr nodes)])"

section \<open>Properties\<close>

definition reg_wf :: "registry \<Rightarrow> bool" where
  "reg_wf r \<longleftrightarrow> (\<forall>k d. reg_devices r k = Some d \<longrightarrow> dev_id d = k)"

lemmas reg_ops = reg_new_def reg_add_def reg_remove_def reg_get_def

lemma reg_wf_ops [simp]:
  "reg_wf (reg_new c)" "reg_wf r \<Longrightarrow> reg_wf (reg_add d r)" "reg_wf r \<Longrightarrow> reg_wf (reg_remove i r)"
  by (simp_all add: reg_wf_def reg_ops)

lemma reg_cloud_ops [simp]:
  "reg_cloud (reg_add d r) = reg_cloud r" "reg_cloud (reg_remove i r) = reg_cloud r"
  by (simp_all add: reg_ops)

interpretation reg: catalogue "reg_new cloud" reg_add reg_remove reg_get dev_id reg_wf
  for cloud
  by unfold_locales (auto simp: reg_ops reg_wf_def)

text \<open>The loop of \<open>Graph\<close> appends a node and a link per device visited.\<close>

lemma graph_loop_eq:
  "graph_loop r ks (ns, ls) =
     (ns @ map device_node (List.map_filter (reg_devices r) ks),
      ls @ map (device_link r) (List.map_filter (reg_devices r) ks))"
  by (induction ks arbitrary: ns ls) (auto simp: List.map_filter_def split: option.splits)

lemma length_map_filter_visits: "visits ks m \<Longrightarrow> length (List.map_filter m ks) = card (dom m)"
proof -
  assume v: "visits ks m"
  then have "filter (\<lambda>k. m k \<noteq> None) ks = ks"
    by (auto simp: visits_def filter_id_conv)
  then have "length (List.map_filter m ks) = length ks"
    by (simp add: List.map_filter_def)
  also have "\<dots> = card (dom m)"
    using v distinct_card [of ks] by (simp add: visits_def)
  finally show ?thesis .
qed

lemma set_map_filter_visits: "visits ks m \<Longrightarrow> set (List.map_filter m ks) = ran m"
  by (force simp: visits_def List.map_filter_def ran_def)

text \<open>
  The force graph of the registry, whatever the iteration order: the nodes are the
  cloud followed by one node per registered device, the links are exactly one per device,
  from the cloud to it, and nodes and links list the devices in the same order.
\<close>

theorem graph_complete:
  assumes "visits order (reg_devices r)"
  shows "\<exists>ds. reg_graph order r =
             JObj [(''links'', JArr (map (device_link r) ds)),
                   (''nodes'', JArr (cloud_node r # map device_node ds))]
           \<and> set ds = ran (reg_devices r) \<and> length ds = card (dom (reg_devices r))"
  using set_map_filter_visits [OF assms] length_map_filter_visits [OF assms]
  by (auto simp: reg_graph_def graph_loop_eq)

definition example_device :: "string \<Rightarrow> device" where
  "example_device i = \<lparr>dev_id = i, dev_name = ''pi'', dev_os = ''linux'', dev_addr = ''10.0.0.1:9'',
     dev_pubkey = [], dev_last_seen = 0\<rparr>"

definition example_registry :: registry where
  "example_registry = reg_add (example_device ''v.b'') (reg_add (example_device ''v.a'') (reg_new ''v''))"

theorem graph_complete_witness:
  "\<exists>ds. reg_graph [''v.a'', ''v.b''] example_registry =
             JObj [(''links'', JArr (map (device_link example_registry) ds)),
                   (''nodes'', JArr (cloud_node example_registry # map device_node ds))]
           \<and> set ds = ran (reg_devices example_registry)
           \<and> length ds = card (dom (reg_devices example_registry))"
proof (rule graph_complete)
  show "visits [''v.a'', ''v.b''] (reg_devices example_registry)"
    by (auto simp: visits_def reg_ops example_registry_def example_device_def)
qed

end
