(* ===== verification/AuthStore.thy ===== *)
theory AuthStore
  imports Codec
begin

text \<open>
  The persistence layer of the identity service (\<open>internal/auth/store.go\<close>): users,
  registration invites and device-enrollment tokens, each change written to a JSON file by
  write-to-temporary-and-rename. The clock, the random bytes and the outcome of every
  system call of a save are arguments, so each branch of the code is a branch of the model.

  A \<open>*User\<close> handed out by the store is a pointer into its map, so a handler that assigns
  to a field changes the stored user at once; \<open>update_user\<close> is that assignment. The text
  of the file is not modelled: a file holds a saved snapshot or bytes that do not parse.
\<close>

unbundle bit_operations_syntax

section \<open>Data\<close>

text \<open>Of \<open>webauthn.Credential\<close> the code reads the id and the signature counter; the rest is opaque.\<close>

record credential =
  cred_id :: bytes
  cred_sign_count :: "32 word"
  cred_rest :: bytes

record user =
  user_id :: bytes
  user_name :: string
  user_credentials :: "credential list"
  user_totp :: string
  user_created :: int

definition has_totp :: "user \<Rightarrow> bool" where
  "has_totp u \<longleftrightarrow> user_totp u \<noteq> []"

record token =
  tok_username :: string
  tok_expires :: int

record store_data =
  d_users :: "string \<rightharpoonup> user"
  d_invites :: "string \<rightharpoonup> token"
  d_agent_tokens :: "string \<rightharpoonup> token"

datatype fcontent = Saved store_data | Torn

type_synonym disk = "string \<rightharpoonup> fcontent"

record store =
  st_path :: string
  st_data :: store_data
  st_disk :: disk

datatype auth_err = ErrNotFound | ErrTaken | ErrMarshal | ErrMkdir | ErrWrite | ErrRename
  | ErrRead | ErrJSON | ErrLib string

section \<open>Opening and saving\<close>

definition empty_data :: store_data where
  "empty_data = \<lparr>d_users = Map.empty, d_invites = Map.empty, d_agent_tokens = Map.empty\<rparr>"

text \<open>\<open>readable\<close> is whether \<open>os.ReadFile\<close> succeeds on a file that exists.\<close>

definition open_store :: "bool \<Rightarrow> string \<Rightarrow> disk \<Rightarrow> auth_err + store" where
  "open_store readable path disk =
     (let s = \<lparr>st_path = path, st_data = empty_data, st_disk = disk\<rparr> in
      if path = [] then Inr s
      else case disk path of
          None \<Rightarrow> Inr s
        | Some f \<Rightarrow>
            if \<not> readable then Inl ErrRead
            else case f of
                Torn \<Rightarrow> Inl ErrJSON
              | Saved d \<Rightarrow> Inr (s\<lparr>st_data := d\<rparr>))"

datatype write_outcome = WriteOk | WriteRefused | WritePartial

record io =
  io_marshal :: bool
  io_mkdir :: bool
  io_write :: write_outcome
  io_rename :: bool

definition io_ok :: io where
  "io_ok = \<lparr>io_marshal = True, io_mkdir = True, io_write = WriteOk, io_rename = True\<rparr>"

definition tmp_path :: "string \<Rightarrow> string" where
  "tmp_path p = p @ ''.tmp''"

definition save :: "io \<Rightarrow> store \<Rightarrow> store \<times> auth_err option" where
  "save oc s =
     (if st_path s = [] then (s, None)
      else if \<not> io_marshal oc then (s, Some ErrMarshal)
      else let tmp = tmp_path (st_path s); d = st_data s in
        if \<not> io_mkdir oc then (s, Some ErrMkdir)
        else case io_write oc of
            WriteRefused \<Rightarrow> (s, Some ErrWrite)
          | WritePartial \<Rightarrow> (s\<lparr>st_disk := (st_disk s)(tmp \<mapsto> Torn)\<rparr>, Some ErrWrite)
          | WriteOk \<Rightarrow>
              if \<not> io_rename oc then (s\<lparr>st_disk := (st_disk s)(tmp \<mapsto> Saved d)\<rparr>, Some ErrRename)
              else (s\<lparr>st_disk := ((st_disk s)(tmp := None))(st_path s \<mapsto> Saved d)\<rparr>, None))"

text \<open>The Go idiom \<open>return v, s.save()\<close>.\<close>

definition save_return :: "io \<Rightarrow> 'a \<Rightarrow> store \<Rightarrow> store \<times> (auth_err + 'a)" where
  "save_return oc v s =
     (case save oc s of (s', None) \<Rightarrow> (s', Inr v) | (s', Some e) \<Rightarrow> (s', Inl e))"

section \<open>Random values\<close>

text \<open>
  \<open>randomToken\<close>: two hex digits per byte, the high nibble first. The 16 and 32 bytes of
  \<open>randomBytes\<close> are arguments of the operations that draw them.
\<close>

fun random_token :: "bytes \<Rightarrow> string" where
  "random_token [] = []"
| "random_token (c # b) = hex_digits ! unat (drop_bit 4 c) # hex_digits ! unat (c AND 0x0f) # random_token b"

lemma random_token_hex: "random_token b = hex_encode b"
  by (induction b) (simp_all add: hex_digit_def)

lemma random_token_inject: "random_token a = random_token b \<longleftrightarrow> a = b"
  by (simp add: random_token_hex hex.encode_inject)

lemma random_token_nonempty: "length b = 32 \<Longrightarrow> length (random_token b) = 64 \<and> set (random_token b) \<subseteq> set hex_digits"
  by (simp add: random_token_hex set_hex_encode)

section \<open>Operations\<close>

definition set_users :: "(string \<rightharpoonup> user) \<Rightarrow> store \<Rightarrow> store" where
  "set_users m s = s\<lparr>st_data := (st_data s)\<lparr>d_users := m\<rparr>\<rparr>"

definition set_invites :: "(string \<rightharpoonup> token) \<Rightarrow> store \<Rightarrow> store" where
  "set_invites m s = s\<lparr>st_data := (st_data s)\<lparr>d_invites := m\<rparr>\<rparr>"

definition set_agent_tokens :: "(string \<rightharpoonup> token) \<Rightarrow> store \<Rightarrow> store" where
  "set_agent_tokens m s = s\<lparr>st_data := (st_data s)\<lparr>d_agent_tokens := m\<rparr>\<rparr>"

abbreviation "users s \<equiv> d_users (st_data s)"
abbreviation "invites s \<equiv> d_invites (st_data s)"
abbreviation "agent_tokens s \<equiv> d_agent_tokens (st_data s)"

definition get_user :: "string \<Rightarrow> store \<Rightarrow> auth_err + user" where
  "get_user username s = (case users s username of None \<Rightarrow> Inl ErrNotFound | Some u \<Rightarrow> Inr u)"

text \<open>An assignment through the pointer that \<open>GetUser\<close> returned for \<open>username\<close>.\<close>

definition update_user :: "string \<Rightarrow> (user \<Rightarrow> user) \<Rightarrow> store \<Rightarrow> store" where
  "update_user username f s = set_users ((users s)(username := map_option f (users s username))) s"

definition create_user :: "io \<Rightarrow> int \<Rightarrow> bytes \<Rightarrow> string \<Rightarrow> store \<Rightarrow> store \<times> (auth_err + user)" where
  "create_user oc now rnd username s =
     (if users s username \<noteq> None then (s, Inl ErrTaken)
      else let u = \<lparr>user_id = rnd, user_name = username, user_credentials = [], user_totp = [],
                    user_created = now\<rparr>
           in save_return oc u (set_users ((users s)(username \<mapsto> u)) s))"

definition put_user :: "io \<Rightarrow> user \<Rightarrow> store \<Rightarrow> store \<times> auth_err option" where
  "put_user oc u s = save oc (set_users ((users s)(user_name u \<mapsto> u)) s)"

definition create_invite ::
    "io \<Rightarrow> int \<Rightarrow> bytes \<Rightarrow> string \<Rightarrow> int \<Rightarrow> store \<Rightarrow> store \<times> (auth_err + string)" where
  "create_invite oc now rnd username ttl s =
     (let t = random_token rnd
      in save_return oc t
           (set_invites ((invites s)(t \<mapsto> \<lparr>tok_username = username, tok_expires = now + ttl\<rparr>)) s))"

definition peek_invite :: "int \<Rightarrow> string \<Rightarrow> store \<Rightarrow> auth_err + string" where
  "peek_invite now tok s =
     (case invites s tok of
        None \<Rightarrow> Inl ErrNotFound
      | Some iv \<Rightarrow> if tok_expires iv < now then Inl ErrNotFound else Inr (tok_username iv))"

definition consume_invite :: "io \<Rightarrow> int \<Rightarrow> string \<Rightarrow> store \<Rightarrow> store \<times> (auth_err + string)" where
  "consume_invite oc now tok s =
     (let s' = set_invites ((invites s)(tok := None)) s in
      case invites s tok of
        None \<Rightarrow> (fst (save oc s'), Inl ErrNotFound)
      | Some iv \<Rightarrow>
          if tok_expires iv < now then (fst (save oc s'), Inl ErrNotFound)
          else save_return oc (tok_username iv) s')"

definition create_agent_token ::
    "io \<Rightarrow> int \<Rightarrow> bytes \<Rightarrow> int \<Rightarrow> store \<Rightarrow> store \<times> (auth_err + string)" where
  "create_agent_token oc now rnd ttl s =
     (let t = random_token rnd
      in save_return oc t
           (set_agent_tokens ((agent_tokens s)(t \<mapsto> \<lparr>tok_username = [], tok_expires = now + ttl\<rparr>)) s))"

definition check_agent_token :: "io \<Rightarrow> int \<Rightarrow> string \<Rightarrow> store \<Rightarrow> store \<times> bool" where
  "check_agent_token oc now tok s =
     (case agent_tokens s tok of
        None \<Rightarrow> (s, False)
      | Some t \<Rightarrow>
          (fst (save oc (set_agent_tokens ((agent_tokens s)(tok := None)) s)), now < tok_expires t))"

section \<open>What an operation changes\<close>

lemma save_frame [simp]:
  "st_path (fst (save oc s)) = st_path s" "st_data (fst (save oc s)) = st_data s"
  by (auto simp: save_def Let_def split: write_outcome.splits)

lemma save_return_fst [simp]: "fst (save_return oc v s) = fst (save oc s)"
  by (auto simp: save_return_def split: prod.splits option.splits)

lemma save_return_snd: "snd (save_return oc v s) = (case snd (save oc s) of None \<Rightarrow> Inr v | Some e \<Rightarrow> Inl e)"
  by (auto simp: save_return_def split: prod.splits option.splits)

lemma setters [simp]:
  "st_path (set_users m s) = st_path s" "st_path (set_invites n s) = st_path s"
  "st_path (set_agent_tokens n s) = st_path s"
  "st_disk (set_users m s) = st_disk s" "st_disk (set_invites n s) = st_disk s"
  "st_disk (set_agent_tokens n s) = st_disk s"
  "users (set_users m s) = m" "invites (set_users m s) = invites s"
  "agent_tokens (set_users m s) = agent_tokens s"
  "users (set_invites n s) = users s" "invites (set_invites n s) = n"
  "agent_tokens (set_invites n s) = agent_tokens s"
  "users (set_agent_tokens n s) = users s" "invites (set_agent_tokens n s) = invites s"
  "agent_tokens (set_agent_tokens n s) = n"
  by (simp_all add: set_users_def set_invites_def set_agent_tokens_def)

lemma create_user_fst [simp]:
  "users (fst (create_user oc now rnd k s)) =
     (if users s k \<noteq> None then users s else (users s)(k \<mapsto>
        \<lparr>user_id = rnd, user_name = k, user_credentials = [], user_totp = [], user_created = now\<rparr>))"
  "invites (fst (create_user oc now rnd k s)) = invites s"
  "agent_tokens (fst (create_user oc now rnd k s)) = agent_tokens s"
  by (simp_all add: create_user_def Let_def)

lemma put_user_fst [simp]:
  "users (fst (put_user oc u s)) = (users s)(user_name u \<mapsto> u)"
  "invites (fst (put_user oc u s)) = invites s"
  "agent_tokens (fst (put_user oc u s)) = agent_tokens s"
  by (simp_all add: put_user_def)

lemma create_invite_fst [simp]:
  "users (fst (create_invite oc now rnd k ttl s)) = users s"
  "invites (fst (create_invite oc now rnd k ttl s)) =
     (invites s)(random_token rnd \<mapsto> \<lparr>tok_username = k, tok_expires = now + ttl\<rparr>)"
  "agent_tokens (fst (create_invite oc now rnd k ttl s)) = agent_tokens s"
  by (simp_all add: create_invite_def Let_def)

lemma consume_invite_fst [simp]:
  "users (fst (consume_invite oc now t s)) = users s"
  "invites (fst (consume_invite oc now t s)) = (invites s)(t := None)"
  "agent_tokens (fst (consume_invite oc now t s)) = agent_tokens s"
  by (simp_all add: consume_invite_def Let_def split: option.split)

lemma save_io_ok [simp]: "snd (save io_ok s) = None"
  by (simp add: save_def io_ok_def Let_def)

lemma consume_invite_snd:
  "snd (consume_invite oc now t s) =
     (case peek_invite now t s of Inl e \<Rightarrow> Inl e
      | Inr k \<Rightarrow> (case snd (save oc (set_invites ((invites s)(t := None)) s)) of
          None \<Rightarrow> Inr k | Some e \<Rightarrow> Inl e))"
  by (simp add: consume_invite_def peek_invite_def save_return_snd Let_def split: option.split)

lemma create_agent_token_fst [simp]:
  "users (fst (create_agent_token oc now rnd ttl s)) = users s"
  "invites (fst (create_agent_token oc now rnd ttl s)) = invites s"
  "agent_tokens (fst (create_agent_token oc now rnd ttl s)) =
     (agent_tokens s)(random_token rnd \<mapsto> \<lparr>tok_username = [], tok_expires = now + ttl\<rparr>)"
  by (simp_all add: create_agent_token_def Let_def)

lemma check_agent_token_fst [simp]:
  "users (fst (check_agent_token oc now t s)) = users s"
  "invites (fst (check_agent_token oc now t s)) = invites s"
  "agent_tokens (fst (check_agent_token oc now t s)) = (agent_tokens s)(t := None)"
  by (auto simp: check_agent_token_def split: option.split)

lemma check_agent_token_snd:
  "snd (check_agent_token oc now t s) \<longleftrightarrow> (\<exists>a. agent_tokens s t = Some a \<and> now < tok_expires a)"
  by (simp add: check_agent_token_def split: option.split)

lemma update_user_frame [simp]:
  "users (update_user k f s) = (users s)(k := map_option f (users s k))"
  "invites (update_user k f s) = invites s" "agent_tokens (update_user k f s) = agent_tokens s"
  by (simp_all add: update_user_def)

text \<open>The same, for a call whose result has been taken apart.\<close>

lemma create_userD:
  assumes "create_user oc now rnd k s = (s', r)"
  shows "invites s' = invites s" "agent_tokens s' = agent_tokens s"
    "users s' = (if users s k \<noteq> None then users s else (users s)(k \<mapsto>
        \<lparr>user_id = rnd, user_name = k, user_credentials = [], user_totp = [], user_created = now\<rparr>))"
  using create_user_fst [of oc now rnd k s] by (simp_all add: assms)

lemma put_userD:
  assumes "put_user oc u s = (s', r)"
  shows "users s' = (users s)(user_name u \<mapsto> u)" "invites s' = invites s"
    "agent_tokens s' = agent_tokens s"
  using put_user_fst [of oc u s] by (simp_all add: assms)

lemma create_inviteD:
  assumes "create_invite oc now rnd k ttl s = (s', r)"
  shows "users s' = users s" "agent_tokens s' = agent_tokens s"
    "invites s' = (invites s)(random_token rnd \<mapsto> \<lparr>tok_username = k, tok_expires = now + ttl\<rparr>)"
  using create_invite_fst [of oc now rnd k ttl s] by (simp_all add: assms)

lemma create_agent_tokenD:
  assumes "create_agent_token oc now rnd ttl s = (s', r)"
  shows "users s' = users s" "invites s' = invites s"
    "agent_tokens s' = (agent_tokens s)(random_token rnd \<mapsto> \<lparr>tok_username = [], tok_expires = now + ttl\<rparr>)"
  using create_agent_token_fst [of oc now rnd ttl s] by (simp_all add: assms)

lemma check_agent_tokenD:
  assumes "check_agent_token oc now t s = (s', ok)"
  shows "users s' = users s" "invites s' = invites s" "agent_tokens s' = (agent_tokens s)(t := None)"
    "ok \<longleftrightarrow> (\<exists>a. agent_tokens s t = Some a \<and> now < tok_expires a)"
  using check_agent_token_fst [of oc now t s] check_agent_token_snd [of oc now t s]
  by (simp_all add: assms)

lemmas store_opsD = create_userD put_userD create_inviteD create_agent_tokenD check_agent_tokenD

lemma get_user_Inr [simp]: "get_user k s = Inr u \<longleftrightarrow> users s k = Some u"
  by (simp add: get_user_def split: option.split)

lemma get_user_Inl: "get_user k s = Inl x \<longleftrightarrow> users s k = None \<and> x = ErrNotFound"
  by (auto simp: get_user_def split: option.split)

section \<open>Runs of the store\<close>

datatype store_op =
    OpCreateUser io int bytes string
  | OpPutUser io user
  | OpCreateInvite io int bytes string int
  | OpConsumeInvite io int string
  | OpCreateAgentToken io int bytes int
  | OpCheckAgentToken io int string

fun store_step :: "store_op \<Rightarrow> store \<Rightarrow> store" where
  "store_step (OpCreateUser oc now rnd k) s = fst (create_user oc now rnd k s)"
| "store_step (OpPutUser oc u) s = fst (put_user oc u s)"
| "store_step (OpCreateInvite oc now rnd k ttl) s = fst (create_invite oc now rnd k ttl s)"
| "store_step (OpConsumeInvite oc now t) s = fst (consume_invite oc now t s)"
| "store_step (OpCreateAgentToken oc now rnd ttl) s = fst (create_agent_token oc now rnd ttl s)"
| "store_step (OpCheckAgentToken oc now t) s = fst (check_agent_token oc now t s)"

text \<open>Every user is filed under its own name.\<close>

definition store_wf :: "store \<Rightarrow> bool" where
  "store_wf s \<longleftrightarrow> (\<forall>k u. users s k = Some u \<longrightarrow> user_name u = k)"

lemma store_wf_step: "store_wf s \<Longrightarrow> store_wf (store_step e s)"
  by (cases e) (auto simp: store_wf_def)

interpretation store: stepper store_step store_wf
  by unfold_locales (rule store_wf_step)

fun checks_token :: "string \<Rightarrow> store_op \<Rightarrow> store \<Rightarrow> bool" where
  "checks_token t (OpCheckAgentToken oc now t') s = (t' = t \<and> snd (check_agent_token oc now t s))"
| "checks_token t _ s = False"

fun mints_token :: "string \<Rightarrow> store_op \<Rightarrow> store \<Rightarrow> bool" where
  "mints_token t (OpCreateAgentToken oc now rnd ttl) s = (random_token rnd = t)"
| "mints_token t _ s = False"

interpretation agent_token: single_use store_step checks_token mints_token
  "\<lambda>t s. agent_tokens s t \<noteq> None"
proof unfold_locales
  fix t e s
  show "checks_token t e s \<Longrightarrow> agent_tokens s t \<noteq> None"
    by (cases e) (auto simp: check_agent_token_snd)
  show "checks_token t e s \<Longrightarrow> \<not> agent_tokens (store_step e s) t \<noteq> None"
    by (cases e) auto
  show "agent_tokens (store_step e s) t \<noteq> None \<Longrightarrow> agent_tokens s t \<noteq> None \<or> mints_token t e s"
    by (cases e) (auto split: if_splits)
qed

fun spends_invite :: "string \<Rightarrow> store_op \<Rightarrow> store \<Rightarrow> bool" where
  "spends_invite t (OpConsumeInvite oc now t') s =
     (t' = t \<and> (\<exists>k. snd (consume_invite oc now t s) = Inr k))"
| "spends_invite t _ s = False"

fun mints_invite :: "string \<Rightarrow> store_op \<Rightarrow> store \<Rightarrow> bool" where
  "mints_invite t (OpCreateInvite oc now rnd k ttl) s = (random_token rnd = t)"
| "mints_invite t _ s = False"

interpretation invite: single_use store_step spends_invite mints_invite
  "\<lambda>t s. invites s t \<noteq> None"
proof unfold_locales
  fix t e s
  show "spends_invite t e s \<Longrightarrow> invites s t \<noteq> None"
    by (cases e) (auto simp: consume_invite_def Let_def split: option.splits)
  show "spends_invite t e s \<Longrightarrow> \<not> invites (store_step e s) t \<noteq> None"
    by (cases e) auto
  show "invites (store_step e s) t \<noteq> None \<Longrightarrow> invites s t \<noteq> None \<or> mints_invite t e s"
    by (cases e) (auto split: if_splits)
qed

section \<open>The file\<close>

lemma tmp_path_neq [simp]: "tmp_path p \<noteq> p" "p \<noteq> tmp_path p"
  by (simp_all add: tmp_path_def)

text \<open>Whatever a save does, the file at the store's path is the old one or the new snapshot.\<close>

lemma save_file:
  "st_disk (fst (save oc s)) (st_path s) = st_disk s (st_path s) \<or>
   st_disk (fst (save oc s)) (st_path s) = Some (Saved (st_data s))"
  by (auto simp: save_def Let_def split: write_outcome.splits)

lemma save_ok_file:
  "snd (save oc s) = None \<Longrightarrow> st_path s \<noteq> [] \<Longrightarrow>
   st_disk (fst (save oc s)) (st_path s) = Some (Saved (st_data s))"
  by (auto simp: save_def Let_def split: write_outcome.splits if_splits)

text \<open>Every operation that changes the data ends with a save of the changed data.\<close>

lemma store_step_saves:
  "(\<exists>oc s'. store_step e s = fst (save oc s') \<and> st_path s' = st_path s \<and> st_disk s' = st_disk s)
   \<or> store_step e s = s"
proof (cases e)
  case (OpCreateUser oc now rnd k)
  then show ?thesis by (auto simp: create_user_def Let_def intro!: exI [of _ oc] exI)
next
  case (OpCheckAgentToken oc now t)
  then show ?thesis
    by (auto simp: check_agent_token_def split: option.split intro!: exI [of _ oc] exI)
next
  case (OpConsumeInvite oc now t)
  then show ?thesis
    by (auto simp: consume_invite_def Let_def split: option.split intro!: exI [of _ oc] exI)
qed (auto simp: put_user_def create_invite_def create_agent_token_def Let_def intro!: exI)

lemma store_step_path [simp]: "st_path (store_step e s) = st_path s"
  using store_step_saves [of e s] by auto

lemma store_step_file:
  "st_disk (store_step e s) (st_path s) = st_disk s (st_path s) \<or>
   st_disk (store_step e s) (st_path s) = Some (Saved (st_data (store_step e s)))"
  using store_step_saves [of e s]
proof (elim disjE exE conjE)
  fix oc s' assume "store_step e s = fst (save oc s')" "st_path s' = st_path s" "st_disk s' = st_disk s"
  then show ?thesis using save_file [of oc s'] by simp
qed simp

lemma store_run_path [simp]: "st_path (fold store_step es s) = st_path s"
  by (induction es arbitrary: s) simp_all

section \<open>Properties\<close>

text \<open>
  Enrollment tokens are single use: along any run of store operations, whatever the
  clock, the random bytes and the save outcomes, \<open>CheckAgentToken\<close> answers true for a
  token at most once per time the token was minted, plus once if it was in the store at
  the start.
\<close>

theorem agent_token_single_use:
  "run_count (checks_token t) store_step es s
     \<le> run_count (mints_token t) store_step es s + (if agent_tokens s t = None then 0 else 1)"
  using agent_token.redeem_bound [of t es s] by (simp split: if_splits)

text \<open>
  Invites are single use in the same sense: \<open>ConsumeInvite\<close> succeeds for a token at
  most once per time it was minted, plus once if it was in the store at the start.
\<close>

theorem invite_single_use:
  "run_count (spends_invite t) store_step es s
     \<le> run_count (mints_invite t) store_step es s + (if invites s t = None then 0 else 1)"
  using invite.redeem_bound [of t es s] by (simp split: if_splits)

text \<open>
  \<open>CheckAgentToken\<close> accepts exactly the tokens that are in the store and expire
  strictly later than now, and whatever its answer the token is gone afterwards while
  users, invites and every other token are as they were.
\<close>

theorem check_agent_token_exact:
  "snd (check_agent_token oc now t s) = (case agent_tokens s t of None \<Rightarrow> False | Some a \<Rightarrow> now < tok_expires a)
   \<and> agent_tokens (fst (check_agent_token oc now t s)) = (agent_tokens s)(t := None)
   \<and> users (fst (check_agent_token oc now t s)) = users s
   \<and> invites (fst (check_agent_token oc now t s)) = invites s"
  by (auto simp: check_agent_token_snd split: option.splits)

fun touches_invite :: "string \<Rightarrow> store_op \<Rightarrow> bool" where
  "touches_invite t (OpCreateInvite oc now rnd k ttl) = (random_token rnd = t)"
| "touches_invite t (OpConsumeInvite oc now t') = (t' = t)"
| "touches_invite t _ = False"

lemma untouched_invite:
  "\<forall>e\<in>set es. \<not> touches_invite t e \<Longrightarrow> invites (fold store_step es s) t = invites s t"
proof (induction es arbitrary: s)
  case (Cons e es)
  have "invites (store_step e s) t = invites s t" using Cons.prems by (cases e) auto
  with Cons show ?case by simp
qed simp

text \<open>
  The life of an invite: from its creation, and until an operation on that very token,
  \<open>PeekInvite\<close> answers the invited user name up to and including the moment of expiry and
  \<open>ErrNotFound\<close> after it; consuming it answers the same and ends its life.
\<close>

theorem invite_lifecycle:
  assumes "\<forall>e\<in>set es. \<not> touches_invite (random_token rnd) e"
    and "s' = fold store_step es (fst (create_invite oc now rnd k ttl s))"
  shows "peek_invite n (random_token rnd) s' = (if n \<le> now + ttl then Inr k else Inl ErrNotFound)
    \<and> snd (consume_invite io_ok n (random_token rnd) s') = (if n \<le> now + ttl then Inr k else Inl ErrNotFound)
    \<and> peek_invite n' (random_token rnd) (fst (consume_invite oc' n (random_token rnd) s')) = Inl ErrNotFound"
proof -
  have "invites s' (random_token rnd) = Some \<lparr>tok_username = k, tok_expires = now + ttl\<rparr>"
    using untouched_invite [OF assms(1)] by (simp add: assms(2))
  then show ?thesis
    by (simp add: peek_invite_def consume_invite_snd)
qed

definition example_store :: store where
  "example_store = \<lparr>st_path = ''a.json'', st_data = empty_data, st_disk = Map.empty\<rparr>"

theorem invite_lifecycle_witness:
  "peek_invite 50 (random_token [7]) (fold store_step [OpCheckAgentToken io_ok 3 ''x'', OpConsumeInvite io_ok 4 ''08'']
      (fst (create_invite io_ok 0 [7] ''alice'' 60 example_store))) = Inr ''alice''"
proof -
  have "\<forall>e\<in>set [OpCheckAgentToken io_ok 3 ''x'', OpConsumeInvite io_ok 4 ''08''].
      \<not> touches_invite (random_token [7]) e"
    by (simp add: hex_digits_def)
  from invite_lifecycle [OF this refl, of 50] show ?thesis by simp
qed

text \<open>
  C21. Crash safety of the store file: after any run, with saves failing at any stage, the
  file at the store's path is the one it started with or a complete snapshot of a state
  the store passed through; it is never partly written.
\<close>

theorem store_file_never_torn:
  "st_disk (fold store_step es s) (st_path s) = st_disk s (st_path s) \<or>
   (\<exists>n\<le>length es. st_disk (fold store_step es s) (st_path s)
      = Some (Saved (st_data (fold store_step (take n es) s))))"
proof (induction es rule: rev_induct)
  case (snoc e es)
  have "st_disk (store_step e (fold store_step es s)) (st_path s) = st_disk (fold store_step es s) (st_path s) \<or>
    st_disk (store_step e (fold store_step es s)) (st_path s)
      = Some (Saved (st_data (store_step e (fold store_step es s))))"
    using store_step_file [of e "fold store_step es s"] by simp
  then show ?case
  proof
    assume eq: "st_disk (store_step e (fold store_step es s)) (st_path s) = st_disk (fold store_step es s) (st_path s)"
    from snoc.IH show ?thesis
    proof
      assume "\<exists>n\<le>length es. st_disk (fold store_step es s) (st_path s)
        = Some (Saved (st_data (fold store_step (take n es) s)))"
      then obtain n where "n \<le> length es" "st_disk (fold store_step es s) (st_path s)
        = Some (Saved (st_data (fold store_step (take n es) s)))" by blast
      then show ?thesis by (intro disjI2 exI [of _ n]) (simp add: eq)
    qed (simp add: eq)
  qed (auto intro!: exI [of _ "Suc (length es)"])
qed simp

fun op_saved :: "store_op \<Rightarrow> store \<Rightarrow> bool" where
  "op_saved (OpCreateUser oc now rnd k) s = (\<exists>u. snd (create_user oc now rnd k s) = Inr u)"
| "op_saved (OpPutUser oc u) s = (snd (put_user oc u s) = None)"
| "op_saved (OpCreateInvite oc now rnd k ttl) s = (\<exists>t. snd (create_invite oc now rnd k ttl s) = Inr t)"
| "op_saved (OpConsumeInvite oc now t) s = (\<exists>k. snd (consume_invite oc now t s) = Inr k)"
| "op_saved (OpCreateAgentToken oc now rnd ttl) s = (\<exists>t. snd (create_agent_token oc now rnd ttl s) = Inr t)"
| "op_saved (OpCheckAgentToken oc now t) s = False"

lemma save_exhibit:
  "snd (save oc t) = None \<Longrightarrow> st_path t = p \<Longrightarrow>
   \<exists>oc' s'. fst (save oc t) = fst (save oc' s') \<and> snd (save oc' s') = None \<and> st_path s' = p"
  by blast

lemma op_saved_save:
  "op_saved e s \<Longrightarrow> \<exists>oc s'. store_step e s = fst (save oc s') \<and> snd (save oc s') = None \<and> st_path s' = st_path s"
  by (cases e)
     (auto simp: create_user_def put_user_def create_invite_def create_agent_token_def
        consume_invite_def save_return_snd Let_def
        split: option.splits if_splits intro!: save_exhibit)

text \<open>
  Durability: when a changing operation of a file-backed store reports success,
  opening the file again gives back exactly the store after the operation.
\<close>

theorem reopen_after_success:
  assumes "op_saved e s" and "st_path s \<noteq> []"
  shows "open_store True (st_path s) (st_disk (store_step e s)) = Inr (store_step e s)"
proof -
  obtain oc s' where s': "store_step e s = fst (save oc s')" "snd (save oc s') = None"
      "st_path s' = st_path s"
    using op_saved_save [OF assms(1)] by blast
  then have "st_disk (store_step e s) (st_path s) = Some (Saved (st_data s'))"
    using save_ok_file [of oc s'] assms(2) by simp
  moreover have "store_step e s = \<lparr>st_path = st_path s, st_data = st_data s', st_disk = st_disk (store_step e s)\<rparr>"
    using s' by (cases "store_step e s") (metis save_frame store.select_convs)
  ultimately show ?thesis using assms(2) by (simp add: open_store_def Let_def)
qed

theorem reopen_after_success_witness:
  "open_store True ''a.json'' (st_disk (store_step (OpCreateUser io_ok 5 [1, 2] ''bob'') example_store))
     = Inr (store_step (OpCreateUser io_ok 5 [1, 2] ''bob'') example_store)"
proof -
  have "op_saved (OpCreateUser io_ok 5 [1, 2] ''bob'') example_store"
    by (simp add: create_user_def save_return_snd example_store_def empty_data_def Let_def)
  moreover have "st_path example_store = ''a.json''" by (simp add: example_store_def)
  ultimately show ?thesis
    using reopen_after_success [of "OpCreateUser io_ok 5 [1, 2] ''bob''" example_store] by simp
qed

text \<open>
  C29. The single use of a token does not survive a restart after a failed save: when the
  save inside \<open>CheckAgentToken\<close> fails, the file still holds the token, the acceptance is
  reported all the same, and the reopened store accepts the token again.
\<close>

theorem failed_save_revives_token:
  assumes "st_path s \<noteq> []" and "st_disk s (st_path s) = Some (Saved (st_data s))"
    and "agent_tokens s t = Some a" and "n' < tok_expires a" and "n \<le> n'"
    and "snd (save oc s) \<noteq> None"
  shows "\<exists>s'. snd (check_agent_token oc n t s) \<and>
    open_store True (st_path s) (st_disk (fst (check_agent_token oc n t s))) = Inr s' \<and>
    snd (check_agent_token oc' n' t s')"
proof -
  let ?s = "set_agent_tokens ((agent_tokens s)(t := None)) s"
  have "st_disk (fst (save oc ?s)) (st_path s) = st_disk s (st_path s)"
    using assms(1,6) by (auto simp: save_def Let_def split: write_outcome.splits if_splits)
  then show ?thesis
    using assms by (simp add: check_agent_token_def open_store_def Let_def)
qed

theorem failed_save_revives_token_witness:
  "snd (check_agent_token (io_ok\<lparr>io_write := WriteRefused\<rparr>) 3 ''t'' \<lparr>st_path = ''a.json'',
     st_data = empty_data\<lparr>d_agent_tokens := [''t'' \<mapsto> \<lparr>tok_username = [], tok_expires = 9\<rparr>]\<rparr>,
     st_disk = [''a.json'' \<mapsto> Saved (empty_data\<lparr>d_agent_tokens := [''t'' \<mapsto> \<lparr>tok_username = [], tok_expires = 9\<rparr>]\<rparr>)]\<rparr>)"
  using failed_save_revives_token [of "\<lparr>st_path = ''a.json'',
     st_data = empty_data\<lparr>d_agent_tokens := [''t'' \<mapsto> \<lparr>tok_username = [], tok_expires = 9\<rparr>]\<rparr>,
     st_disk = [''a.json'' \<mapsto> Saved (empty_data\<lparr>d_agent_tokens := [''t'' \<mapsto> \<lparr>tok_username = [], tok_expires = 9\<rparr>]\<rparr>)]\<rparr>"
     "''t''" "\<lparr>tok_username = [], tok_expires = 9\<rparr>" 4 3 "io_ok\<lparr>io_write := WriteRefused\<rparr>" io_ok]
  by (simp add: save_def io_ok_def Let_def)

end
