(* ===== verification/AuthSession.thy ===== *)
theory AuthSession
  imports AuthStore Protocol
begin

text \<open>
  The per-browser sessions of the identity service (\<open>internal/auth/session.go\<close>). The map
  holds pointers; a session id is its key, so a handler's assignment to a field of a
  session is \<open>ss_update\<close> at that key. The data of a pending WebAuthn ceremony
  (\<open>webauthn.SessionData\<close>, third party) is a type parameter. Times are in nanoseconds.
\<close>

section \<open>Sessions\<close>

record 'sd session =
  ses_username :: string
  ses_authenticated :: bool
  ses_ceremony :: "'sd option"
  ses_pending_invite :: string
  ses_pending_totp :: string
  ses_expires :: int

record 'sd sessions =
  ss_map :: "string \<rightharpoonup> 'sd session"
  ss_secure :: bool

record cookie =
  ck_name :: string
  ck_value :: string
  ck_path :: string
  ck_http_only :: bool
  ck_secure :: bool
  ck_lax :: bool
  ck_max_age :: int

definition cookie_name :: string where
  "cookie_name = ''mm_session''"

definition session_ttl :: int where
  "session_ttl = 12 * 3600 * 1000000000"

definition new_sessions :: "bool \<Rightarrow> 'sd sessions" where
  "new_sessions secure = \<lparr>ss_map = Map.empty, ss_secure = secure\<rparr>"

definition ss_update :: "string \<Rightarrow> ('sd session \<Rightarrow> 'sd session) \<Rightarrow> 'sd sessions \<Rightarrow> 'sd sessions" where
  "ss_update i f ss = ss\<lparr>ss_map := (ss_map ss)(i := map_option f (ss_map ss i))\<rparr>"

text \<open>\<open>cookie\<close> is the value of the request's \<open>mm_session\<close> cookie, if it has one.\<close>

definition sessions_get :: "int \<Rightarrow> string option \<Rightarrow> 'sd sessions \<Rightarrow> (string \<times> 'sd session) option" where
  "sessions_get now cookie ss =
     (case cookie of
        None \<Rightarrow> None
      | Some v \<Rightarrow>
          (case ss_map ss v of
             None \<Rightarrow> None
           | Some s \<Rightarrow> if ses_expires s < now then None else Some (v, s)))"

definition fresh_session :: "int \<Rightarrow> 'sd session" where
  "fresh_session now = \<lparr>ses_username = [], ses_authenticated = False, ses_ceremony = None,
     ses_pending_invite = [], ses_pending_totp = [], ses_expires = now + session_ttl\<rparr>"

text \<open>The id of the session to use, the sessions, and the cookie to set if it is new.\<close>

definition sessions_get_or_create ::
    "int \<Rightarrow> bytes \<Rightarrow> string option \<Rightarrow> 'sd sessions \<Rightarrow> string \<times> 'sd sessions \<times> cookie list" where
  "sessions_get_or_create now rnd cookie ss =
     (case sessions_get now cookie ss of
        Some (i, s) \<Rightarrow> (i, ss, [])
      | None \<Rightarrow>
          let i = random_token rnd
          in (i, ss\<lparr>ss_map := (ss_map ss)(i \<mapsto> fresh_session now)\<rparr>,
              [\<lparr>ck_name = cookie_name, ck_value = i, ck_path = ''/'', ck_http_only = True,
                ck_secure = ss_secure ss, ck_lax = True, ck_max_age = 12 * 3600\<rparr>]))"

definition sessions_destroy :: "string option \<Rightarrow> 'sd sessions \<Rightarrow> 'sd sessions \<times> cookie list" where
  "sessions_destroy cookie ss =
     ((case cookie of None \<Rightarrow> ss | Some v \<Rightarrow> ss\<lparr>ss_map := (ss_map ss)(v := None)\<rparr>),
      [\<lparr>ck_name = cookie_name, ck_value = [], ck_path = ''/'', ck_http_only = False,
        ck_secure = False, ck_lax = False, ck_max_age = -1\<rparr>])"

section \<open>Facts\<close>

lemma ss_update_map [simp]: "ss_map (ss_update i f ss) = (ss_map ss)(i := map_option f (ss_map ss i))"
  by (simp add: ss_update_def)

lemma sessions_get_Some:
  "sessions_get now c ss = Some (i, s) \<longleftrightarrow> c = Some i \<and> ss_map ss i = Some s \<and> now \<le> ses_expires s"
  by (auto simp: sessions_get_def split: option.splits if_splits)

lemma sessions_get_None_cookie [simp]: "sessions_get now None ss = None"
  by (simp add: sessions_get_def)

lemma get_or_create_entry:
  "sessions_get_or_create now rnd c ss = (i, ss', cs) \<Longrightarrow>
   \<exists>s. ss_map ss' = (ss_map ss)(i \<mapsto> s) \<and>
     (ss_map ss i = Some s \<and> c = Some i \<and> now \<le> ses_expires s \<and> cs = []
      \<or> i = random_token rnd \<and> s = fresh_session now)"
  by (force simp: sessions_get_or_create_def sessions_get_Some Let_def map_upd_triv
      split: option.splits prod.splits)

end
