(* ===== verification/AuthServer.thy ===== *)
theory AuthServer
  imports AuthSession
begin

text \<open>
  The HTTP identity service (\<open>internal/auth/server.go\<close>, \<open>totp.go\<close>): every handler, the
  routing table and the CORS wrapper. The WebAuthn and TOTP libraries are third-party code
  and a parameter \<open>lib\<close> of the handlers; the clock, the random draws and the save outcomes of
  one request are its \<open>env\<close>. Each handler runs here as one step at one
  instant; \<open>AuthConcurrent\<close> has the handlers as programs that are interrupted.
\<close>

section \<open>Parameters and requests\<close>

record auth_config =
  cfg_rpid :: string
  cfg_rp_name :: string
  cfg_rp_origins :: "string list"
  cfg_cors_origins :: "string list"
  cfg_cookie_secure :: bool
  cfg_invite_ttl :: int
  cfg_agent_token_ttl :: int

record request =
  rq_method :: string
  rq_path :: string
  rq_cookie :: "string option"
  rq_origin :: string
  rq_body :: string

record 'sd auth_lib =
  lib_new :: "auth_config \<Rightarrow> string option"
  lib_begin_registration :: "user \<Rightarrow> bytes \<Rightarrow> string + (json \<times> 'sd)"
  lib_finish_registration :: "user \<Rightarrow> 'sd \<Rightarrow> request \<Rightarrow> string + credential"
  lib_begin_login :: "user \<Rightarrow> bytes \<Rightarrow> string + (json \<times> 'sd)"
  lib_finish_login :: "user \<Rightarrow> 'sd \<Rightarrow> request \<Rightarrow> string + credential"
  lib_totp_generate :: "string \<Rightarrow> string \<Rightarrow> bytes \<Rightarrow> string + (string \<times> string)"
  lib_totp_validate :: "int \<Rightarrow> string \<Rightarrow> string \<Rightarrow> bool"

text \<open>One request's clock, its random draws in order, and the outcomes of its saves in order.\<close>

record env =
  e_now :: int
  e_rand :: "nat \<Rightarrow> bytes"
  e_io :: "nat \<Rightarrow> io"

record 'sd server =
  sv_cfg :: auth_config
  sv_store :: store
  sv_sess :: "'sd sessions"

record response =
  rs_status :: nat
  rs_body :: "json option"
  rs_cookies :: "cookie list"
  rs_headers :: "(string \<times> string) list"

section \<open>JSON helpers\<close>

text \<open>
  Decoding an object into a struct of string fields. Unknown members are skipped, null
  leaves a field alone, any other value that is not a string is an error.
\<close>

definition decode_string_field :: "string list \<Rightarrow> string \<times> json \<Rightarrow> (string \<Rightarrow> string) \<times> bool \<Rightarrow> (string \<Rightarrow> string) \<times> bool" where
  "decode_string_field names kv acc =
     (let k = (if fst kv \<in> set names then fst kv else fold_name (fst kv)) in
      if k \<notin> set names then acc
      else case snd kv of
          JStr v \<Rightarrow> ((fst acc)(k := v), snd acc)
        | JNull \<Rightarrow> acc
        | _ \<Rightarrow> (fst acc, False))"

definition read_json :: "string list \<Rightarrow> string \<Rightarrow> (string \<Rightarrow> string) option" where
  "read_json names body =
     (case parse_first body of
        None \<Rightarrow> None
      | Some JNull \<Rightarrow> Some (\<lambda>_. [])
      | Some (JObj ms) \<Rightarrow>
          (case fold (decode_string_field names) ms (\<lambda>_. [], True) of
             (m, ok) \<Rightarrow> if ok then Some m else None)
      | Some _ \<Rightarrow> None)"

definition write_json :: "nat \<Rightarrow> json \<Rightarrow> response" where
  "write_json status v = \<lparr>rs_status = status, rs_body = Some v, rs_cookies = [], rs_headers = []\<rparr>"

definition http_error :: "nat \<Rightarrow> string \<Rightarrow> response" where
  "http_error status m = write_json status (JObj [(''message'', JStr m), (''status'', JStr ''error'')])"

definition with_cookies :: "cookie list \<Rightarrow> response \<Rightarrow> response" where
  "with_cookies cs r = r\<lparr>rs_cookies := cs @ rs_cookies r\<rparr>"

text \<open>\<open>err.Error()\<close>; the text of an operating-system error is abstracted to its kind.\<close>

fun err_text :: "auth_err \<Rightarrow> string" where
  "err_text ErrNotFound = ''not found''"
| "err_text ErrTaken = ''username already registered''"
| "err_text ErrMarshal = ''marshal''"
| "err_text ErrMkdir = ''mkdir''"
| "err_text ErrWrite = ''write''"
| "err_text ErrRename = ''rename''"
| "err_text ErrRead = ''read''"
| "err_text ErrJSON = ''json''"
| "err_text (ErrLib m) = m"

section \<open>Construction\<close>

definition hour :: int where "hour = 3600 * 1000000000"
definition minute :: int where "minute = 60 * 1000000000"

definition new_server :: "'sd auth_lib \<Rightarrow> auth_config \<Rightarrow> store \<Rightarrow> string + 'sd server" where
  "new_server lib cfg st =
     (let cfg = (if cfg_rp_name cfg = [] then cfg\<lparr>cfg_rp_name := ''marshmallows''\<rparr> else cfg);
          cfg = (if cfg_invite_ttl cfg = 0 then cfg\<lparr>cfg_invite_ttl := 24 * hour\<rparr> else cfg);
          cfg = (if cfg_agent_token_ttl cfg = 0 then cfg\<lparr>cfg_agent_token_ttl := 60 * minute\<rparr> else cfg)
      in case lib_new lib cfg of
          Some e \<Rightarrow> Inl e
        | None \<Rightarrow> Inr \<lparr>sv_cfg = cfg, sv_store = st, sv_sess = new_sessions (cfg_cookie_secure cfg)\<rparr>)"

section \<open>WebAuthn registration\<close>

text \<open>The user that a registration is for: an existing one, or one made now.\<close>

definition register_user :: "env \<Rightarrow> string \<Rightarrow> store \<Rightarrow> store \<times> ((nat \<times> string) + user)" where
  "register_user e username st =
     (case get_user username st of
        Inr u \<Rightarrow> (st, Inr u)
      | Inl ErrNotFound \<Rightarrow>
          (case create_user (e_io e 0) (e_now e) (e_rand e 0) username st of
             (st', Inr u) \<Rightarrow> (st', Inr u)
           | (st', Inl x) \<Rightarrow> (st', Inl (409, err_text x)))
      | Inl x \<Rightarrow> (st, Inl (500, err_text x)))"

definition register_begin :: "'sd auth_lib \<Rightarrow> env \<Rightarrow> request \<Rightarrow> 'sd server \<Rightarrow> 'sd server \<times> response" where
  "register_begin lib e rq sv =
     (case read_json [''username'', ''invite_token''] (rq_body rq) of
        None \<Rightarrow> (sv, http_error 400 ''invalid JSON body'')
      | Some req \<Rightarrow>
          (case peek_invite (e_now e) (req ''invite_token'') (sv_store sv) of
             Inl _ \<Rightarrow> (sv, http_error 403 ''invalid or expired invite'')
           | Inr username \<Rightarrow>
               (case register_user e username (sv_store sv) of
                  (st, Inl (status, m)) \<Rightarrow> (sv\<lparr>sv_store := st\<rparr>, http_error status m)
                | (st, Inr user) \<Rightarrow>
                    (case lib_begin_registration lib user (e_rand e 1) of
                       Inl m \<Rightarrow> (sv\<lparr>sv_store := st\<rparr>, http_error 500 m)
                     | Inr (options, sd) \<Rightarrow>
                         (case sessions_get_or_create (e_now e) (e_rand e 2) (rq_cookie rq) (sv_sess sv) of
                            (i, ss, cs) \<Rightarrow>
                              (sv\<lparr>sv_store := st,
                                  sv_sess := ss_update i (\<lambda>s. s\<lparr>ses_username := username,
                                    ses_ceremony := Some sd,
                                    ses_pending_invite := req ''invite_token'',
                                    ses_authenticated := False\<rparr>) ss\<rparr>,
                               with_cookies cs (write_json 200 options)))))))"

definition register_finish :: "'sd auth_lib \<Rightarrow> env \<Rightarrow> request \<Rightarrow> 'sd server \<Rightarrow> 'sd server \<times> response" where
  "register_finish lib e rq sv =
     (case sessions_get (e_now e) (rq_cookie rq) (sv_sess sv) of
        None \<Rightarrow> (sv, http_error 400 ''no registration in progress'')
      | Some (i, s) \<Rightarrow>
          (case ses_ceremony s of
             None \<Rightarrow> (sv, http_error 400 ''no registration in progress'')
           | Some sd \<Rightarrow>
               if ses_username s = [] then (sv, http_error 400 ''no registration in progress'')
               else case get_user (ses_username s) (sv_store sv) of
                   Inl _ \<Rightarrow> (sv, http_error 400 ''unknown user'')
                 | Inr user \<Rightarrow>
                     (case lib_finish_registration lib user sd rq of
                        Inl m \<Rightarrow> (sv, http_error 400 (''registration failed: '' @ m))
                      | Inr cred \<Rightarrow>
                          (let user' = user\<lparr>user_credentials := user_credentials user @ [cred]\<rparr>;
                               st = update_user (ses_username s) (\<lambda>_. user') (sv_store sv)
                           in case put_user (e_io e 0) user' st of
                               (st, Some x) \<Rightarrow> (sv\<lparr>sv_store := st\<rparr>, http_error 500 (err_text x))
                             | (st, None) \<Rightarrow>
                                 (sv\<lparr>sv_store := fst (consume_invite (e_io e 1) (e_now e) (ses_pending_invite s) st),
                                     sv_sess := ss_update i (\<lambda>s. s\<lparr>ses_ceremony := None,
                                       ses_pending_invite := [], ses_authenticated := True\<rparr>) (sv_sess sv)\<rparr>,
                                  write_json 200 (JObj [(''ok'', JBool True),
                                    (''username'', JStr (user_name user'))]))))))"

section \<open>WebAuthn login\<close>

definition login_begin :: "'sd auth_lib \<Rightarrow> env \<Rightarrow> request \<Rightarrow> 'sd server \<Rightarrow> 'sd server \<times> response" where
  "login_begin lib e rq sv =
     (case read_json [''username''] (rq_body rq) of
        None \<Rightarrow> (sv, http_error 400 ''invalid JSON body'')
      | Some req \<Rightarrow>
          (case get_user (req ''username'') (sv_store sv) of
             Inl _ \<Rightarrow> (sv, http_error 401 ''unknown user'')
           | Inr user \<Rightarrow>
               (case lib_begin_login lib user (e_rand e 0) of
                  Inl m \<Rightarrow> (sv, http_error 500 m)
                | Inr (options, sd) \<Rightarrow>
                    (case sessions_get_or_create (e_now e) (e_rand e 1) (rq_cookie rq) (sv_sess sv) of
                       (i, ss, cs) \<Rightarrow>
                         (sv\<lparr>sv_sess := ss_update i (\<lambda>s. s\<lparr>ses_username := req ''username'',
                               ses_ceremony := Some sd, ses_authenticated := False\<rparr>) ss\<rparr>,
                          with_cookies cs (write_json 200 options))))))"

text \<open>The loop that stores the new signature counter in the credential that signed.\<close>

fun bump_sign_count :: "bytes \<Rightarrow> 32 word \<Rightarrow> credential list \<Rightarrow> credential list" where
  "bump_sign_count i n [] = []"
| "bump_sign_count i n (c # cs) =
     (if cred_id c = i then c\<lparr>cred_sign_count := n\<rparr> # cs else c # bump_sign_count i n cs)"

definition login_finish :: "'sd auth_lib \<Rightarrow> env \<Rightarrow> request \<Rightarrow> 'sd server \<Rightarrow> 'sd server \<times> response" where
  "login_finish lib e rq sv =
     (case sessions_get (e_now e) (rq_cookie rq) (sv_sess sv) of
        None \<Rightarrow> (sv, http_error 400 ''no login in progress'')
      | Some (i, s) \<Rightarrow>
          (case ses_ceremony s of
             None \<Rightarrow> (sv, http_error 400 ''no login in progress'')
           | Some sd \<Rightarrow>
               if ses_username s = [] then (sv, http_error 400 ''no login in progress'')
               else case get_user (ses_username s) (sv_store sv) of
                   Inl _ \<Rightarrow> (sv, http_error 401 ''unknown user'')
                 | Inr user \<Rightarrow>
                     (case lib_finish_login lib user sd rq of
                        Inl _ \<Rightarrow> (sv, http_error 401 ''login failed'')
                      | Inr cred \<Rightarrow>
                          (let user' = user\<lparr>user_credentials :=
                                 bump_sign_count (cred_id cred) (cred_sign_count cred) (user_credentials user)\<rparr>;
                               st = update_user (ses_username s) (\<lambda>_. user') (sv_store sv);
                               st = fst (put_user (e_io e 0) user' st);
                               ss = ss_update i (\<lambda>s. s\<lparr>ses_ceremony := None\<rparr>) (sv_sess sv)
                           in if has_totp user' then
                                (sv\<lparr>sv_store := st, sv_sess := ss\<rparr>,
                                 write_json 200 (JObj [(''ok'', JBool True), (''totp_required'', JBool True)]))
                              else
                                (sv\<lparr>sv_store := st, sv_sess := ss_update i (\<lambda>s. s\<lparr>ses_authenticated := True\<rparr>) ss\<rparr>,
                                 write_json 200 (JObj [(''ok'', JBool True), (''totp_required'', JBool False)]))))))"

section \<open>Authenticated requests\<close>

text \<open>\<open>requireAuth\<close>: the session id, the session and its user, or the refusal.\<close>

definition require_auth :: "env \<Rightarrow> request \<Rightarrow> 'sd server \<Rightarrow> response + (string \<times> 'sd session \<times> user)" where
  "require_auth e rq sv =
     (case sessions_get (e_now e) (rq_cookie rq) (sv_sess sv) of
        None \<Rightarrow> Inl (http_error 401 ''not authenticated'')
      | Some (i, s) \<Rightarrow>
          if \<not> ses_authenticated s then Inl (http_error 401 ''not authenticated'')
          else case get_user (ses_username s) (sv_store sv) of
              Inl _ \<Rightarrow> Inl (http_error 401 ''unknown user'')
            | Inr user \<Rightarrow> Inr (i, s, user))"

section \<open>TOTP\<close>

definition totp_verify :: "'sd auth_lib \<Rightarrow> env \<Rightarrow> request \<Rightarrow> 'sd server \<Rightarrow> 'sd server \<times> response" where
  "totp_verify lib e rq sv =
     (case sessions_get (e_now e) (rq_cookie rq) (sv_sess sv) of
        None \<Rightarrow> (sv, http_error 400 ''no login in progress'')
      | Some (i, s) \<Rightarrow>
          if ses_username s = [] then (sv, http_error 400 ''no login in progress'')
          else case read_json [''code''] (rq_body rq) of
              None \<Rightarrow> (sv, http_error 400 ''invalid JSON body'')
            | Some req \<Rightarrow>
                (case get_user (ses_username s) (sv_store sv) of
                   Inl _ \<Rightarrow> (sv, http_error 401 ''invalid code'')
                 | Inr user \<Rightarrow>
                     if \<not> has_totp user \<or> \<not> lib_totp_validate lib (e_now e) (req ''code'') (user_totp user)
                     then (sv, http_error 401 ''invalid code'')
                     else (sv\<lparr>sv_sess := ss_update i (\<lambda>s. s\<lparr>ses_authenticated := True\<rparr>) (sv_sess sv)\<rparr>,
                           write_json 200 (JObj [(''ok'', JBool True)]))))"

text \<open>\<open>generateTOTP\<close> fixes the issuer.\<close>

definition generate_totp :: "'sd auth_lib \<Rightarrow> string \<Rightarrow> bytes \<Rightarrow> string + (string \<times> string)" where
  "generate_totp lib account rnd = lib_totp_generate lib ''marshmallows'' account rnd"

definition totp_enroll :: "'sd auth_lib \<Rightarrow> env \<Rightarrow> request \<Rightarrow> 'sd server \<Rightarrow> 'sd server \<times> response" where
  "totp_enroll lib e rq sv =
     (case require_auth e rq sv of
        Inl r \<Rightarrow> (sv, r)
      | Inr (i, s, user) \<Rightarrow>
          (case generate_totp lib (user_name user) (e_rand e 0) of
             Inl m \<Rightarrow> (sv, http_error 500 m)
           | Inr (secret, url) \<Rightarrow>
               (sv\<lparr>sv_sess := ss_update i (\<lambda>s. s\<lparr>ses_pending_totp := secret\<rparr>) (sv_sess sv)\<rparr>,
                write_json 200 (JObj [(''otpauth_url'', JStr url), (''secret'', JStr secret)]))))"

definition totp_confirm :: "'sd auth_lib \<Rightarrow> env \<Rightarrow> request \<Rightarrow> 'sd server \<Rightarrow> 'sd server \<times> response" where
  "totp_confirm lib e rq sv =
     (case require_auth e rq sv of
        Inl r \<Rightarrow> (sv, r)
      | Inr (i, s, user) \<Rightarrow>
          (case read_json [''code''] (rq_body rq) of
             None \<Rightarrow> (sv, http_error 400 ''invalid JSON body'')
           | Some req \<Rightarrow>
               if ses_pending_totp s = [] \<or>
                  \<not> lib_totp_validate lib (e_now e) (req ''code'') (ses_pending_totp s)
               then (sv, http_error 400 ''invalid code'')
               else
                 (let user' = user\<lparr>user_totp := ses_pending_totp s\<rparr>;
                      st = update_user (ses_username s) (\<lambda>_. user') (sv_store sv);
                      ss = ss_update i (\<lambda>s. s\<lparr>ses_pending_totp := []\<rparr>) (sv_sess sv)
                  in case put_user (e_io e 0) user' st of
                      (st, Some x) \<Rightarrow> (sv\<lparr>sv_store := st, sv_sess := ss\<rparr>, http_error 500 (err_text x))
                    | (st, None) \<Rightarrow> (sv\<lparr>sv_store := st, sv_sess := ss\<rparr>,
                        write_json 200 (JObj [(''ok'', JBool True)])))))"

section \<open>Invites and device tokens\<close>

definition handle_create_invite :: "env \<Rightarrow> request \<Rightarrow> 'sd server \<Rightarrow> 'sd server \<times> response" where
  "handle_create_invite e rq sv =
     (case require_auth e rq sv of
        Inl r \<Rightarrow> (sv, r)
      | Inr _ \<Rightarrow>
          (case read_json [''username''] (rq_body rq) of
             None \<Rightarrow> (sv, http_error 400 ''invalid JSON body'')
           | Some req \<Rightarrow>
               if req ''username'' = [] then (sv, http_error 400 ''username required'')
               else case create_invite (e_io e 0) (e_now e) (e_rand e 0) (req ''username'')
                       (cfg_invite_ttl (sv_cfg sv)) (sv_store sv) of
                   (st, Inl x) \<Rightarrow> (sv\<lparr>sv_store := st\<rparr>, http_error 500 (err_text x))
                 | (st, Inr tok) \<Rightarrow> (sv\<lparr>sv_store := st\<rparr>, write_json 200 (JObj [(''token'', JStr tok)]))))"

definition handle_create_agent_token :: "env \<Rightarrow> request \<Rightarrow> 'sd server \<Rightarrow> 'sd server \<times> response" where
  "handle_create_agent_token e rq sv =
     (case require_auth e rq sv of
        Inl r \<Rightarrow> (sv, r)
      | Inr _ \<Rightarrow>
          (case create_agent_token (e_io e 0) (e_now e) (e_rand e 0)
                  (cfg_agent_token_ttl (sv_cfg sv)) (sv_store sv) of
             (st, Inl x) \<Rightarrow> (sv\<lparr>sv_store := st\<rparr>, http_error 500 (err_text x))
           | (st, Inr tok) \<Rightarrow> (sv\<lparr>sv_store := st\<rparr>, write_json 200 (JObj [(''token'', JStr tok)]))))"

definition agent_check :: "env \<Rightarrow> request \<Rightarrow> 'sd server \<Rightarrow> 'sd server \<times> response" where
  "agent_check e rq sv =
     (case read_json [''token''] (rq_body rq) of
        None \<Rightarrow> (sv, http_error 400 ''invalid JSON body'')
      | Some req \<Rightarrow>
          (case check_agent_token (e_io e 0) (e_now e) (req ''token'') (sv_store sv) of
             (st, ok) \<Rightarrow>
               (sv\<lparr>sv_store := st\<rparr>,
                if ok then write_json 200 (JObj [(''status'', JStr ''ok'')])
                else write_json 200 (JObj [(''message'', JStr ''Invalid token''), (''status'', JStr ''error'')]))))"

section \<open>Session introspection and logout\<close>

definition session_info :: "env \<Rightarrow> request \<Rightarrow> 'sd server \<Rightarrow> 'sd server \<times> response" where
  "session_info e rq sv =
     (sv, case sessions_get (e_now e) (rq_cookie rq) (sv_sess sv) of
        None \<Rightarrow> http_error 401 ''not authenticated''
      | Some (i, s) \<Rightarrow>
          if \<not> ses_authenticated s then http_error 401 ''not authenticated''
          else
            (let totp = (case get_user (ses_username s) (sv_store sv) of
                           Inl _ \<Rightarrow> False | Inr user \<Rightarrow> has_totp user)
             in write_json 200 (JObj [(''totp'', JBool totp), (''username'', JStr (ses_username s))])))"

definition handle_logout :: "request \<Rightarrow> 'sd server \<Rightarrow> 'sd server \<times> response" where
  "handle_logout rq sv =
     (case sessions_destroy (rq_cookie rq) (sv_sess sv) of
        (ss, cs) \<Rightarrow> (sv\<lparr>sv_sess := ss\<rparr>, with_cookies cs (write_json 200 (JObj [(''ok'', JBool True)]))))"

section \<open>Routing\<close>

datatype endpoint = RegisterBegin | RegisterFinish | LoginBegin | LoginFinish
  | TotpVerify | TotpEnroll | TotpConfirm | CreateInvite | CreateAgentToken
  | SessionInfo | Logout | AgentCheck | Healthz

definition routes :: "((string \<times> string) \<times> endpoint) list" where
  "routes =
     [((''POST'', ''/api/register/begin''), RegisterBegin),
      ((''POST'', ''/api/register/finish''), RegisterFinish),
      ((''POST'', ''/api/login/begin''), LoginBegin),
      ((''POST'', ''/api/login/finish''), LoginFinish),
      ((''POST'', ''/api/totp/verify''), TotpVerify),
      ((''POST'', ''/api/totp/enroll''), TotpEnroll),
      ((''POST'', ''/api/totp/confirm''), TotpConfirm),
      ((''POST'', ''/api/invites''), CreateInvite),
      ((''POST'', ''/api/agent-tokens''), CreateAgentToken),
      ((''GET'', ''/api/session''), SessionInfo),
      ((''POST'', ''/api/logout''), Logout),
      ((''POST'', ''/agent_registration/check''), AgentCheck),
      ((''GET'', ''/healthz''), Healthz)]"

text \<open>A GET pattern of \<open>http.ServeMux\<close> also serves HEAD.\<close>

definition route :: "request \<Rightarrow> endpoint option" where
  "route rq =
     (case map_of routes (rq_method rq, rq_path rq) of
        Some ep \<Rightarrow> Some ep
      | None \<Rightarrow> if rq_method rq = ''HEAD'' then map_of routes (''GET'', rq_path rq) else None)"

definition plain_response :: "nat \<Rightarrow> response" where
  "plain_response status = \<lparr>rs_status = status, rs_body = None, rs_cookies = [], rs_headers = []\<rparr>"

definition serve :: "'sd auth_lib \<Rightarrow> env \<Rightarrow> request \<Rightarrow> 'sd server \<Rightarrow> 'sd server \<times> response" where
  "serve lib e rq sv =
     (case route rq of
        None \<Rightarrow> (sv, plain_response (if rq_path rq \<in> snd ` fst ` set routes then 405 else 404))
      | Some RegisterBegin \<Rightarrow> register_begin lib e rq sv
      | Some RegisterFinish \<Rightarrow> register_finish lib e rq sv
      | Some LoginBegin \<Rightarrow> login_begin lib e rq sv
      | Some LoginFinish \<Rightarrow> login_finish lib e rq sv
      | Some TotpVerify \<Rightarrow> totp_verify lib e rq sv
      | Some TotpEnroll \<Rightarrow> totp_enroll lib e rq sv
      | Some TotpConfirm \<Rightarrow> totp_confirm lib e rq sv
      | Some CreateInvite \<Rightarrow> handle_create_invite e rq sv
      | Some CreateAgentToken \<Rightarrow> handle_create_agent_token e rq sv
      | Some SessionInfo \<Rightarrow> session_info e rq sv
      | Some Logout \<Rightarrow> handle_logout rq sv
      | Some AgentCheck \<Rightarrow> agent_check e rq sv
      | Some Healthz \<Rightarrow> (sv, plain_response 200))"

text \<open>The CORS wrapper: it answers every OPTIONS request itself.\<close>

definition cors_headers :: "string list \<Rightarrow> string \<Rightarrow> (string \<times> string) list" where
  "cors_headers origins origin =
     (if origin \<noteq> [] \<and> origin \<in> set origins then
        [(''Access-Control-Allow-Origin'', origin),
         (''Access-Control-Allow-Credentials'', ''true''),
         (''Vary'', ''Origin''),
         (''Access-Control-Allow-Headers'', ''Content-Type''),
         (''Access-Control-Allow-Methods'', ''GET, POST, OPTIONS'')]
      else [])"

definition auth_handle :: "'sd auth_lib \<Rightarrow> env \<Rightarrow> request \<Rightarrow> 'sd server \<Rightarrow> 'sd server \<times> response" where
  "auth_handle lib e rq sv =
     (let hs = cors_headers (cfg_cors_origins (sv_cfg sv)) (rq_origin rq);
          (sv', r) = (if rq_method rq = ''OPTIONS'' then (sv, plain_response 204) else serve lib e rq sv)
      in (sv', r\<lparr>rs_headers := hs @ rs_headers r\<rparr>))"

text \<open>A run of the service is a fold of this step over requests with their environments.\<close>

definition auth_step :: "'sd auth_lib \<Rightarrow> env \<times> request \<Rightarrow> 'sd server \<Rightarrow> 'sd server" where
  "auth_step lib x sv = fst (auth_handle lib (fst x) (snd x) sv)"

end
