(* ===== verification/Broker.thy ===== *)
theory Broker
  imports Registry Protocol AuthServer
begin

text \<open>
  The coordinator (\<open>internal/broker/broker.go\<close>). Agents and browsers are served by
  concurrent handlers over three shared tables: \<open>agents\<close> (device to control session),
  \<open>sessions\<close> (session id to bridge), both under \<open>b.mu\<close>, and the registry.

  Each running handler is an entry of \<open>bk_actl\<close> or \<open>bk_bctl\<close>: its local variables, the two
  ends of its connection (what has been written, whether it is still open) and the place
  where it stands. A pointer to an \<open>agentConn\<close> or a \<open>websocket.Conn\<close> is the number of the
  handler that owns it. One event runs one handler from one place to the next, and a
  stretch of code is one step exactly when it is one critical section of \<open>b.mu\<close>, one call
  of the registry or one operation on a connection, so every interleaving of the code is a
  run of \<open>broker_step\<close>. The outcome of each network operation is part of its event.
\<close>

section \<open>State\<close>

text \<open>The places in \<open>agentWS\<close>: before each step of its body.\<close>

datatype agent_pc =
    AttachPc
  | AddPc
  | ConfirmPc
  | ReadPc
  | WritePc nat bytes
  | AHangupPc nat
  | DetachPc
  | RemovePc
  | AgentDone

record agent_ctl =
  ac_device :: string
  ac_hello :: msg
  ac_addr :: string
  ac_pub :: string
  ac_open :: bool
  ac_out :: "msg list"
  ac_pc :: agent_pc

text \<open>The places in \<open>connectWS\<close>.\<close>

datatype browser_pc =
    LookupPc
  | UpgradePc
  | InsertPc
  | OpenPc
  | BrowsePc
  | InputPc bytes
  | SayClosePc
  | DropPc
  | BHangupPc nat
  | BrowserDone

record browser_ctl =
  bc_device :: string
  bc_agent :: nat
  bc_session :: string
  bc_open :: bool
  bc_out :: "bytes list"
  bc_error :: "nat option"
  bc_pc :: browser_pc

record broker =
  bk_agents :: "string \<rightharpoonup> nat"
  bk_sessions :: "string \<rightharpoonup> nat \<times> nat"
  bk_reg :: registry
  bk_actl :: "nat \<rightharpoonup> agent_ctl"
  bk_bctl :: "nat \<rightharpoonup> browser_ctl"

definition broker_new :: "string \<Rightarrow> broker" where
  "broker_new cloud = \<lparr>bk_agents = Map.empty, bk_sessions = Map.empty, bk_reg = reg_new cloud,
     bk_actl = Map.empty, bk_bctl = Map.empty\<rparr>"

definition set_actl :: "nat \<Rightarrow> agent_ctl \<Rightarrow> broker \<Rightarrow> broker" where
  "set_actl a c s = s\<lparr>bk_actl := (bk_actl s)(a \<mapsto> c)\<rparr>"

definition set_bctl :: "nat \<Rightarrow> browser_ctl \<Rightarrow> broker \<Rightarrow> broker" where
  "set_bctl b c s = s\<lparr>bk_bctl := (bk_bctl s)(b \<mapsto> c)\<rparr>"

section \<open>Talking to mm-auth\<close>

text \<open>The reply of an HTTP call: an error, or a status and a body.\<close>

type_synonym http_reply = "(nat \<times> string) option"

text \<open>\<open>Decode\<close> into \<open>struct{Status string}\<close>, its error ignored.\<close>

definition reply_status :: "string \<Rightarrow> string" where
  "reply_status body =
     (case parse_first body of
        Some (JObj ms) \<Rightarrow> fst (fold (decode_string_field [''status'']) ms (\<lambda>_. [], True)) ''status''
      | _ \<Rightarrow> [])"

definition token_check_body :: "string \<Rightarrow> string" where
  "token_check_body token = render (JObj [(''token'', JStr token)])"

definition broker_check_agent_token :: "string \<Rightarrow> http_reply \<Rightarrow> bool" where
  "broker_check_agent_token auth_url reply =
     (if auth_url = [] then True
      else case reply of
          None \<Rightarrow> False
        | Some (status, body) \<Rightarrow> reply_status body = ''ok'')"

text \<open>\<open>request_ok\<close>: whether \<open>NewRequest\<close> accepts the URL; \<open>cookie\<close>: the browser's \<open>mm_session\<close>.\<close>

definition check_user :: "string \<Rightarrow> bool \<Rightarrow> string option \<Rightarrow> http_reply \<Rightarrow> bool" where
  "check_user auth_url request_ok cookie reply =
     (if auth_url = [] then True
      else if \<not> request_ok then False
      else case cookie of
          None \<Rightarrow> True
        | Some c \<Rightarrow> (case reply of None \<Rightarrow> False | Some (status, body) \<Rightarrow> status = 200))"

section \<open>Shared operations\<close>

text \<open>
  \<open>agentConn.send\<close>: one whole message, or an error. The step is the return of the write; the mutex
  \<open>a.mu\<close> that is held until then, and who waits for it, are in the machine of \<open>BrokerLock\<close>, which
  has every send in two steps.
\<close>

definition send_agent :: "bool \<Rightarrow> nat \<Rightarrow> msg \<Rightarrow> broker \<Rightarrow> broker \<times> bool" where
  "send_agent net a m s =
     (case bk_actl s a of
        None \<Rightarrow> (s, False)
      | Some c \<Rightarrow>
          if net \<and> ac_open c then (set_actl a (c\<lparr>ac_out := ac_out c @ [m]\<rparr>) s, True) else (s, False))"

text \<open>The critical section of \<open>closeSession\<close>: the entry is taken out, its browser is to be closed.\<close>

definition take_session :: "string \<Rightarrow> broker \<Rightarrow> broker \<times> nat option" where
  "take_session i s = (s\<lparr>bk_sessions := (bk_sessions s)(i := None)\<rparr>, map_option fst (bk_sessions s i))"

definition close_browser :: "nat \<Rightarrow> broker \<Rightarrow> broker" where
  "close_browser b s =
     (case bk_bctl s b of None \<Rightarrow> s | Some c \<Rightarrow> set_bctl b (c\<lparr>bc_open := False\<rparr>) s)"

definition write_browser :: "bool \<Rightarrow> nat \<Rightarrow> bytes \<Rightarrow> broker \<Rightarrow> broker" where
  "write_browser net b d s =
     (case bk_bctl s b of
        None \<Rightarrow> s
      | Some c \<Rightarrow> if net \<and> bc_open c then set_bctl b (c\<lparr>bc_out := bc_out c @ [d]\<rparr>) s else s)"

definition agent_goto :: "nat \<Rightarrow> agent_pc \<Rightarrow> broker \<Rightarrow> broker" where
  "agent_goto a pc s =
     (case bk_actl s a of None \<Rightarrow> s | Some c \<Rightarrow> set_actl a (c\<lparr>ac_pc := pc\<rparr>) s)"

definition browser_goto :: "nat \<Rightarrow> browser_pc \<Rightarrow> broker \<Rightarrow> broker" where
  "browser_goto b pc s =
     (case bk_bctl s b of None \<Rightarrow> s | Some c \<Rightarrow> set_bctl b (c\<lparr>bc_pc := pc\<rparr>) s)"

definition new_id :: "bytes \<Rightarrow> string" where
  "new_id rnd = hex_encode rnd"

section \<open>agentWS\<close>

text \<open>The first frame of a connection: the registration it has to be.\<close>

definition hello_msg :: "bytes \<Rightarrow> msg option" where
  "hello_msg raw =
     (case unmarshal_msg raw of (m, ok) \<Rightarrow>
        if \<not> ok \<or> msg_type m \<noteq> type_register \<or> msg_device m = [] then None else Some m)"

definition error_msg :: msg where
  "error_msg = zero_msg\<lparr>msg_type := type_error, msg_message := ''invalid or expired enrollment token''\<rparr>"

text \<open>
  Everything before the first critical section: handshake done (the peer's key is
  \<open>pub\<close>), first frame read, token checked with the answer \<open>verdict\<close>; \<open>net\<close> is whether
  the refusal could be written.
\<close>

definition agent_hello :: "nat \<Rightarrow> bytes \<Rightarrow> string \<Rightarrow> string \<Rightarrow> bool \<Rightarrow> bool \<Rightarrow> broker \<Rightarrow> broker option" where
  "agent_hello a raw addr pub verdict net s =
     (if bk_actl s a \<noteq> None then None
      else
        (let c = \<lparr>ac_device = [], ac_hello = zero_msg, ac_addr = addr, ac_pub = pub, ac_open = False,
                  ac_out = [], ac_pc = AgentDone\<rparr>
         in Some (set_actl a
              (case hello_msg raw of
                 None \<Rightarrow> c
               | Some m \<Rightarrow>
                   if \<not> verdict then c\<lparr>ac_hello := m, ac_out := (if net then [error_msg] else [])\<rparr>
                   else c\<lparr>ac_device := msg_device m, ac_hello := m, ac_open := True, ac_pc := AttachPc\<rparr>) s)))"

definition close_agent :: "nat \<Rightarrow> broker \<Rightarrow> broker" where
  "close_agent a s =
     (case bk_actl s a of None \<Rightarrow> s | Some c \<Rightarrow> set_actl a (c\<lparr>ac_open := False\<rparr>) s)"

text \<open>The first critical section: replace a stale attachment, publish this one.\<close>

definition agent_attach :: "nat \<Rightarrow> broker \<Rightarrow> broker option" where
  "agent_attach a s =
     (case bk_actl s a of
        Some c \<Rightarrow>
          if ac_pc c = AttachPc then
            (let s = (case bk_agents s (ac_device c) of None \<Rightarrow> s | Some old \<Rightarrow> close_agent old s)
             in Some (agent_goto a AddPc (s\<lparr>bk_agents := (bk_agents s)(ac_device c \<mapsto> a)\<rparr>)))
          else None
      | None \<Rightarrow> None)"

definition agent_add :: "nat \<Rightarrow> int \<Rightarrow> broker \<Rightarrow> broker option" where
  "agent_add a now s =
     (case bk_actl s a of
        Some c \<Rightarrow>
          if ac_pc c = AddPc then
            Some (agent_goto a ConfirmPc (s\<lparr>bk_reg := reg_add \<lparr>dev_id = ac_device c,
              dev_name = msg_name (ac_hello c), dev_os = msg_os (ac_hello c), dev_addr = ac_addr c,
              dev_pubkey = ac_pub c, dev_last_seen = now\<rparr> (bk_reg s)\<rparr>))
          else None
      | None \<Rightarrow> None)"

definition agent_confirm :: "nat \<Rightarrow> bool \<Rightarrow> broker \<Rightarrow> broker option" where
  "agent_confirm a net s =
     (case bk_actl s a of
        Some c \<Rightarrow>
          if ac_pc c = ConfirmPc then
            Some (agent_goto a ReadPc (fst (send_agent net a (zero_msg\<lparr>msg_type := type_registered\<rparr>) s)))
          else None
      | None \<Rightarrow> None)"

text \<open>One frame of the loop, up to the end of its critical section.\<close>

definition agent_frame :: "nat \<Rightarrow> bytes \<Rightarrow> broker \<Rightarrow> broker option" where
  "agent_frame a raw s =
     (case bk_actl s a of
        Some c \<Rightarrow>
          if ac_pc c = ReadPc then
            Some
              (case unmarshal_msg raw of (m, ok) \<Rightarrow>
                 if \<not> ok then s
                 else if msg_type m = type_output then
                   (case bk_sessions s (msg_session m) of
                      None \<Rightarrow> s
                    | Some (b, _) \<Rightarrow> agent_goto a (WritePc b (msg_data m)) s)
                 else if msg_type m = type_close then
                   (case take_session (msg_session m) s of
                      (s, None) \<Rightarrow> s
                    | (s, Some b) \<Rightarrow> agent_goto a (AHangupPc b) s)
                 else s)
          else None
      | None \<Rightarrow> None)"

definition agent_forward :: "nat \<Rightarrow> bool \<Rightarrow> broker \<Rightarrow> broker option" where
  "agent_forward a net s =
     (case bk_actl s a of
        Some c \<Rightarrow>
          (case ac_pc c of
             WritePc b d \<Rightarrow> Some (agent_goto a ReadPc (write_browser net b d s))
           | AHangupPc b \<Rightarrow> Some (agent_goto a ReadPc (close_browser b s))
           | _ \<Rightarrow> None)
      | None \<Rightarrow> None)"

definition agent_read_error :: "nat \<Rightarrow> broker \<Rightarrow> broker option" where
  "agent_read_error a s =
     (case bk_actl s a of
        Some c \<Rightarrow> if ac_pc c = ReadPc then Some (agent_goto a DetachPc s) else None
      | None \<Rightarrow> None)"

text \<open>The second critical section: only the current attachment takes the device off the table.\<close>

definition agent_detach :: "nat \<Rightarrow> broker \<Rightarrow> broker option" where
  "agent_detach a s =
     (case bk_actl s a of
        Some c \<Rightarrow>
          if ac_pc c = DetachPc then
            Some (agent_goto a RemovePc
              (if bk_agents s (ac_device c) = Some a
               then s\<lparr>bk_agents := (bk_agents s)(ac_device c := None)\<rparr> else s))
          else None
      | None \<Rightarrow> None)"

definition agent_remove :: "nat \<Rightarrow> broker \<Rightarrow> broker option" where
  "agent_remove a s =
     (case bk_actl s a of
        Some c \<Rightarrow>
          if ac_pc c = RemovePc then
            Some (agent_goto a AgentDone (s\<lparr>bk_reg := reg_remove (ac_device c) (bk_reg s)\<rparr>))
          else None
      | None \<Rightarrow> None)"

section \<open>connectWS\<close>

text \<open>A browser's request for a device, \<open>authorized\<close> being the answer of \<open>checkUser\<close>.\<close>

definition browser_connect :: "nat \<Rightarrow> string \<Rightarrow> bool \<Rightarrow> broker \<Rightarrow> broker option" where
  "browser_connect b device authorized s =
     (if bk_bctl s b \<noteq> None then None
      else Some (set_bctl b \<lparr>bc_device = device, bc_agent = 0, bc_session = [], bc_open = authorized,
             bc_out = [], bc_error = (if authorized then None else Some 401),
             bc_pc = (if authorized then LookupPc else BrowserDone)\<rparr> s))"

definition browser_lookup :: "nat \<Rightarrow> broker \<Rightarrow> broker option" where
  "browser_lookup b s =
     (case bk_bctl s b of
        Some c \<Rightarrow>
          if bc_pc c = LookupPc then
            Some (set_bctl b
              (case bk_agents s (bc_device c) of
                 None \<Rightarrow> c\<lparr>bc_error := Some 404, bc_open := False, bc_pc := BrowserDone\<rparr>
               | Some a \<Rightarrow> c\<lparr>bc_agent := a, bc_pc := UpgradePc\<rparr>) s)
          else None
      | None \<Rightarrow> None)"

text \<open>The upgrade, and the session id drawn after it.\<close>

definition browser_upgrade :: "nat \<Rightarrow> bool \<Rightarrow> bytes \<Rightarrow> broker \<Rightarrow> broker option" where
  "browser_upgrade b upgraded rnd s =
     (case bk_bctl s b of
        Some c \<Rightarrow>
          if bc_pc c = UpgradePc then
            Some (set_bctl b
              (if upgraded then c\<lparr>bc_session := new_id rnd, bc_pc := InsertPc\<rparr>
               else c\<lparr>bc_open := False, bc_pc := BrowserDone\<rparr>) s)
          else None
      | None \<Rightarrow> None)"

definition browser_insert :: "nat \<Rightarrow> broker \<Rightarrow> broker option" where
  "browser_insert b s =
     (case bk_bctl s b of
        Some c \<Rightarrow>
          if bc_pc c = InsertPc then
            Some (browser_goto b OpenPc
              (s\<lparr>bk_sessions := (bk_sessions s)(bc_session c \<mapsto> (b, bc_agent c))\<rparr>))
          else None
      | None \<Rightarrow> None)"

definition session_msg :: "string \<Rightarrow> string \<Rightarrow> bytes \<Rightarrow> msg" where
  "session_msg ty i d = zero_msg\<lparr>msg_type := ty, msg_session := i, msg_data := d\<rparr>"

definition browser_open :: "nat \<Rightarrow> bool \<Rightarrow> broker \<Rightarrow> broker option" where
  "browser_open b net s =
     (case bk_bctl s b of
        Some c \<Rightarrow>
          if bc_pc c = OpenPc then
            (case send_agent net (bc_agent c) (session_msg type_open (bc_session c) []) s of
               (s, ok) \<Rightarrow> Some (browser_goto b (if ok then BrowsePc else DropPc) s))
          else None
      | None \<Rightarrow> None)"

text \<open>\<open>mt\<close> is the frame's type: text is 1, binary is 2, and others are skipped.\<close>

definition browser_frame :: "nat \<Rightarrow> nat \<Rightarrow> bytes \<Rightarrow> broker \<Rightarrow> broker option" where
  "browser_frame b mt d s =
     (case bk_bctl s b of
        Some c \<Rightarrow>
          if bc_pc c = BrowsePc then
            Some (if mt \<noteq> 1 \<and> mt \<noteq> 2 then s else browser_goto b (InputPc d) s)
          else None
      | None \<Rightarrow> None)"

definition browser_input :: "nat \<Rightarrow> bool \<Rightarrow> broker \<Rightarrow> broker option" where
  "browser_input b net s =
     (case bk_bctl s b of
        Some c \<Rightarrow>
          (case bc_pc c of
             InputPc d \<Rightarrow>
               (case send_agent net (bc_agent c) (session_msg type_input (bc_session c) d) s of
                  (s, ok) \<Rightarrow> Some (browser_goto b (if ok then BrowsePc else SayClosePc) s))
           | _ \<Rightarrow> None)
      | None \<Rightarrow> None)"

definition browser_read_error :: "nat \<Rightarrow> broker \<Rightarrow> broker option" where
  "browser_read_error b s =
     (case bk_bctl s b of
        Some c \<Rightarrow> if bc_pc c = BrowsePc then Some (browser_goto b SayClosePc s) else None
      | None \<Rightarrow> None)"

definition browser_say_close :: "nat \<Rightarrow> bool \<Rightarrow> broker \<Rightarrow> broker option" where
  "browser_say_close b net s =
     (case bk_bctl s b of
        Some c \<Rightarrow>
          if bc_pc c = SayClosePc then
            Some (browser_goto b DropPc
              (fst (send_agent net (bc_agent c) (session_msg type_close (bc_session c) []) s)))
          else None
      | None \<Rightarrow> None)"

definition browser_drop :: "nat \<Rightarrow> broker \<Rightarrow> broker option" where
  "browser_drop b s =
     (case bk_bctl s b of
        Some c \<Rightarrow>
          (case bc_pc c of
             DropPc \<Rightarrow>
               (case take_session (bc_session c) s of
                  (s, None) \<Rightarrow> Some (browser_goto b BrowserDone s)
                | (s, Some b') \<Rightarrow> Some (browser_goto b (BHangupPc b') s))
           | BHangupPc b' \<Rightarrow> Some (browser_goto b BrowserDone (close_browser b' s))
           | _ \<Rightarrow> None)
      | None \<Rightarrow> None)"

section \<open>The coordinator\<close>

datatype broker_event =
    AHello nat bytes string string bool bool
  | AAttach nat
  | AAdd nat int
  | AConfirm nat bool
  | AFrame nat bytes
  | AForward nat bool
  | AReadErr nat
  | ADetach nat
  | ARemove nat
  | BConnect nat string bool
  | BLookup nat
  | BUpgrade nat bool bytes
  | BInsert nat
  | BOpen nat bool
  | BFrame nat nat bytes
  | BInput nat bool
  | BReadErr nat
  | BSayClose nat bool
  | BDrop nat

fun broker_step :: "broker_event \<Rightarrow> broker \<Rightarrow> broker option" where
  "broker_step (AHello a raw addr pub verdict net) s = agent_hello a raw addr pub verdict net s"
| "broker_step (AAttach a) s = agent_attach a s"
| "broker_step (AAdd a now) s = agent_add a now s"
| "broker_step (AConfirm a net) s = agent_confirm a net s"
| "broker_step (AFrame a raw) s = agent_frame a raw s"
| "broker_step (AForward a net) s = agent_forward a net s"
| "broker_step (AReadErr a) s = agent_read_error a s"
| "broker_step (ADetach a) s = agent_detach a s"
| "broker_step (ARemove a) s = agent_remove a s"
| "broker_step (BConnect b device authorized) s = browser_connect b device authorized s"
| "broker_step (BLookup b) s = browser_lookup b s"
| "broker_step (BUpgrade b upgraded rnd) s = browser_upgrade b upgraded rnd s"
| "broker_step (BInsert b) s = browser_insert b s"
| "broker_step (BOpen b net) s = browser_open b net s"
| "broker_step (BFrame b mt d) s = browser_frame b mt d s"
| "broker_step (BInput b net) s = browser_input b net s"
| "broker_step (BReadErr b) s = browser_read_error b s"
| "broker_step (BSayClose b net) s = browser_say_close b net s"
| "broker_step (BDrop b) s = browser_drop b s"

definition broker_devices :: "string list \<Rightarrow> broker \<Rightarrow> json" where
  "broker_devices order s = reg_graph order (bk_reg s)"

definition broker_cors :: "string list \<Rightarrow> string \<Rightarrow> (string \<times> string) list" where
  "broker_cors origins origin =
     (if origin \<noteq> [] \<and> origin \<in> set origins then
        [(''Access-Control-Allow-Origin'', origin),
         (''Access-Control-Allow-Credentials'', ''true''),
         (''Vary'', ''Origin'')]
      else [])"

section \<open>The routes\<close>

datatype broker_endpoint = BkDevices | BkAgent | BkConnect string | BkHealth | BkStatic

text \<open>
  \<open>Handler\<close>: the path as its unescaped segments, a trailing slash giving an empty one. A pattern for
  GET serves HEAD too, \<open>{device}\<close> is one segment that is not empty, and the files, when there
  are any, answer everything else.
\<close>

definition broker_route :: "string \<Rightarrow> string \<Rightarrow> string list \<Rightarrow> broker_endpoint option" where
  "broker_route webdir meth path =
     (let get = (meth = ''GET'' \<or> meth = ''HEAD'');
          rest = (if webdir \<noteq> [] then Some BkStatic else None)
      in case path of
          [p] \<Rightarrow>
            if get \<and> p = ''devices.json'' then Some BkDevices
            else if get \<and> p = ''agent'' then Some BkAgent
            else if get \<and> p = ''healthz'' then Some BkHealth
            else rest
        | [p, d] \<Rightarrow> if get \<and> p = ''connect'' \<and> d \<noteq> [] then Some (BkConnect d) else rest
        | _ \<Rightarrow> rest)"

lemma broker_route_connect:
  "broker_route webdir meth path = Some (BkConnect d) \<longleftrightarrow>
     (meth = ''GET'' \<or> meth = ''HEAD'') \<and> path = [''connect'', d] \<and> d \<noteq> []"
proof (cases path)
  case (Cons p r)
  show ?thesis
  proof (cases r)
    case (Cons d q)
    then show ?thesis using \<open>path = p # r\<close> by (cases q) (simp_all add: broker_route_def Let_def, blast)
  qed (simp add: broker_route_def Let_def Cons)
qed (simp add: broker_route_def)

end
