(* ===== verification/Commands.thy ===== *)
theory Commands
  imports Secure Agent Broker
begin

text \<open>
  The three commands under \<open>cmd/\<close>: how the environment and the command line give the
  configuration of the agent, of the identity service and of the broker, and what each of
  them does before it serves. The environment and the parsed command line are maps, and what
  the operating system answers is an argument.
\<close>

section \<open>Helpers\<close>

type_synonym environment = "string \<rightharpoonup> string"
type_synonym command_line = "string \<rightharpoonup> string"

definition getenv :: "environment \<Rightarrow> string \<Rightarrow> string" where
  "getenv env k = (case env k of None \<Rightarrow> [] | Some v \<Rightarrow> v)"

definition env_or :: "environment \<Rightarrow> string \<Rightarrow> string \<Rightarrow> string" where
  "env_or env k d = (let v = getenv env k in if v \<noteq> [] then v else d)"

text \<open>\<open>flag.String\<close> after \<open>flag.Parse\<close>: the value given, also an empty one, else the default.\<close>

definition flag_string :: "command_line \<Rightarrow> string \<Rightarrow> string \<Rightarrow> string" where
  "flag_string cl name d = (case cl name of None \<Rightarrow> d | Some v \<Rightarrow> v)"

fun split_csv_loop :: "string list \<Rightarrow> string list \<Rightarrow> string list" where
  "split_csv_loop [] out = out"
| "split_csv_loop (p # ps) out =
     (let p = trim_space p in split_csv_loop ps (if p \<noteq> [] then out @ [p] else out))"

definition split_csv :: "string \<Rightarrow> string list" where
  "split_csv s = split_csv_loop (split_on CHR '','' s) []"

text \<open>The first line of the standard input, or the empty string if there is none.\<close>

definition prompt :: "string \<Rightarrow> string" where
  "prompt stdin = (case fst (scan_lines stdin) of [] \<Rightarrow> [] | l # _ \<Rightarrow> trim_space l)"

definition short_id :: "bytes \<Rightarrow> string" where
  "short_id b = hex_encode b"

datatype cmd_error = NoBrokerKey | BadBrokerKey | IdentityError secure_error | StoreError auth_err
  | ServerError string | PubkeyOutError

section \<open>mm-agent\<close>

record agent_settings =
  as_url :: string
  as_broker_key :: bytes
  as_identity :: keypair
  as_agent :: agent_config

text \<open>\<open>rnd\<close>: the three bytes of \<open>shortID\<close>; \<open>goos\<close>: \<open>runtime.GOOS\<close>.\<close>

definition agent_main ::
  "environment \<Rightarrow> command_line \<Rightarrow> os_answers \<Rightarrow> bytes \<Rightarrow> string \<Rightarrow> string \<Rightarrow> files \<Rightarrow> files \<times> (cmd_error + agent_settings)" where
  "agent_main env cl os rnd goos stdin fs =
     (let url = flag_string cl ''broker'' (env_or env ''MM_AGENT_BROKER'' ''ws://localhost:8081'');
          broker_key = flag_string cl ''broker-key'' (getenv env ''MM_AGENT_BROKER_KEY'');
          identity = flag_string cl ''identity'' (env_or env ''MM_AGENT_IDENTITY'' ''data/agent.key'');
          cloud = flag_string cl ''cloud'' (env_or env ''MM_AGENT_CLOUD'' ''valc31'');
          device = flag_string cl ''device'' (getenv env ''MM_AGENT_DEVICE'');
          name = flag_string cl ''name'' (env_or env ''MM_AGENT_NAME'' ''device'');
          os_name = flag_string cl ''os'' (getenv env ''MM_AGENT_OS'');
          token = flag_string cl ''token'' (getenv env ''MM_AGENT_TOKEN'');
          shell = flag_string cl ''shell'' (env_or env ''MM_AGENT_SHELL'' ''/bin/sh'')
      in if broker_key = [] then (fs, Inl NoBrokerKey)
         else case decode_public broker_key of
             None \<Rightarrow> (fs, Inl BadBrokerKey)
           | Some bkey \<Rightarrow>
               (case load_or_create os identity fs of
                  (fs, Inl e) \<Rightarrow> (fs, Inl (IdentityError e))
                | (fs, Inr kp) \<Rightarrow>
                    (fs, Inr \<lparr>as_url = url, as_broker_key = bkey, as_identity = kp,
                       as_agent = \<lparr>acf_device = (if device = [] then cloud @ ''.'' @ short_id rnd else device),
                         acf_name = name, acf_os = (if os_name = [] then goos else os_name),
                         acf_token = (if token = [] then prompt stdin else token),
                         acf_shell = shell\<rparr>\<rparr>)))"

text \<open>The handshake \<open>Run\<close> starts with these settings.\<close>

definition agent_handshake :: "agent_settings \<Rightarrow> hs_config" where
  "agent_handshake a = \<lparr>hs_static = as_identity a, hs_initiator = True,
     hs_peer_static = as_broker_key a, hs_authorized = []\<rparr>"

section \<open>mm-auth\<close>

definition auth_main ::
  "'sd auth_lib \<Rightarrow> environment \<Rightarrow> command_line \<Rightarrow> bool \<Rightarrow> bool option \<Rightarrow> disk \<Rightarrow> cmd_error + (string \<times> 'sd server)" where
  "auth_main lib env cl readable secure disk =
     (let addr = flag_string cl ''addr'' (env_or env ''MM_AUTH_ADDR'' '':8090'');
          store = flag_string cl ''store'' (env_or env ''MM_AUTH_STORE'' ''data/auth.json'');
          rp_id = flag_string cl ''rp-id'' (env_or env ''MM_AUTH_RP_ID'' ''localhost'');
          origins = flag_string cl ''rp-origins'' (env_or env ''MM_AUTH_RP_ORIGINS'' ''http://localhost:8080'');
          secure = (case secure of None \<Rightarrow> getenv env ''MM_AUTH_COOKIE_SECURE'' = ''1'' | Some b \<Rightarrow> b)
      in case open_store readable store disk of
          Inl e \<Rightarrow> Inl (StoreError e)
        | Inr st \<Rightarrow>
            (let origin_list = split_csv origins in
             case new_server lib \<lparr>cfg_rpid = rp_id, cfg_rp_name = ''marshmallows'',
                 cfg_rp_origins = origin_list, cfg_cors_origins = origin_list, cfg_cookie_secure = secure,
                 cfg_invite_ttl = 0, cfg_agent_token_ttl = 0\<rparr> st of
               Inl e \<Rightarrow> Inl (ServerError e)
             | Inr sv \<Rightarrow> Inr (addr, sv)))"

section \<open>mm-broker\<close>

record broker_settings =
  bs_addr :: string
  bs_static :: keypair
  bs_cloud :: string
  bs_auth_url :: string
  bs_webdir :: string
  bs_origins :: "string list"

text \<open>\<open>pub_write\<close> is what \<open>WriteFile\<close> does to the file of the public key.\<close>

definition broker_main ::
  "environment \<Rightarrow> command_line \<Rightarrow> os_answers \<Rightarrow> write_result \<Rightarrow> files \<Rightarrow> files \<times> (cmd_error + broker_settings)" where
  "broker_main env cl os pub_write fs =
     (let addr = flag_string cl ''addr'' (env_or env ''MM_BROKER_ADDR'' '':8081'');
          cloud = flag_string cl ''cloud'' (env_or env ''MM_BROKER_CLOUD'' ''valc31'');
          auth_url = flag_string cl ''auth-url'' (getenv env ''MM_BROKER_AUTH_URL'');
          webdir = flag_string cl ''webdir'' (getenv env ''MM_BROKER_WEBDIR'');
          identity = flag_string cl ''identity'' (env_or env ''MM_BROKER_IDENTITY'' ''data/broker.key'');
          pubkey_out = flag_string cl ''pubkey-out'' (getenv env ''MM_BROKER_PUBKEY_OUT'');
          origins = flag_string cl ''cors-origins'' (env_or env ''MM_BROKER_CORS'' ''http://localhost:8080'')
      in case load_or_create os identity fs of
          (fs, Inl e) \<Rightarrow> (fs, Inl (IdentityError e))
        | (fs, Inr kp) \<Rightarrow>
            (let (fs, ok) = (if pubkey_out = [] then (fs, True)
                 else write_file pub_write pubkey_out 0x1A4 (encode_public (kp_public kp) @ [CHR 0x0A]) fs)
             in if \<not> ok then (fs, Inl PubkeyOutError)
                else (fs, Inr \<lparr>bs_addr = addr, bs_static = kp, bs_cloud = cloud, bs_auth_url = auth_url,
                  bs_webdir = webdir, bs_origins = split_csv origins\<rparr>)))"

text \<open>The handshake \<open>agentWS\<close> answers with: no list of authorized keys.\<close>

definition broker_handshake :: "broker_settings \<Rightarrow> hs_config" where
  "broker_handshake b = \<lparr>hs_static = bs_static b, hs_initiator = False, hs_peer_static = [], hs_authorized = []\<rparr>"

section \<open>Lists of origins\<close>

lemma split_csv_loop_eq: "split_csv_loop ps out = out @ filter (\<lambda>p. p \<noteq> []) (map trim_space ps)"
  by (induction ps arbitrary: out) (simp_all add: Let_def)

lemma split_csv_eq: "split_csv s = filter (\<lambda>p. p \<noteq> []) (map trim_space (split_on CHR '','' s))"
  by (simp add: split_csv_def split_csv_loop_eq)

definition join_comma :: "string list \<Rightarrow> string" where
  "join_comma xs = concat (map (\<lambda>x. x @ '','') xs)"

lemma split_on_piece: "d \<notin> set x \<Longrightarrow> split_on d (x @ d # s) = x # split_on d s"
  by (induction x) (auto split: list.split)

lemma split_on_join:
  "\<forall>x\<in>set xs. CHR '','' \<notin> set x \<Longrightarrow> split_on CHR '','' (join_comma xs @ s) = xs @ split_on CHR '','' s"
  by (induction xs) (simp_all add: join_comma_def split_on_piece)

lemma split_csv_clean:
  assumes "p \<in> set (split_csv s)"
  shows "p \<noteq> []" and "trim_space p = p" and "CHR '','' \<notin> set p"
proof -
  obtain x where x: "p = trim_space x" "x \<in> set (split_on CHR '','' s)" "p \<noteq> []"
    using assms by (auto simp: split_csv_eq)
  then show "p \<noteq> []" and "trim_space p = p" by simp_all
  show "CHR '','' \<notin> set p" using set_trim_space [of x] split_on_clean [OF x(2)] by (auto simp: x(1))
qed

text \<open>
  A list of origins is well formed: every element is a non-empty string without a comma
  and without white space around it, and the list written out again, each element ended by
  a comma, is read back as the same list.
\<close>

theorem split_csv_well_formed:
  "(\<forall>p\<in>set (split_csv s). p \<noteq> [] \<and> trim_space p = p \<and> CHR '','' \<notin> set p) \<and>
   split_csv (join_comma (split_csv s)) = split_csv s"
proof -
  let ?xs = "split_csv s"
  have clean: "\<forall>p\<in>set ?xs. p \<noteq> [] \<and> trim_space p = p \<and> CHR '','' \<notin> set p"
    using split_csv_clean [of _ s] by simp
  then have "split_on CHR '','' (join_comma ?xs @ []) = ?xs @ split_on CHR '','' []"
    by (intro split_on_join) blast
  then have "split_csv (join_comma ?xs) = filter (\<lambda>p. p \<noteq> []) (map trim_space ?xs)"
    by (simp add: split_csv_eq [of "join_comma ?xs"] trim_space_fix space_end_len_def)
  moreover have "map trim_space ?xs = ?xs" using clean by (simp add: map_idI)
  moreover have "filter (\<lambda>p. p \<noteq> []) ?xs = ?xs" using clean by (simp add: filter_id_conv)
  ultimately show ?thesis using clean by simp
qed

theorem split_csv_well_formed_witness:
  "split_csv (join_comma (split_csv '' http://a , http://b,,'')) = split_csv '' http://a , http://b,,''"
  using split_csv_well_formed [of "'' http://a , http://b,,''"] by blast

end
