(* ===== verification/AuthFacts.thy ===== *)
theory AuthFacts
  imports AuthServer
begin

text \<open>
  What the handlers of the identity service may and may not do: which requests can make a
  session authenticated, which can mint tokens, how long a session lives, and what a
  device-enrollment token is worth. Each handler has its effect lemmas in the collection
  \<open>auth_effects\<close>; the properties of the whole service follow by cases on the route.
\<close>

section \<open>Routing\<close>

lemma route_OPTIONS: "rq_method rq = ''OPTIONS'' \<Longrightarrow> route rq = None"
  by (simp add: route_def routes_def)

lemma auth_step_serve: "auth_step lib (e, rq) sv = fst (serve lib e rq sv)"
  by (cases "rq_method rq = ''OPTIONS''")
     (simp_all add: auth_step_def auth_handle_def split_beta serve_def route_OPTIONS)

lemma auth_handle_snd:
  "route rq \<noteq> None \<Longrightarrow>
     rs_body (snd (auth_handle lib e rq sv)) = rs_body (snd (serve lib e rq sv)) \<and>
     rs_status (snd (auth_handle lib e rq sv)) = rs_status (snd (serve lib e rq sv))"
  using route_OPTIONS [of rq] by (auto simp: auth_handle_def split_beta)

section \<open>The handlers' effects on the token tables\<close>

lemma register_user_tables [simp]:
  "agent_tokens (fst (register_user e k st)) = agent_tokens st"
  "invites (fst (register_user e k st)) = invites st"
  by (auto simp: register_user_def get_user_Inl dest: create_userD
        split: sum.splits prod.splits auth_err.splits)

lemma register_userD:
  "register_user e k st = (st', r) \<Longrightarrow> agent_tokens st' = agent_tokens st \<and> invites st' = invites st"
  using register_user_tables [of e k st] by simp

named_theorems token_effects \<open>what each handler does to the table of enrollment tokens\<close>

lemma register_begin_tokens [token_effects]:
  "agent_tokens (sv_store (fst (register_begin lib e rq sv))) = agent_tokens (sv_store sv)"
  by (auto simp: register_begin_def dest: register_userD
        split: option.split sum.split prod.split)

lemma register_finish_tokens [token_effects]:
  "agent_tokens (sv_store (fst (register_finish lib e rq sv))) = agent_tokens (sv_store sv)"
  by (auto simp: register_finish_def Let_def dest: put_userD
        split: option.split sum.split prod.split)

lemma login_begin_tokens [token_effects]:
  "sv_store (fst (login_begin lib e rq sv)) = sv_store sv"
  by (auto simp: login_begin_def split: option.split sum.split prod.split)

lemma login_finish_tokens [token_effects]:
  "agent_tokens (sv_store (fst (login_finish lib e rq sv))) = agent_tokens (sv_store sv)"
  by (auto simp: login_finish_def Let_def split: option.split sum.split prod.split)

lemma totp_verify_tokens [token_effects]: "sv_store (fst (totp_verify lib e rq sv)) = sv_store sv"
  by (auto simp: totp_verify_def split: option.split sum.split prod.split)

lemma totp_enroll_tokens [token_effects]: "sv_store (fst (totp_enroll lib e rq sv)) = sv_store sv"
  by (auto simp: totp_enroll_def split: option.split sum.split prod.split)

lemma totp_confirm_tokens [token_effects]:
  "agent_tokens (sv_store (fst (totp_confirm lib e rq sv))) = agent_tokens (sv_store sv)"
  by (auto simp: totp_confirm_def Let_def dest: put_userD
        split: option.split sum.split prod.split)

lemma create_invite_tokens [token_effects]:
  "agent_tokens (sv_store (fst (handle_create_invite e rq sv))) = agent_tokens (sv_store sv)"
  by (auto simp: handle_create_invite_def dest: create_inviteD
        split: option.split sum.split prod.split)

lemma session_info_tokens [token_effects]: "fst (session_info e rq sv) = sv"
  by (simp add: session_info_def)

lemma logout_tokens [token_effects]: "sv_store (fst (handle_logout rq sv)) = sv_store sv"
  by (simp add: handle_logout_def split_beta)

lemma create_agent_token_tokens:
  "agent_tokens (sv_store (fst (handle_create_agent_token e rq sv))) =
     (case require_auth e rq sv of
        Inl _ \<Rightarrow> agent_tokens (sv_store sv)
      | Inr _ \<Rightarrow> (agent_tokens (sv_store sv))(random_token (e_rand e 0) \<mapsto>
          \<lparr>tok_username = [], tok_expires = e_now e + cfg_agent_token_ttl (sv_cfg sv)\<rparr>))"
  by (auto simp: handle_create_agent_token_def dest: create_agent_tokenD
        split: option.split sum.split prod.split)

lemma agent_check_tokens:
  "agent_tokens (sv_store (fst (agent_check e rq sv))) =
     (case read_json [''token''] (rq_body rq) of
        None \<Rightarrow> agent_tokens (sv_store sv)
      | Some req \<Rightarrow> (agent_tokens (sv_store sv))(req ''token'' := None))"
  by (auto simp: agent_check_def dest: check_agent_tokenD split: option.split prod.split)

section \<open>Enrollment tokens over HTTP\<close>

text \<open>A request that the broker contract answers with \<open>{"status":"ok"}\<close> for the token \<open>t\<close>.\<close>

definition check_ok :: json where
  "check_ok = JObj [(''status'', JStr ''ok'')]"

definition http_accepts :: "'sd auth_lib \<Rightarrow> string \<Rightarrow> env \<times> request \<Rightarrow> 'sd server \<Rightarrow> bool" where
  "http_accepts lib t x sv \<longleftrightarrow>
     route (snd x) = Some AgentCheck \<and>
     (case read_json [''token''] (rq_body (snd x)) of None \<Rightarrow> False | Some req \<Rightarrow> req ''token'' = t) \<and>
     rs_body (snd (auth_handle lib (fst x) (snd x) sv)) = Some check_ok"

text \<open>A request of an authenticated operator that mints the token \<open>t\<close>.\<close>

definition http_mints :: "string \<Rightarrow> env \<times> request \<Rightarrow> 'sd server \<Rightarrow> bool" where
  "http_mints t x sv \<longleftrightarrow>
     route (snd x) = Some CreateAgentToken \<and> random_token (e_rand (fst x) 0) = t \<and>
     (case require_auth (fst x) (snd x) sv of Inl _ \<Rightarrow> False | Inr _ \<Rightarrow> True)"

lemma agent_check_ok:
  "rs_body (snd (agent_check e rq sv)) = Some check_ok \<longleftrightarrow>
     (\<exists>req. read_json [''token''] (rq_body rq) = Some req \<and>
        snd (check_agent_token (e_io e 0) (e_now e) (req ''token'') (sv_store sv)))"
  by (auto simp: agent_check_def check_ok_def write_json_def http_error_def
        split: option.split prod.split)

lemma serve_tokens:
  "agent_tokens (sv_store (auth_step lib (e, rq) sv)) =
     (case route rq of
        Some AgentCheck \<Rightarrow> agent_tokens (sv_store (fst (agent_check e rq sv)))
      | Some CreateAgentToken \<Rightarrow> agent_tokens (sv_store (fst (handle_create_agent_token e rq sv)))
      | _ \<Rightarrow> agent_tokens (sv_store sv))"
  by (simp add: auth_step_serve serve_def token_effects split: option.split endpoint.split)

interpretation http_token: single_use "auth_step lib" "http_accepts lib" http_mints
  "\<lambda>t sv. agent_tokens (sv_store sv) t \<noteq> None"
  for lib
proof unfold_locales
  fix t and x :: "env \<times> request" and sv
  obtain e rq where x: "x = (e, rq)" by (cases x)
  have acc: "snd (check_agent_token (e_io e 0) (e_now e) t (sv_store sv)) \<and>
      (\<exists>req. read_json [''token''] (rq_body rq) = Some req \<and> req ''token'' = t)"
    if "http_accepts lib t x sv"
    using that agent_check_ok [of e rq sv]
    by (auto simp: http_accepts_def x auth_handle_snd serve_def split: option.splits)
  then show "http_accepts lib t x sv \<Longrightarrow> agent_tokens (sv_store sv) t \<noteq> None"
    by (auto simp: check_agent_token_snd)
  show "http_accepts lib t x sv \<Longrightarrow> \<not> agent_tokens (sv_store (auth_step lib x sv)) t \<noteq> None"
    using acc by (auto simp: x serve_tokens agent_check_tokens http_accepts_def)
  show "agent_tokens (sv_store (auth_step lib x sv)) t \<noteq> None \<Longrightarrow>
      agent_tokens (sv_store sv) t \<noteq> None \<or> http_mints t x sv"
    by (auto simp: x serve_tokens agent_check_tokens create_agent_token_tokens http_mints_def
          split: option.splits endpoint.splits sum.splits if_splits)
qed

text \<open>
  C7. Over HTTP, and whatever the requests, libraries, clocks and save outcomes: the
  broker-facing check answers ok for an enrollment token at most once per time an
  authenticated operator minted it, plus once if it was in the store at the start.
\<close>

theorem http_token_single_use:
  "run_count (http_accepts lib t) (auth_step lib) es sv
     \<le> run_count (http_mints t) (auth_step lib) es sv
        + (if agent_tokens (sv_store sv) t = None then 0 else 1)"
  using http_token.redeem_bound [of lib t es sv] by (simp split: if_splits)

section \<open>Who can become authenticated\<close>

definition authed :: "string \<Rightarrow> 'sd server \<Rightarrow> bool" where
  "authed i sv \<longleftrightarrow> (case ss_map (sv_sess sv) i of None \<Rightarrow> False | Some s \<Rightarrow> ses_authenticated s)"

named_theorems session_effects \<open>what each handler does to the sessions\<close>

lemma get_or_createD:
  assumes "sessions_get_or_create now rnd c ss = (i, ss', cs)"
  shows "\<exists>s. ss_map ss' = (ss_map ss)(i \<mapsto> s) \<and>
     (ss_map ss i = Some s \<and> c = Some i \<and> now \<le> ses_expires s
      \<or> i = random_token rnd \<and> s = fresh_session now)"
  using get_or_create_entry [OF assms] by blast

lemma register_begin_authed:
  "authed i (fst (register_begin lib e rq sv)) \<Longrightarrow> authed i sv"
  by (auto simp: register_begin_def authed_def dest!: get_or_createD
        split: option.splits sum.splits prod.splits if_splits)

lemma login_begin_authed:
  "authed i (fst (login_begin lib e rq sv)) \<Longrightarrow> authed i sv"
  by (auto simp: login_begin_def authed_def dest!: get_or_createD
        split: option.splits sum.splits prod.splits if_splits)

lemma logout_authed: "authed i (fst (handle_logout rq sv)) \<Longrightarrow> authed i sv"
  by (auto simp: handle_logout_def sessions_destroy_def authed_def split: option.splits if_splits)

lemma totp_enroll_authed: "authed i (fst (totp_enroll lib e rq sv)) \<Longrightarrow> authed i sv"
  by (auto simp: totp_enroll_def authed_def split: option.splits sum.splits prod.splits if_splits)

lemma totp_confirm_authed: "authed i (fst (totp_confirm lib e rq sv)) \<Longrightarrow> authed i sv"
  by (auto simp: totp_confirm_def authed_def Let_def split: option.splits sum.splits prod.splits if_splits)

lemma sess_only_authed:
  "authed i (fst (handle_create_invite e rq sv)) = authed i sv"
  "authed i (fst (handle_create_agent_token e rq sv)) = authed i sv"
  "authed i (fst (agent_check e rq sv)) = authed i sv"
  by (auto simp: handle_create_invite_def handle_create_agent_token_def agent_check_def authed_def
        split: option.split sum.split prod.split)

text \<open>The three handlers that grant authentication, and what each of them has checked.\<close>

lemma register_finish_grants:
  assumes "authed i (fst (register_finish lib e rq sv))" and "\<not> authed i sv"
  shows "\<exists>s u sd cred. sessions_get (e_now e) (rq_cookie rq) (sv_sess sv) = Some (i, s) \<and>
    users (sv_store sv) (ses_username s) = Some u \<and> ses_ceremony s = Some sd \<and>
    lib_finish_registration lib u sd rq = Inr cred"
  using assms
  by (auto simp: register_finish_def authed_def Let_def
        split: option.splits sum.splits prod.splits if_splits)

lemma login_finish_grants:
  assumes "authed i (fst (login_finish lib e rq sv))" and "\<not> authed i sv"
  shows "\<exists>s u sd cred. sessions_get (e_now e) (rq_cookie rq) (sv_sess sv) = Some (i, s) \<and>
    users (sv_store sv) (ses_username s) = Some u \<and> \<not> has_totp u \<and> ses_ceremony s = Some sd \<and>
    lib_finish_login lib u sd rq = Inr cred"
  using assms
  by (auto simp: login_finish_def authed_def Let_def has_totp_def
        split: option.splits sum.splits prod.splits if_splits)

lemma totp_verify_grants:
  assumes "authed i (fst (totp_verify lib e rq sv))" and "\<not> authed i sv"
  shows "\<exists>s u req. sessions_get (e_now e) (rq_cookie rq) (sv_sess sv) = Some (i, s) \<and>
    users (sv_store sv) (ses_username s) = Some u \<and> has_totp u \<and>
    read_json [''code''] (rq_body rq) = Some req \<and>
    lib_totp_validate lib (e_now e) (req ''code'') (user_totp u)"
  using assms
  by (auto simp: totp_verify_def authed_def
        split: option.splits sum.splits prod.splits if_splits)

text \<open>What a request has to show for the session \<open>i\<close> to become authenticated by it.\<close>

definition login_proof :: "'sd auth_lib \<Rightarrow> env \<Rightarrow> request \<Rightarrow> 'sd server \<Rightarrow> string \<Rightarrow> bool" where
  "login_proof lib e rq sv i \<longleftrightarrow>
     (\<exists>s u. rq_cookie rq = Some i \<and> ss_map (sv_sess sv) i = Some s \<and> e_now e \<le> ses_expires s \<and>
       users (sv_store sv) (ses_username s) = Some u \<and>
       (route rq = Some RegisterFinish \<and> (\<exists>sd cred. ses_ceremony s = Some sd \<and> lib_finish_registration lib u sd rq = Inr cred)
        \<or> route rq = Some LoginFinish \<and> user_totp u = [] \<and> (\<exists>sd cred. ses_ceremony s = Some sd \<and> lib_finish_login lib u sd rq = Inr cred)
        \<or> route rq = Some TotpVerify \<and> user_totp u \<noteq> [] \<and>
          (\<exists>req. read_json [''code''] (rq_body rq) = Some req \<and> lib_totp_validate lib (e_now e) (req ''code'') (user_totp u))))"

lemma authed_proof:
  assumes "authed i (auth_step lib (e, rq) sv)" and "\<not> authed i sv"
  shows "login_proof lib e rq sv i"
proof -
  consider "route rq = Some RegisterFinish" | "route rq = Some LoginFinish" | "route rq = Some TotpVerify"
    using assms
    by (auto simp: auth_step_serve serve_def sess_only_authed session_info_def
          dest: register_begin_authed login_begin_authed logout_authed totp_enroll_authed totp_confirm_authed
          split: option.splits endpoint.splits)
  then show ?thesis
  proof cases
    case 1
    then show ?thesis
      using register_finish_grants [of i lib e rq sv] assms
      by (auto simp: auth_step_serve serve_def sessions_get_Some login_proof_def)
  next
    case 2
    then show ?thesis
      using login_finish_grants [of i lib e rq sv] assms
      by (auto simp: auth_step_serve serve_def sessions_get_Some has_totp_def login_proof_def)
  next
    case 3
    then show ?thesis
      using totp_verify_grants [of i lib e rq sv] assms
      by (auto simp: auth_step_serve serve_def sessions_get_Some has_totp_def login_proof_def)
  qed
qed

lemma authed_origin:
  "\<not> authed i sv \<Longrightarrow> authed i (fold (auth_step lib) es sv) \<Longrightarrow>
   \<exists>es1 e rq es2. es = es1 @ (e, rq) # es2 \<and> login_proof lib e rq (fold (auth_step lib) es1 sv) i"
proof (induction es rule: rev_induct)
  case (snoc x es)
  obtain e rq where x: "x = (e, rq)" by force
  show ?case
  proof (cases "authed i (fold (auth_step lib) es sv)")
    case True
    with snoc obtain es1 e' rq' es2 where
        "es = es1 @ (e', rq') # es2" "login_proof lib e' rq' (fold (auth_step lib) es1 sv) i" by blast
    then show ?thesis by (intro exI [of _ es1] exI [of _ e'] exI [of _ rq'] exI [of _ "es2 @ [x]"]) simp
  next
    case False
    then have "login_proof lib e rq (fold (auth_step lib) es sv) i"
      using authed_proof [of i lib e rq] snoc.prems(2) by (simp add: x)
    then show ?thesis by (intro exI [of _ es] exI [of _ e] exI [of _ rq] exI [of _ "[]"]) (simp add: x)
  qed
qed simp

text \<open>
  C8. A session becomes authenticated only through the request of its own cookie, before
  its expiry, for an existing user, and only by (a) a registration that the WebAuthn
  library accepted against the session's pending ceremony, (b) a login that the library
  accepted against it, for a user without TOTP, or (c) a TOTP code that is valid for the
  secret of a user who has one.
\<close>

theorem authentication_requires_proof:
  assumes "authed i (auth_step lib (e, rq) sv)" and "\<not> authed i sv"
  shows "\<exists>s u. rq_cookie rq = Some i \<and> ss_map (sv_sess sv) i = Some s \<and> e_now e \<le> ses_expires s \<and>
     users (sv_store sv) (ses_username s) = Some u \<and>
     (route rq = Some RegisterFinish \<and> (\<exists>sd cred. ses_ceremony s = Some sd \<and> lib_finish_registration lib u sd rq = Inr cred)
      \<or> route rq = Some LoginFinish \<and> user_totp u = [] \<and> (\<exists>sd cred. ses_ceremony s = Some sd \<and> lib_finish_login lib u sd rq = Inr cred)
      \<or> route rq = Some TotpVerify \<and> user_totp u \<noteq> [] \<and>
        (\<exists>req. read_json [''code''] (rq_body rq) = Some req \<and> lib_totp_validate lib (e_now e) (req ''code'') (user_totp u)))"
  using authed_proof [OF assms] unfolding login_proof_def .

end
