(* ===== verification/AuthPolicy.thy ===== *)
theory AuthPolicy
  imports AuthFacts
begin

text \<open>
  The policy of the identity service over runs of requests: how long a session lives and
  what ends it, which endpoints a request without a live authenticated session can reach,
  what each ceremony leaves in the store, and where the code grants more than its comments
  say. \<open>demo_lib\<close> is a concrete instance of the third-party parameters, for the witnesses.
\<close>

section \<open>A concrete instance\<close>

definition demo_lib :: "unit auth_lib" where
  "demo_lib = \<lparr>lib_new = \<lambda>_. None,
     lib_begin_registration = \<lambda>u r. Inr (JObj [], ()),
     lib_finish_registration = \<lambda>u sd rq. Inr \<lparr>cred_id = [7], cred_sign_count = 0, cred_rest = []\<rparr>,
     lib_begin_login = \<lambda>u r. Inr (JObj [], ()),
     lib_finish_login = \<lambda>u sd rq. Inl ''denied'',
     lib_totp_generate = \<lambda>issuer account r. Inr (''SECRET'', ''otpauth:''),
     lib_totp_validate = \<lambda>now code secret. code = ''000000''\<rparr>"

definition demo_user :: user where
  "demo_user = \<lparr>user_id = [1], user_name = ''alice'', user_credentials = [], user_totp = ''SECRET'',
     user_created = 0\<rparr>"

definition demo_cfg :: auth_config where
  "demo_cfg = \<lparr>cfg_rpid = ''example.org'', cfg_rp_name = ''mm'', cfg_rp_origins = [],
     cfg_cors_origins = [''https://app''], cfg_cookie_secure = True, cfg_invite_ttl = hour,
     cfg_agent_token_ttl = hour\<rparr>"

definition demo_server :: "unit server" where
  "demo_server = \<lparr>sv_cfg = demo_cfg,
     sv_store = set_users [''alice'' \<mapsto> demo_user] example_store, sv_sess = new_sessions True\<rparr>"

definition demo_env :: "int \<Rightarrow> env" where
  "demo_env now = \<lparr>e_now = now, e_rand = \<lambda>n. [of_nat n], e_io = \<lambda>_. io_ok\<rparr>"

definition post :: "string \<Rightarrow> string option \<Rightarrow> (string \<times> string) list \<Rightarrow> request" where
  "post path cookie kvs = \<lparr>rq_method = ''POST'', rq_path = path, rq_cookie = cookie, rq_origin = [],
     rq_body = render (JObj (map (\<lambda>(k, v). (k, JStr v)) kvs))\<rparr>"

lemma post_simps [simp]:
  "rq_method (post p c kvs) = ''POST''" "rq_path (post p c kvs) = p" "rq_cookie (post p c kvs) = c"
  "rq_body (post p c kvs) = render (JObj (map (\<lambda>(k, v). (k, JStr v)) kvs))"
  by (simp_all add: post_def)

lemma read_json_post:
  "valid_utf8 k \<Longrightarrow> valid_utf8 v \<Longrightarrow> k \<in> set names \<Longrightarrow>
   read_json names (rq_body (post p c [(k, v)])) = Some ((\<lambda>_. [])(k := v))"
  using parse_first_object(2) [of "[(k, JStr v)]"]
  by (simp add: read_json_def max_nesting_def decode_string_field_def)

lemma demo_env_simps [simp]:
  "e_now (demo_env n) = n" "e_rand (demo_env n) i = [of_nat i]" "e_io (demo_env n) i = io_ok"
  by (simp_all add: demo_env_def)

section \<open>What a login leaves behind\<close>

lemma auth_step_login_begin:
  assumes "route rq = Some LoginBegin" and "rq_cookie rq = None"
    and "read_json [''username''] (rq_body rq) = Some q"
    and "users (sv_store sv) (q ''username'') = Some u"
    and "lib_begin_login lib u (e_rand e 0) = Inr (opts, sd)"
  shows "auth_step lib (e, rq) sv = sv\<lparr>sv_sess := (sv_sess sv)\<lparr>ss_map := (ss_map (sv_sess sv))
    (random_token (e_rand e 1) \<mapsto> (fresh_session (e_now e))\<lparr>ses_username := q ''username'', ses_ceremony := Some sd\<rparr>)\<rparr>\<rparr>"
  using assms
  by (simp add: auth_step_serve serve_def login_begin_def get_user_def sessions_get_or_create_def
      Let_def ss_update_def fresh_session_def)

text \<open>
  C27. Two requests without any passkey log in a user who has TOTP: \<open>loginBegin\<close> names the user
  in a new session, and \<open>totpVerify\<close> asks only for the code. \<open>FinishLogin\<close> is never called,
  so its answer does not matter; the step-up is by itself sufficient.
\<close>

theorem totp_alone_authenticates:
  assumes "route rq = Some LoginBegin" and "rq_cookie rq = None"
    and "read_json [''username''] (rq_body rq) = Some q"
    and "users (sv_store sv) (q ''username'') = Some u" and "q ''username'' \<noteq> []" and "has_totp u"
    and "lib_begin_login lib u (e_rand e 0) = Inr (opts, sd)"
    and "route rq' = Some TotpVerify" and "rq_cookie rq' = Some (random_token (e_rand e 1))"
    and "read_json [''code''] (rq_body rq') = Some q'"
    and "lib_totp_validate lib (e_now e') (q' ''code'') (user_totp u)"
    and "e_now e' \<le> e_now e + session_ttl"
  shows "authed (random_token (e_rand e 1)) (fold (auth_step lib) [(e, rq), (e', rq')] sv)"
  using assms(5,6,8-12)
  by (simp add: auth_step_login_begin [OF assms(1-4) assms(7)])
     (simp add: auth_step_serve serve_def totp_verify_def sessions_get_def fresh_session_def
       get_user_def assms(4) authed_def)

theorem totp_alone_authenticates_witness:
  "authed (random_token [1]) (fold (auth_step demo_lib)
     [(demo_env 0, post ''/api/login/begin'' None [(''username'', ''alice'')]),
      (demo_env 9, post ''/api/totp/verify'' (Some (random_token [1])) [(''code'', ''000000'')])] demo_server)
   \<and> lib_finish_login demo_lib demo_user () (post [] None []) = Inl ''denied''"
proof -
  have "read_json [''username''] (rq_body (post ''/api/login/begin'' None [(''username'', ''alice'')]))
      = Some ((\<lambda>_. [])(''username'' := ''alice''))"
    by (rule read_json_post) (simp_all add: ccode_def)
  moreover have "read_json [''code''] (rq_body (post ''/api/totp/verify'' (Some (random_token [1])) [(''code'', ''000000'')]))
      = Some ((\<lambda>_. [])(''code'' := ''000000''))"
    by (rule read_json_post) (simp_all add: ccode_def)
  moreover have "users (sv_store demo_server) ''alice'' = Some demo_user"
    by (simp add: demo_server_def)
  ultimately show ?thesis
    using totp_alone_authenticates
      [of "post ''/api/login/begin'' None [(''username'', ''alice'')]" "(\<lambda>_. [])(''username'' := ''alice'')"
        demo_server demo_user demo_lib "demo_env 0" "JObj []" "()"
        "post ''/api/totp/verify'' (Some (random_token [1])) [(''code'', ''000000'')]"
        "(\<lambda>_. [])(''code'' := ''000000'')" "demo_env 9"]
    by (simp add: route_def routes_def demo_lib_def demo_user_def has_totp_def session_ttl_def)
qed

definition demo_session :: "unit session" where
  "demo_session = (fresh_session 0)\<lparr>ses_username := ''alice''\<rparr>"

definition demo_pending :: "unit server" where
  "demo_pending = demo_server\<lparr>sv_sess := (sv_sess demo_server)\<lparr>ss_map := [''id'' \<mapsto> demo_session]\<rparr>\<rparr>"

lemma demo_pending_authed:
  "authed ''id'' (auth_step demo_lib
     (demo_env 9, post ''/api/totp/verify'' (Some ''id'') [(''code'', ''000000'')]) demo_pending)"
proof -
  have "read_json [''code''] (rq_body (post ''/api/totp/verify'' (Some ''id'') [(''code'', ''000000'')]))
      = Some ((\<lambda>_. [])(''code'' := ''000000''))"
    by (rule read_json_post) (simp_all add: ccode_def)
  then show ?thesis
    by (simp add: auth_step_serve serve_def route_def routes_def totp_verify_def sessions_get_def
        demo_pending_def demo_session_def demo_server_def demo_user_def demo_lib_def get_user_def
        fresh_session_def session_ttl_def has_totp_def authed_def)
qed

theorem authentication_requires_proof_witness:
  "\<exists>s u. ss_map (sv_sess demo_pending) ''id'' = Some s \<and>
     users (sv_store demo_pending) (ses_username s) = Some u \<and> user_totp u \<noteq> []"
proof -
  have "\<not> authed ''id'' demo_pending"
    by (simp add: authed_def demo_pending_def demo_session_def fresh_session_def)
  from authentication_requires_proof [OF demo_pending_authed this]
  show ?thesis by (auto simp: route_def routes_def)
qed

section \<open>The life of a session\<close>

text \<open>\<open>kept i sv sv'\<close>: if the id \<open>i\<close> is a session of \<open>sv'\<close>, it was one of \<open>sv\<close>, with the same expiry.\<close>

definition kept :: "string \<Rightarrow> 'sd server \<Rightarrow> 'sd server \<Rightarrow> bool" where
  "kept i sv sv' \<longleftrightarrow>
     (\<forall>s'. ss_map (sv_sess sv') i = Some s' \<longrightarrow>
        (\<exists>s. ss_map (sv_sess sv) i = Some s \<and> ses_expires s' = ses_expires s))"

text \<open>The session ids a request can create.\<close>

definition drawn :: "env \<times> request \<Rightarrow> string set" where
  "drawn x = {random_token (e_rand (fst x) 1), random_token (e_rand (fst x) 2)}"

lemma kept_same: "sv_sess sv' = sv_sess sv \<Longrightarrow> kept i sv sv'"
  by (simp add: kept_def)

lemma kept_trans: "kept i a b \<Longrightarrow> kept i b c \<Longrightarrow> kept i a c"
  by (auto simp: kept_def)

lemma kept_update:
  "sv_sess sv' = ss_update j f (sv_sess sv) \<Longrightarrow> (\<And>s. ses_expires (f s) = ses_expires s) \<Longrightarrow> kept i sv sv'"
  by (auto simp: kept_def split: if_splits)

named_theorems session_kept \<open>no handler extends a session\<close>

lemma register_begin_kept [session_kept]:
  "i \<notin> drawn (e, rq) \<Longrightarrow> kept i sv (fst (register_begin lib e rq sv))"
  by (auto simp: register_begin_def kept_def drawn_def dest!: get_or_createD
        split: option.splits sum.splits prod.splits if_splits)

lemma login_begin_kept [session_kept]:
  "i \<notin> drawn (e, rq) \<Longrightarrow> kept i sv (fst (login_begin lib e rq sv))"
  by (auto simp: login_begin_def kept_def drawn_def dest!: get_or_createD
        split: option.splits sum.splits prod.splits if_splits)

lemma register_finish_kept [session_kept]: "kept i sv (fst (register_finish lib e rq sv))"
  by (auto simp: register_finish_def Let_def intro: kept_same kept_update
        split: option.split sum.split prod.split)

lemma login_finish_kept [session_kept]: "kept i sv (fst (login_finish lib e rq sv))"
  by (auto simp: login_finish_def Let_def kept_def
        split: option.splits sum.splits prod.splits if_splits)

lemma totp_kept [session_kept]:
  "kept i sv (fst (totp_verify lib e rq sv))"
  "kept i sv (fst (totp_enroll lib e rq sv))"
  "kept i sv (fst (totp_confirm lib e rq sv))"
  by (auto simp: totp_verify_def totp_enroll_def totp_confirm_def Let_def intro: kept_same kept_update
        split: option.split sum.split prod.split)

lemma admin_kept [session_kept]:
  "kept i sv (fst (handle_create_invite e rq sv))"
  "kept i sv (fst (handle_create_agent_token e rq sv))"
  "kept i sv (fst (agent_check e rq sv))"
  "kept i sv (fst (session_info e rq sv))"
  by (auto simp: handle_create_invite_def handle_create_agent_token_def agent_check_def
        session_info_def intro: kept_same split: option.split sum.split prod.split)

lemma logout_kept [session_kept]: "kept i sv (fst (handle_logout rq sv))"
  by (auto simp: handle_logout_def sessions_destroy_def kept_def split: option.splits if_splits)

lemma auth_step_kept: "i \<notin> drawn x \<Longrightarrow> kept i sv (auth_step lib x sv)"
  by (cases x) (simp add: auth_step_serve serve_def session_kept kept_same
        split: option.split endpoint.split)

lemma auth_run_kept:
  "\<forall>x\<in>set es. i \<notin> drawn x \<Longrightarrow> kept i sv (fold (auth_step lib) es sv)"
proof (induction es arbitrary: sv)
  case (Cons x es)
  then show ?case using auth_step_kept [of i x sv lib] kept_trans by fastforce
qed (simp add: kept_same)

text \<open>A request that carries a live authenticated session.\<close>

definition logged_in :: "env \<Rightarrow> request \<Rightarrow> 'sd server \<Rightarrow> bool" where
  "logged_in e rq sv \<longleftrightarrow>
     (case sessions_get (e_now e) (rq_cookie rq) (sv_sess sv) of
        None \<Rightarrow> False | Some (i, s) \<Rightarrow> ses_authenticated s)"

text \<open>
  C23. A session has an absolute lifetime: whatever requests are served meanwhile, once the
  clock is past the expiry the session was created with, its cookie does not count as
  logged in (as long as the generator does not draw its id again).
\<close>

theorem session_absolute_lifetime:
  assumes "ss_map (sv_sess sv) i = Some s" and "ses_expires s < e_now e"
    and "rq_cookie rq = Some i" and "\<forall>x\<in>set es. i \<notin> drawn x"
  shows "\<not> logged_in e rq (fold (auth_step lib) es sv)"
  using auth_run_kept [OF assms(4), of sv lib] assms(1-3)
  by (auto simp: logged_in_def sessions_get_def kept_def split: option.splits if_splits)

text \<open>
  Logging out revokes the session for good: after a logout with the cookie \<open>i\<close>, no
  request with that cookie counts as logged in, whatever requests are served meanwhile.
\<close>

theorem logout_revokes:
  assumes "route rq = Some Logout" and "rq_cookie rq = Some i"
    and "rq_cookie rq' = Some i" and "\<forall>x\<in>set es. i \<notin> drawn x"
  shows "\<not> logged_in e' rq' (fold (auth_step lib) es (auth_step lib (e, rq) sv))"
proof -
  have "ss_map (sv_sess (auth_step lib (e, rq) sv)) i = None"
    using assms(1,2) by (simp add: auth_step_serve serve_def handle_logout_def sessions_destroy_def)
  then show ?thesis
    using auth_run_kept [OF assms(4), of "auth_step lib (e, rq) sv" lib] assms(3)
    by (auto simp: logged_in_def sessions_get_def kept_def split: option.splits)
qed

theorem session_absolute_lifetime_witness:
  "\<not> logged_in (demo_env (session_ttl + 1)) (post ''/api/invites'' (Some ''id'') [(''username'', ''bob'')])
     (fold (auth_step demo_lib)
       [(demo_env 9, post ''/api/totp/verify'' (Some ''id'') [(''code'', ''000000'')])] demo_pending)"
proof -
  have "ss_map (sv_sess demo_pending) ''id'' = Some demo_session" "ses_expires demo_session = session_ttl"
    by (simp_all add: demo_pending_def demo_session_def fresh_session_def)
  moreover have "''id'' \<notin> drawn (demo_env 9, rq)" for rq
    by (simp add: drawn_def hex_digits_def)
  ultimately show ?thesis
    using session_absolute_lifetime [of demo_pending "''id''" demo_session "demo_env (session_ttl + 1)"
        "post ''/api/invites'' (Some ''id'') [(''username'', ''bob'')]"
        "[(demo_env 9, post ''/api/totp/verify'' (Some ''id'') [(''code'', ''000000'')])]" demo_lib]
    by simp
qed

theorem logout_revokes_witness:
  "\<not> logged_in (demo_env 10) (post ''/api/invites'' (Some ''id'') [(''username'', ''bob'')])
     (fold (auth_step demo_lib) [(demo_env 9, post ''/api/totp/verify'' (Some ''id'') [(''code'', ''000000'')])]
       (auth_step demo_lib (demo_env 8, post ''/api/logout'' (Some ''id'') []) demo_pending))"
proof -
  have "''id'' \<notin> drawn (demo_env 9, rq)" for rq
    by (simp add: drawn_def hex_digits_def)
  then show ?thesis
    using logout_revokes [of "post ''/api/logout'' (Some ''id'') []" "''id''"
        "post ''/api/invites'' (Some ''id'') [(''username'', ''bob'')]"
        "[(demo_env 9, post ''/api/totp/verify'' (Some ''id'') [(''code'', ''000000'')])]"]
    by (simp add: route_def routes_def)
qed

section \<open>The guarded endpoints\<close>

definition guarded :: "endpoint set" where
  "guarded = {TotpEnroll, TotpConfirm, CreateInvite, CreateAgentToken, SessionInfo}"

lemma require_auth_refused:
  "\<not> logged_in e rq sv \<Longrightarrow> require_auth e rq sv = Inl (http_error 401 ''not authenticated'')"
  by (auto simp: require_auth_def logged_in_def split: option.splits)

lemma session_info_refused:
  "\<not> logged_in e rq sv \<Longrightarrow> session_info e rq sv = (sv, http_error 401 ''not authenticated'')"
  by (auto simp: session_info_def logged_in_def split: option.splits)

text \<open>
  A request that is not logged in gets status 401 from each guarded endpoint, with the
  same body, and leaves users, invites, tokens, sessions and the store file untouched.
\<close>

theorem guarded_endpoints:
  assumes "route rq = Some ep" and "ep \<in> guarded" and "\<not> logged_in e rq sv"
  shows "auth_handle lib e rq sv =
    (sv, (http_error 401 ''not authenticated'')
       \<lparr>rs_headers := cors_headers (cfg_cors_origins (sv_cfg sv)) (rq_origin rq)\<rparr>)"
  using assms route_OPTIONS [of rq]
  by (auto simp: auth_handle_def serve_def guarded_def require_auth_refused session_info_refused
        totp_enroll_def totp_confirm_def handle_create_invite_def handle_create_agent_token_def
        http_error_def write_json_def)

theorem guarded_endpoints_witness:
  "fst (auth_handle demo_lib (demo_env 5) (post ''/api/agent-tokens'' (Some ''id'') []) demo_pending) = demo_pending"
proof -
  have "\<not> logged_in (demo_env 5) (post ''/api/agent-tokens'' (Some ''id'') []) demo_pending"
    by (simp add: logged_in_def sessions_get_def demo_pending_def demo_session_def fresh_session_def
        session_ttl_def)
  then show ?thesis
    using guarded_endpoints [of "post ''/api/agent-tokens'' (Some ''id'') []" CreateAgentToken
        "demo_env 5" demo_pending demo_lib]
    by (simp add: guarded_def route_def routes_def)
qed

section \<open>The invariant of the service\<close>

text \<open>Users are filed under their own name, and an authenticated session belongs to a user.\<close>

definition auth_inv :: "'sd server \<Rightarrow> bool" where
  "auth_inv sv \<longleftrightarrow> store_wf (sv_store sv) \<and>
     (\<forall>i s. ss_map (sv_sess sv) i = Some s \<longrightarrow> ses_authenticated s \<longrightarrow>
        users (sv_store sv) (ses_username s) \<noteq> None)"

named_theorems auth_inv_steps \<open>every handler keeps the invariant\<close>

lemma register_user_users:
  "register_user e k st = (st', r) \<Longrightarrow> store_wf st \<Longrightarrow>
   store_wf st' \<and> dom (users st) \<subseteq> dom (users st') \<and> (\<forall>u. r = Inr u \<longrightarrow> users st' k = Some u)"
  by (auto simp: register_user_def get_user_def store_wf_def create_user_def save_return_def Let_def
        split: option.splits auth_err.splits prod.splits sum.splits if_splits
        dest!: arg_cong [where f = fst])

lemma auth_inv_sess:
  assumes "auth_inv sv" and "sv_store sv' = sv_store sv"
    and "\<And>i s'. ss_map (sv_sess sv') i = Some s' \<Longrightarrow> ses_authenticated s' \<Longrightarrow>
      (\<exists>s. ss_map (sv_sess sv) i = Some s \<and> ses_authenticated s \<and> ses_username s' = ses_username s)
      \<or> users (sv_store sv) (ses_username s') \<noteq> None"
  shows "auth_inv sv'"
  using assms unfolding auth_inv_def by metis

lemma auth_inv_store:
  assumes "auth_inv sv" and "sv_sess sv' = sv_sess sv"
    and "users (sv_store sv') = users (sv_store sv)"
  shows "auth_inv sv'"
  using assms by (simp add: auth_inv_def store_wf_def)

lemma register_begin_inv [auth_inv_steps]:
  assumes "auth_inv sv"
  shows "auth_inv (fst (register_begin lib e rq sv))"
proof -
  have grow: "auth_inv (sv\<lparr>sv_store := st\<rparr>)" if "register_user e k (sv_store sv) = (st, r)" for k st r
    using assms register_user_users [OF that] by (fastforce simp: auth_inv_def)
  have new: "auth_inv (sv\<lparr>sv_store := st, sv_sess := ss_update i f ss\<rparr>)"
    if "register_user e k (sv_store sv) = (st, r)" and "\<forall>s. \<not> ses_authenticated (f s)"
      and "sessions_get_or_create (e_now e) (e_rand e 2) (rq_cookie rq) (sv_sess sv) = (i, ss, cs)"
    for k st r i f ss cs
    using grow [OF that(1)] get_or_createD [OF that(3)] that(2)
    by (auto simp: auth_inv_def split: if_splits)
  show ?thesis
    by (auto simp: register_begin_def assms intro: grow new
          split: option.split sum.split prod.split)
qed

lemma login_begin_inv [auth_inv_steps]:
  "auth_inv sv \<Longrightarrow> auth_inv (fst (login_begin lib e rq sv))"
  by (auto simp: login_begin_def auth_inv_def dest!: get_or_createD
        split: option.splits sum.splits prod.splits if_splits)

lemma register_finish_inv [auth_inv_steps]:
  "auth_inv sv \<Longrightarrow> auth_inv (fst (register_finish lib e rq sv))"
  by (auto simp: register_finish_def auth_inv_def store_wf_def Let_def sessions_get_Some
        dest!: put_userD(1) split: option.splits sum.splits prod.splits if_splits)

lemma login_finish_inv [auth_inv_steps]:
  "auth_inv sv \<Longrightarrow> auth_inv (fst (login_finish lib e rq sv))"
  by (auto simp: login_finish_def auth_inv_def store_wf_def Let_def sessions_get_Some
        split: option.splits sum.splits prod.splits if_splits)

lemma totp_verify_inv [auth_inv_steps]:
  "auth_inv sv \<Longrightarrow> auth_inv (fst (totp_verify lib e rq sv))"
  by (auto simp: totp_verify_def auth_inv_def sessions_get_Some
        split: option.splits sum.splits prod.splits if_splits)

lemma totp_enroll_inv [auth_inv_steps]:
  "auth_inv sv \<Longrightarrow> auth_inv (fst (totp_enroll lib e rq sv))"
  by (auto simp: totp_enroll_def auth_inv_def
        split: option.splits sum.splits prod.splits if_splits)

lemma totp_confirm_inv [auth_inv_steps]:
  "auth_inv sv \<Longrightarrow> auth_inv (fst (totp_confirm lib e rq sv))"
  by (auto simp: totp_confirm_def auth_inv_def store_wf_def require_auth_def Let_def
        dest!: put_userD(1) split: option.splits sum.splits prod.splits if_splits)

lemma admin_inv [auth_inv_steps]:
  "auth_inv sv \<Longrightarrow> auth_inv (fst (handle_create_invite e rq sv))"
  "auth_inv sv \<Longrightarrow> auth_inv (fst (handle_create_agent_token e rq sv))"
  "auth_inv sv \<Longrightarrow> auth_inv (fst (agent_check e rq sv))"
  "auth_inv sv \<Longrightarrow> auth_inv (fst (session_info e rq sv))"
  by (auto simp: handle_create_invite_def handle_create_agent_token_def agent_check_def
        session_info_def dest: store_opsD elim!: auth_inv_store split: option.split sum.split prod.split)

lemma logout_inv [auth_inv_steps]: "auth_inv sv \<Longrightarrow> auth_inv (fst (handle_logout rq sv))"
  by (auto simp: handle_logout_def sessions_destroy_def auth_inv_def split: option.splits if_splits)

lemma auth_step_inv: "auth_inv sv \<Longrightarrow> auth_inv (auth_step lib x sv)"
  by (cases x) (simp add: auth_step_serve serve_def auth_inv_steps split: option.split endpoint.split)

interpretation auth: stepper "auth_step lib" auth_inv for lib
  by unfold_locales (rule auth_step_inv)

lemma new_server_inv: "new_server lib cfg st = Inr sv \<Longrightarrow> store_wf st \<Longrightarrow> auth_inv sv"
  by (auto simp: new_server_def auth_inv_def new_sessions_def Let_def split: option.splits if_splits)

text \<open>
  C28. In every state the service reaches from \<open>New\<close> on a well-formed store, an authenticated
  session names an existing user, filed under that name: the refusal \<open>unknown user\<close> of
  \<open>requireAuth\<close> is unreachable, and an accepted request acts for the session's own user.
\<close>

theorem authenticated_user_exists:
  assumes "new_server lib cfg st = Inr sv" and "store_wf st"
    and "logged_in e rq (fold (auth_step lib) es sv)"
  shows "\<exists>i s u. require_auth e rq (fold (auth_step lib) es sv) = Inr (i, s, u) \<and>
    rq_cookie rq = Some i \<and> user_name u = ses_username s"
proof -
  have "auth_inv (fold (auth_step lib) es sv)"
    using auth.inv_run new_server_inv [OF assms(1,2)] by blast
  then show ?thesis
    using assms(3)
    by (fastforce simp: logged_in_def require_auth_def get_user_def auth_inv_def store_wf_def
          sessions_get_Some split: option.splits)
qed

lemma demo_new_server: "new_server demo_lib demo_cfg (sv_store demo_server) = Inr demo_server"
  by (simp add: new_server_def demo_lib_def demo_cfg_def demo_server_def hour_def Let_def)

lemma demo_store_wf: "store_wf (sv_store demo_server)"
  by (simp add: store_wf_def demo_server_def demo_user_def example_store_def empty_data_def)

text \<open>The two requests that log the demo user in, and the state after them.\<close>

definition demo_logins :: "(env \<times> request) list" where
  "demo_logins =
     [(demo_env 0, post ''/api/login/begin'' None [(''username'', ''alice'')]),
      (demo_env 9, post ''/api/totp/verify'' (Some (random_token [1])) [(''code'', ''000000'')])]"

lemma demo_lib_simps [simp]:
  "lib_begin_login demo_lib u r = Inr (JObj [], ())"
  "lib_finish_registration demo_lib u sd rq = Inr \<lparr>cred_id = [7], cred_sign_count = 0, cred_rest = []\<rparr>"
  "lib_totp_validate demo_lib now code secret \<longleftrightarrow> code = ''000000''"
  by (simp_all add: demo_lib_def)

lemma demo_server_user [simp]: "users (sv_store demo_server) = [''alice'' \<mapsto> demo_user]"
  by (simp add: demo_server_def)

lemma demo_logged_in:
  "fold (auth_step demo_lib) demo_logins demo_server = demo_server\<lparr>sv_sess := (sv_sess demo_server)
     \<lparr>ss_map := [random_token [1] \<mapsto> (fresh_session 0)\<lparr>ses_username := ''alice'',
        ses_ceremony := Some (), ses_authenticated := True\<rparr>]\<rparr>\<rparr>"
proof -
  let ?start = "post ''/api/login/begin'' None [(''username'', ''alice'')]"
  let ?verify = "post ''/api/totp/verify'' (Some (random_token [1])) [(''code'', ''000000'')]"
  have "read_json [''username''] (rq_body ?start) = Some ((\<lambda>_. [])(''username'' := ''alice''))"
    by (rule read_json_post) (simp_all add: ccode_def)
  then have first: "auth_step demo_lib (demo_env 0, ?start) demo_server = demo_server\<lparr>sv_sess := (sv_sess demo_server)
     \<lparr>ss_map := (ss_map (sv_sess demo_server))(random_token [1] \<mapsto> (fresh_session 0)\<lparr>ses_username := ''alice'', ses_ceremony := Some ()\<rparr>)\<rparr>\<rparr>"
    by (subst auth_step_login_begin [where q = "(\<lambda>_. [])(''username'' := ''alice'')" and u = demo_user and opts = "JObj []" and sd = "()"])
       (simp_all add: route_def routes_def)
  have "read_json [''code''] (rq_body ?verify) = Some ((\<lambda>_. [])(''code'' := ''000000''))"
    by (rule read_json_post) (simp_all add: ccode_def)
  then show ?thesis
    by (simp add: demo_logins_def first)
       (simp add: auth_step_serve serve_def route_def routes_def totp_verify_def sessions_get_def
         fresh_session_def session_ttl_def get_user_def has_totp_def demo_user_def demo_server_def
         new_sessions_def ss_update_def)
qed

theorem authenticated_user_exists_witness:
  "\<exists>i s u. require_auth (demo_env 20) (post ''/api/invites'' (Some (random_token [1])) [])
     (fold (auth_step demo_lib) demo_logins demo_server) = Inr (i, s, u) \<and> user_name u = ses_username s"
proof -
  have "logged_in (demo_env 20) (post ''/api/invites'' (Some (random_token [1])) [])
      (fold (auth_step demo_lib) demo_logins demo_server)"
    by (simp add: demo_logged_in logged_in_def sessions_get_def fresh_session_def session_ttl_def)
  from authenticated_user_exists [OF demo_new_server demo_store_wf this] show ?thesis by blast
qed

section \<open>Registration, login counters, TOTP enrollment\<close>

lemma save_snd: "st_path s = st_path t \<Longrightarrow> snd (save oc s) = snd (save oc t)"
  by (simp add: save_def Let_def split: write_outcome.split)

lemma put_user_snd:
  "snd (put_user oc u (update_user k f (set_invites m st))) = snd (put_user oc u (update_user k f st))"
  unfolding put_user_def by (rule save_snd) (simp add: update_user_def)

definition with_invites :: "(string \<rightharpoonup> token) \<Rightarrow> 'sd server \<Rightarrow> 'sd server" where
  "with_invites m sv = sv\<lparr>sv_store := set_invites m (sv_store sv)\<rparr>"

text \<open>
  \<open>registerFinish\<close> does not depend on the invite it consumes: with the table of invites
  replaced by any other, the response, the sessions and the users are the same. An invite
  that expired, or that another browser has used since \<open>registerBegin\<close>, still registers a
  credential and logs its bearer in.
\<close>

theorem register_finish_ignores_invites:
  "snd (register_finish lib e rq (with_invites m sv)) = snd (register_finish lib e rq sv) \<and>
   sv_sess (fst (register_finish lib e rq (with_invites m sv))) = sv_sess (fst (register_finish lib e rq sv)) \<and>
   users (sv_store (fst (register_finish lib e rq (with_invites m sv)))) =
     users (sv_store (fst (register_finish lib e rq sv)))"
  by (auto simp: with_invites_def register_finish_def get_user_def Let_def put_user_snd split_beta
        split: option.split sum.split)

lemma bump_sign_count_length [simp]: "length (bump_sign_count i n cs) = length cs"
  by (induction cs) simp_all

lemma bump_sign_count_ids [simp]: "map cred_id (bump_sign_count i n cs) = map cred_id cs"
  by (induction cs) simp_all

lemma bump_sign_count_absent: "i \<notin> cred_id ` set cs \<Longrightarrow> bump_sign_count i n cs = cs"
  by (induction cs) auto

lemma bump_sign_count_at:
  "j < length cs \<Longrightarrow> cred_id (cs ! j) = i \<Longrightarrow> i \<notin> cred_id ` set (take j cs) \<Longrightarrow>
   bump_sign_count i n cs = cs[j := (cs ! j)\<lparr>cred_sign_count := n\<rparr>]"
proof (induction cs arbitrary: j)
  case (Cons c cs)
  then show ?case by (cases j) auto
qed simp

text \<open>
  A login that the library accepts answers 200, stores the returned signature counter in
  the credential that signed and in no other, whatever becomes of the save, and makes the
  session authenticated at once exactly when the user has no TOTP secret.
\<close>

theorem login_finish_outcome:
  assumes "sessions_get (e_now e) (rq_cookie rq) (sv_sess sv) = Some (i, s)" and "\<not> ses_authenticated s"
    and "ses_ceremony s = Some sd" and "ses_username s \<noteq> []"
    and "users (sv_store sv) (ses_username s) = Some u" and "user_name u = ses_username s"
    and "lib_finish_login lib u sd rq = Inr cred"
    and "j < length (user_credentials u)" and "cred_id (user_credentials u ! j) = cred_id cred"
    and "cred_id cred \<notin> cred_id ` set (take j (user_credentials u))"
  shows "rs_status (snd (login_finish lib e rq sv)) = 200 \<and>
    users (sv_store (fst (login_finish lib e rq sv))) = (users (sv_store sv))(ses_username s \<mapsto>
      u\<lparr>user_credentials := (user_credentials u)
        [j := (user_credentials u ! j)\<lparr>cred_sign_count := cred_sign_count cred\<rparr>]\<rparr>) \<and>
    (authed i (fst (login_finish lib e rq sv)) \<longleftrightarrow> user_totp u = [])"
proof -
  have "ss_map (sv_sess sv) i = Some s" using assms(1) by (simp add: sessions_get_Some)
  then show ?thesis
    using assms(1-7) bump_sign_count_at [OF assms(8-10), of "cred_sign_count cred"]
    by (auto simp: login_finish_def get_user_def Let_def write_json_def authed_def has_totp_def)
qed

definition demo_cred :: "32 word \<Rightarrow> credential" where
  "demo_cred n = \<lparr>cred_id = [7], cred_sign_count = n, cred_rest = []\<rparr>"

theorem login_finish_outcome_witness:
  "authed ''id'' (fst (login_finish (demo_lib\<lparr>lib_finish_login := \<lambda>u sd rq. Inr (demo_cred 4)\<rparr>) (demo_env 9)
     (post ''/api/login/finish'' (Some ''id'') [])
     (demo_server\<lparr>sv_store := set_users [''alice'' \<mapsto> demo_user\<lparr>user_totp := [], user_credentials := [demo_cred 3]\<rparr>] example_store,
       sv_sess := (sv_sess demo_server)\<lparr>ss_map := [''id'' \<mapsto> demo_session\<lparr>ses_ceremony := Some ()\<rparr>]\<rparr>\<rparr>)))"
  using login_finish_outcome [of "demo_env 9" "post ''/api/login/finish'' (Some ''id'') []"
      "demo_server\<lparr>sv_store := set_users [''alice'' \<mapsto> demo_user\<lparr>user_totp := [], user_credentials := [demo_cred 3]\<rparr>] example_store,
       sv_sess := (sv_sess demo_server)\<lparr>ss_map := [''id'' \<mapsto> demo_session\<lparr>ses_ceremony := Some ()\<rparr>]\<rparr>\<rparr>"
      "''id''" "demo_session\<lparr>ses_ceremony := Some ()\<rparr>" "()"
      "demo_user\<lparr>user_totp := [], user_credentials := [demo_cred 3]\<rparr>"
      "demo_lib\<lparr>lib_finish_login := \<lambda>u sd rq. Inr (demo_cred 4)\<rparr>" "demo_cred 4" 0]
  by (simp add: sessions_get_def demo_session_def fresh_session_def session_ttl_def demo_user_def demo_cred_def)

text \<open>
  \<open>totpConfirm\<close> with a valid code sets the user's secret in memory in every case, also
  when it answers 500 because the save failed: the next login of the user asks for TOTP.
\<close>

theorem totp_confirm_outcome:
  assumes "require_auth e rq sv = Inr (i, s, u)" and "user_name u = ses_username s"
    and "read_json [''code''] (rq_body rq) = Some q" and "ses_pending_totp s \<noteq> []"
    and "lib_totp_validate lib (e_now e) (q ''code'') (ses_pending_totp s)"
  shows "users (sv_store (fst (totp_confirm lib e rq sv))) =
      (users (sv_store sv))(ses_username s \<mapsto> u\<lparr>user_totp := ses_pending_totp s\<rparr>) \<and>
    rs_status (snd (totp_confirm lib e rq sv)) =
      (if snd (save (e_io e 0) (sv_store sv)) = None then 200 else 500)"
proof -
  let ?u = "u\<lparr>user_totp := ses_pending_totp s\<rparr>"
  let ?st = "update_user (ses_username s) (\<lambda>_. ?u) (sv_store sv)"
  have "snd (put_user (e_io e 0) ?u ?st) = snd (save (e_io e 0) (sv_store sv))"
    unfolding put_user_def by (rule save_snd) (simp add: update_user_def)
  moreover have "users (fst (put_user (e_io e 0) ?u ?st)) = (users (sv_store sv))(ses_username s \<mapsto> ?u)"
    using assms(2) by simp
  ultimately show ?thesis
    using assms
    by (cases "put_user (e_io e 0) ?u ?st")
       (auto simp: totp_confirm_def Let_def write_json_def http_error_def split: option.split)
qed

definition no_disk :: io where
  "no_disk = io_ok\<lparr>io_write := WriteRefused\<rparr>"

theorem totp_confirm_outcome_witness:
  "rs_status (snd (totp_confirm demo_lib ((demo_env 9)\<lparr>e_io := \<lambda>_. no_disk\<rparr>)
     (post ''/api/totp/confirm'' (Some ''id'') [(''code'', ''000000'')])
     (demo_server\<lparr>sv_sess := (sv_sess demo_server)\<lparr>ss_map :=
       [''id'' \<mapsto> demo_session\<lparr>ses_authenticated := True, ses_pending_totp := ''NEW''\<rparr>]\<rparr>\<rparr>))) = 500"
proof -
  let ?s = "demo_session\<lparr>ses_authenticated := True, ses_pending_totp := ''NEW''\<rparr>"
  let ?sv = "demo_server\<lparr>sv_sess := (sv_sess demo_server)\<lparr>ss_map := [''id'' \<mapsto> ?s]\<rparr>\<rparr>"
  let ?rq = "post ''/api/totp/confirm'' (Some ''id'') [(''code'', ''000000'')]"
  let ?e = "(demo_env 9)\<lparr>e_io := \<lambda>_. no_disk\<rparr>"
  have "read_json [''code''] (rq_body ?rq) = Some ((\<lambda>_. [])(''code'' := ''000000''))"
    by (rule read_json_post) (simp_all add: ccode_def)
  moreover have "require_auth ?e ?rq ?sv = Inr (''id'', ?s, demo_user)"
    by (simp add: require_auth_def sessions_get_def demo_session_def fresh_session_def session_ttl_def
        get_user_def)
  moreover have "snd (save no_disk (sv_store demo_server)) \<noteq> None"
    by (simp add: save_def no_disk_def io_ok_def demo_server_def example_store_def Let_def)
  ultimately show ?thesis
    using totp_confirm_outcome [of ?e ?rq ?sv "''id''" ?s demo_user "(\<lambda>_. [])(''code'' := ''000000'')" demo_lib]
    by (simp add: demo_user_def demo_session_def fresh_session_def)
qed

section \<open>Cross-origin requests\<close>

lemma response_headers [simp]:
  "rs_headers (http_error n m) = []" "rs_headers (write_json n v) = []"
  "rs_headers (with_cookies cs r) = rs_headers r" "rs_headers (plain_response n) = []"
  by (simp_all add: http_error_def write_json_def with_cookies_def plain_response_def)

lemma ceremony_headers:
  "rs_headers (snd (register_begin lib e rq sv)) = []" "rs_headers (snd (register_finish lib e rq sv)) = []"
  "rs_headers (snd (login_begin lib e rq sv)) = []" "rs_headers (snd (login_finish lib e rq sv)) = []"
  by (simp_all add: register_begin_def register_finish_def login_begin_def login_finish_def Let_def
        split: option.split sum.split prod.split)

lemma require_auth_headers: "require_auth e rq sv = Inl r \<Longrightarrow> rs_headers r = []"
  by (auto simp: require_auth_def split: option.splits sum.splits prod.splits if_splits)

lemma totp_headers:
  "rs_headers (snd (totp_verify lib e rq sv)) = []" "rs_headers (snd (totp_enroll lib e rq sv)) = []"
  "rs_headers (snd (totp_confirm lib e rq sv)) = []"
  by (simp_all add: totp_verify_def totp_enroll_def totp_confirm_def Let_def require_auth_headers
        split: option.split sum.split prod.split)

lemma admin_headers:
  "rs_headers (snd (handle_create_invite e rq sv)) = []" "rs_headers (snd (handle_create_agent_token e rq sv)) = []"
  "rs_headers (snd (agent_check e rq sv)) = []" "rs_headers (snd (session_info e rq sv)) = []"
  "rs_headers (snd (handle_logout rq sv)) = []"
  by (simp_all add: handle_create_invite_def handle_create_agent_token_def agent_check_def session_info_def
        handle_logout_def Let_def require_auth_headers split_beta split: option.split sum.split prod.split)

lemma serve_headers [simp]: "rs_headers (snd (serve lib e rq sv)) = []"
  by (simp add: serve_def ceremony_headers totp_headers admin_headers split: option.split endpoint.split)

text \<open>
  A response names an allowed origin only if the request's origin is in the configured
  list, and then exactly that origin (never a wildcard, though credentials are allowed); a
  preflight request is answered with 204 and changes nothing.
\<close>

theorem cors_allowlist:
  "map_of (rs_headers (snd (auth_handle lib e rq sv))) ''Access-Control-Allow-Origin'' =
     (if rq_origin rq \<in> set (cfg_cors_origins (sv_cfg sv)) - {[]} then Some (rq_origin rq) else None) \<and>
   fst (auth_handle lib e (rq\<lparr>rq_method := ''OPTIONS''\<rparr>) sv) = sv \<and>
   rs_status (snd (auth_handle lib e (rq\<lparr>rq_method := ''OPTIONS''\<rparr>) sv)) = 204"
  by (auto simp: auth_handle_def cors_headers_def split_beta plain_response_def)

end
