(* ===== verification/AuthConcurrent.thy ===== *)
theory AuthConcurrent
  imports AuthServer
begin

text \<open>
  The handlers of the identity service as they run: every request has its own goroutine, the
  store and the map of sessions have a lock each that is held for one operation only, and the
  session and user structs behind their pointers are read and written without any lock. A handler is
  a program that the scheduler may interrupt between any two of: an operation of the store or of
  the map of sessions, a call of a library, a condition on shared data, an assignment to a
  field. What \<open>AuthServer\<close> does in one step is such a program run without interruption
  (\<open>AuthAlone\<close> proves it).
\<close>

section \<open>Shared state\<close>

text \<open>
  The sessions are objects; the map from cookies to them holds pointers, and a handler that has
  got a pointer keeps it. Users are never taken out of the store and keep their name, so the pointer to a user
  is the user's entry in the store.
\<close>

record 'sd web =
  wb_cfg :: auth_config
  wb_store :: store
  wb_index :: "string \<rightharpoonup> nat"
  wb_heap :: "nat \<Rightarrow> 'sd session"
  wb_next :: nat
  wb_secure :: bool

section \<open>Programs\<close>

text \<open>\<open>Abort\<close>: the handler panics, and the HTTP server closes the connection without an answer.\<close>

datatype 'sd prog =
    Return response
  | Abort
  | Step "env \<Rightarrow> 'sd web \<Rightarrow> 'sd web \<times> 'sd prog"

definition set_session :: "nat \<Rightarrow> ('sd session \<Rightarrow> 'sd session) \<Rightarrow> 'sd web \<Rightarrow> 'sd web" where
  "set_session p f w = w\<lparr>wb_heap := (wb_heap w)(p := f (wb_heap w p))\<rparr>"

text \<open>One assignment through a pointer to a session.\<close>

definition assign :: "nat \<Rightarrow> ('sd session \<Rightarrow> 'sd session) \<Rightarrow> 'sd prog \<Rightarrow> 'sd prog" where
  "assign p f k = Step (\<lambda>e w. (set_session p f w, k))"

definition assign_user :: "string \<Rightarrow> ('sd web \<Rightarrow> user \<Rightarrow> user) \<Rightarrow> 'sd prog \<Rightarrow> 'sd prog" where
  "assign_user name f k = Step (\<lambda>e w. (w\<lparr>wb_store := update_user name (f w) (wb_store w)\<rparr>, k))"

text \<open>\<open>deref\<close>: the pointer of a user that \<open>GetUser\<close> has returned is never nil.\<close>

definition deref :: "string \<Rightarrow> 'sd web \<Rightarrow> (user \<Rightarrow> 'sd web \<times> 'sd prog) \<Rightarrow> 'sd web \<times> 'sd prog" where
  "deref name w k = (case users (wb_store w) name of None \<Rightarrow> (w, Abort) | Some u \<Rightarrow> k u)"

definition write_user :: "string \<Rightarrow> nat \<Rightarrow> (auth_err option \<Rightarrow> user \<Rightarrow> 'sd prog) \<Rightarrow> 'sd prog" where
  "write_user name n k = Step (\<lambda>e w. deref name w (\<lambda>u.
     case put_user (e_io e n) u (wb_store w) of (st, x) \<Rightarrow> (w\<lparr>wb_store := st\<rparr>, k x u)))"

section \<open>Sessions\<close>

text \<open>\<open>sessions.get\<close>, in its critical section.\<close>

definition find_session :: "int \<Rightarrow> string option \<Rightarrow> 'sd web \<Rightarrow> nat option" where
  "find_session now cookie w =
     (case cookie of
        None \<Rightarrow> None
      | Some v \<Rightarrow>
          (case wb_index w v of
             None \<Rightarrow> None
           | Some p \<Rightarrow> if ses_expires (wb_heap w p) < now then None else Some p))"

definition with_session :: "request \<Rightarrow> 'sd prog \<Rightarrow> (nat \<Rightarrow> 'sd prog) \<Rightarrow> 'sd prog" where
  "with_session rq none k = Step (\<lambda>e w.
     (w, case find_session (e_now e) (rq_cookie rq) w of None \<Rightarrow> none | Some p \<Rightarrow> k p))"

text \<open>\<open>sessions.getOrCreate\<close> looks first and inserts later, in two critical sections.\<close>

definition insert_session :: "int \<Rightarrow> string \<Rightarrow> 'sd web \<Rightarrow> 'sd web" where
  "insert_session now i w = w\<lparr>wb_index := (wb_index w)(i \<mapsto> wb_next w),
     wb_heap := (wb_heap w)(wb_next w := fresh_session now), wb_next := Suc (wb_next w)\<rparr>"

definition session_cookie :: "bool \<Rightarrow> string \<Rightarrow> cookie" where
  "session_cookie secure i = \<lparr>ck_name = cookie_name, ck_value = i, ck_path = ''/'', ck_http_only = True,
     ck_secure = secure, ck_lax = True, ck_max_age = 12 * 3600\<rparr>"

definition get_or_create :: "request \<Rightarrow> nat \<Rightarrow> (nat \<Rightarrow> cookie list \<Rightarrow> 'sd prog) \<Rightarrow> 'sd prog" where
  "get_or_create rq n k = with_session rq
     (Step (\<lambda>e w. let i = random_token (e_rand e n) in
        (insert_session (e_now e) i w, k (wb_next w) [session_cookie (wb_secure w) i])))
     (\<lambda>p. k p [])"

text \<open>
  The beginning of \<open>registerFinish\<close> and \<open>loginFinish\<close>: the session, the check that a ceremony is
  pending, and the user of the name that the session has by then.
\<close>

definition pending_user :: "request \<Rightarrow> string \<Rightarrow> response \<Rightarrow> (nat \<Rightarrow> string \<Rightarrow> 'sd prog) \<Rightarrow> 'sd prog" where
  "pending_user rq idle unknown k =
     with_session rq (Return (http_error 400 idle)) (\<lambda>p. Step (\<lambda>e w.
       if ses_ceremony (wb_heap w p) = None \<or> ses_username (wb_heap w p) = []
       then (w, Return (http_error 400 idle))
       else (w, Step (\<lambda>e w. (w, let name = ses_username (wb_heap w p) in
         case get_user name (wb_store w) of Inl _ \<Rightarrow> Return unknown | Inr _ \<Rightarrow> k p name)))))"

text \<open>\<open>*sess.Ceremony\<close>: a nil pointer if another handler has finished the ceremony meanwhile.\<close>

definition ceremony :: "nat \<Rightarrow> 'sd web \<Rightarrow> ('sd \<Rightarrow> 'sd web \<times> 'sd prog) \<Rightarrow> 'sd web \<times> 'sd prog" where
  "ceremony p w k = (case ses_ceremony (wb_heap w p) of None \<Rightarrow> (w, Abort) | Some sd \<Rightarrow> k sd)"

definition required_auth :: "request \<Rightarrow> (nat \<Rightarrow> string \<Rightarrow> 'sd prog) \<Rightarrow> 'sd prog" where
  "required_auth rq k =
     with_session rq (Return (http_error 401 ''not authenticated'')) (\<lambda>p. Step (\<lambda>e w.
       if \<not> ses_authenticated (wb_heap w p) then (w, Return (http_error 401 ''not authenticated''))
       else (w, Step (\<lambda>e w. (w, let name = ses_username (wb_heap w p) in
         case get_user name (wb_store w) of
           Inl _ \<Rightarrow> Return (http_error 401 ''unknown user'') | Inr _ \<Rightarrow> k p name)))))"

section \<open>WebAuthn registration\<close>

definition register_options :: "'sd auth_lib \<Rightarrow> request \<Rightarrow> string \<Rightarrow> string \<Rightarrow> 'sd prog" where
  "register_options lib rq invite username = Step (\<lambda>e w. deref username w (\<lambda>user. (w,
     case lib_begin_registration lib user (e_rand e 1) of
       Inl m \<Rightarrow> Return (http_error 500 m)
     | Inr (options, sd) \<Rightarrow>
         get_or_create rq 2 (\<lambda>p cs.
            assign p (\<lambda>s. s\<lparr>ses_username := username\<rparr>)
           (assign p (\<lambda>s. s\<lparr>ses_ceremony := Some sd\<rparr>)
           (assign p (\<lambda>s. s\<lparr>ses_pending_invite := invite\<rparr>)
           (assign p (\<lambda>s. s\<lparr>ses_authenticated := False\<rparr>)
           (Return (with_cookies cs (write_json 200 options))))))))))"

definition register_begin_prog :: "'sd auth_lib \<Rightarrow> request \<Rightarrow> 'sd prog" where
  "register_begin_prog lib rq =
     (case read_json [''username'', ''invite_token''] (rq_body rq) of
        None \<Rightarrow> Return (http_error 400 ''invalid JSON body'')
      | Some req \<Rightarrow> Step (\<lambda>e w. (w,
          case peek_invite (e_now e) (req ''invite_token'') (wb_store w) of
            Inl _ \<Rightarrow> Return (http_error 403 ''invalid or expired invite'')
          | Inr username \<Rightarrow> Step (\<lambda>e w. (w,
              case get_user username (wb_store w) of
                Inr _ \<Rightarrow> register_options lib rq (req ''invite_token'') username
              | Inl ErrNotFound \<Rightarrow> Step (\<lambda>e w.
                  case create_user (e_io e 0) (e_now e) (e_rand e 0) username (wb_store w) of
                    (st, Inr _) \<Rightarrow> (w\<lparr>wb_store := st\<rparr>, register_options lib rq (req ''invite_token'') username)
                  | (st, Inl x) \<Rightarrow> (w\<lparr>wb_store := st\<rparr>, Return (http_error 409 (err_text x))))
              | Inl x \<Rightarrow> Return (http_error 500 (err_text x)))))))"

definition register_finish_prog :: "'sd auth_lib \<Rightarrow> request \<Rightarrow> 'sd prog" where
  "register_finish_prog lib rq =
     pending_user rq ''no registration in progress'' (http_error 400 ''unknown user'') (\<lambda>p name.
       Step (\<lambda>e w. ceremony p w (\<lambda>sd. deref name w (\<lambda>user.
         (w, case lib_finish_registration lib user sd rq of
            Inl m \<Rightarrow> Return (http_error 400 (''registration failed: '' @ m))
          | Inr cred \<Rightarrow>
              assign_user name (\<lambda>w u. u\<lparr>user_credentials := user_credentials u @ [cred]\<rparr>)
             (write_user name 0 (\<lambda>x u. case x of
                Some x \<Rightarrow> Return (http_error 500 (err_text x))
              | None \<Rightarrow> Step (\<lambda>e w.
                  (w\<lparr>wb_store := fst (consume_invite (e_io e 1) (e_now e)
                       (ses_pending_invite (wb_heap w p)) (wb_store w))\<rparr>,
                   assign p (\<lambda>s. s\<lparr>ses_ceremony := None\<rparr>)
                  (assign p (\<lambda>s. s\<lparr>ses_pending_invite := []\<rparr>)
                  (assign p (\<lambda>s. s\<lparr>ses_authenticated := True\<rparr>)
                  (Return (write_json 200 (JObj [(''ok'', JBool True), (''username'', JStr (user_name u))]))))))))))))))"

section \<open>WebAuthn login\<close>

definition login_begin_prog :: "'sd auth_lib \<Rightarrow> request \<Rightarrow> 'sd prog" where
  "login_begin_prog lib rq =
     (case read_json [''username''] (rq_body rq) of
        None \<Rightarrow> Return (http_error 400 ''invalid JSON body'')
      | Some req \<Rightarrow> Step (\<lambda>e w. (w,
          case get_user (req ''username'') (wb_store w) of
            Inl _ \<Rightarrow> Return (http_error 401 ''unknown user'')
          | Inr _ \<Rightarrow> Step (\<lambda>e w. deref (req ''username'') w (\<lambda>user. (w,
              case lib_begin_login lib user (e_rand e 0) of
                Inl m \<Rightarrow> Return (http_error 500 m)
              | Inr (options, sd) \<Rightarrow>
                  get_or_create rq 1 (\<lambda>p cs.
                     assign p (\<lambda>s. s\<lparr>ses_username := req ''username''\<rparr>)
                    (assign p (\<lambda>s. s\<lparr>ses_ceremony := Some sd\<rparr>)
                    (assign p (\<lambda>s. s\<lparr>ses_authenticated := False\<rparr>)
                    (Return (with_cookies cs (write_json 200 options))))))))))))"

definition login_finish_prog :: "'sd auth_lib \<Rightarrow> request \<Rightarrow> 'sd prog" where
  "login_finish_prog lib rq =
     pending_user rq ''no login in progress'' (http_error 401 ''unknown user'') (\<lambda>p name.
       Step (\<lambda>e w. ceremony p w (\<lambda>sd. deref name w (\<lambda>user.
         (w, case lib_finish_login lib user sd rq of
            Inl _ \<Rightarrow> Return (http_error 401 ''login failed'')
          | Inr cred \<Rightarrow>
              assign_user name (\<lambda>w u. u\<lparr>user_credentials :=
                bump_sign_count (cred_id cred) (cred_sign_count cred) (user_credentials u)\<rparr>)
             (write_user name 0 (\<lambda>_ _.
                assign p (\<lambda>s. s\<lparr>ses_ceremony := None\<rparr>)
               (Step (\<lambda>e w. deref name w (\<lambda>user. (w,
                  if has_totp user then
                    Return (write_json 200 (JObj [(''ok'', JBool True), (''totp_required'', JBool True)]))
                  else
                    assign p (\<lambda>s. s\<lparr>ses_authenticated := True\<rparr>)
                   (Return (write_json 200 (JObj [(''ok'', JBool True), (''totp_required'', JBool False)]))))))))))))))"

section \<open>TOTP\<close>

definition totp_verify_prog :: "'sd auth_lib \<Rightarrow> request \<Rightarrow> 'sd prog" where
  "totp_verify_prog lib rq =
     with_session rq (Return (http_error 400 ''no login in progress'')) (\<lambda>p. Step (\<lambda>e w. (w,
       if ses_username (wb_heap w p) = [] then Return (http_error 400 ''no login in progress'')
       else case read_json [''code''] (rq_body rq) of
           None \<Rightarrow> Return (http_error 400 ''invalid JSON body'')
         | Some req \<Rightarrow> Step (\<lambda>e w. (w, let name = ses_username (wb_heap w p) in
             case get_user name (wb_store w) of
               Inl _ \<Rightarrow> Return (http_error 401 ''invalid code'')
             | Inr _ \<Rightarrow> Step (\<lambda>e w. deref name w (\<lambda>user. (w,
                 if \<not> has_totp user \<or> \<not> lib_totp_validate lib (e_now e) (req ''code'') (user_totp user)
                 then Return (http_error 401 ''invalid code'')
                 else assign p (\<lambda>s. s\<lparr>ses_authenticated := True\<rparr>)
                     (Return (write_json 200 (JObj [(''ok'', JBool True)])))))))))))"

definition totp_enroll_prog :: "'sd auth_lib \<Rightarrow> request \<Rightarrow> 'sd prog" where
  "totp_enroll_prog lib rq = required_auth rq (\<lambda>p name. Step (\<lambda>e w. deref name w (\<lambda>user. (w,
     case generate_totp lib (user_name user) (e_rand e 0) of
       Inl m \<Rightarrow> Return (http_error 500 m)
     | Inr (secret, url) \<Rightarrow>
         assign p (\<lambda>s. s\<lparr>ses_pending_totp := secret\<rparr>)
        (Return (write_json 200 (JObj [(''otpauth_url'', JStr url), (''secret'', JStr secret)])))))))"

definition totp_confirm_prog :: "'sd auth_lib \<Rightarrow> request \<Rightarrow> 'sd prog" where
  "totp_confirm_prog lib rq = required_auth rq (\<lambda>p name.
     case read_json [''code''] (rq_body rq) of
       None \<Rightarrow> Return (http_error 400 ''invalid JSON body'')
     | Some req \<Rightarrow> Step (\<lambda>e w.
         if ses_pending_totp (wb_heap w p) = [] \<or>
            \<not> lib_totp_validate lib (e_now e) (req ''code'') (ses_pending_totp (wb_heap w p))
         then (w, Return (http_error 400 ''invalid code''))
         else (w, assign_user name (\<lambda>w u. u\<lparr>user_totp := ses_pending_totp (wb_heap w p)\<rparr>)
                 (assign p (\<lambda>s. s\<lparr>ses_pending_totp := []\<rparr>)
                 (write_user name 0 (\<lambda>x _. case x of
                    Some x \<Rightarrow> Return (http_error 500 (err_text x))
                  | None \<Rightarrow> Return (write_json 200 (JObj [(''ok'', JBool True)]))))))))"

section \<open>Invites and device tokens\<close>

definition create_invite_prog :: "request \<Rightarrow> 'sd prog" where
  "create_invite_prog rq = required_auth rq (\<lambda>_ _.
     case read_json [''username''] (rq_body rq) of
       None \<Rightarrow> Return (http_error 400 ''invalid JSON body'')
     | Some req \<Rightarrow>
         if req ''username'' = [] then Return (http_error 400 ''username required'')
         else Step (\<lambda>e w.
           case create_invite (e_io e 0) (e_now e) (e_rand e 0) (req ''username'')
               (cfg_invite_ttl (wb_cfg w)) (wb_store w) of
             (st, Inl x) \<Rightarrow> (w\<lparr>wb_store := st\<rparr>, Return (http_error 500 (err_text x)))
           | (st, Inr tok) \<Rightarrow> (w\<lparr>wb_store := st\<rparr>, Return (write_json 200 (JObj [(''token'', JStr tok)])))))"

definition mint_token :: "env \<Rightarrow> 'sd web \<Rightarrow> 'sd web \<times> 'sd prog" where
  "mint_token e w =
     (case create_agent_token (e_io e 0) (e_now e) (e_rand e 0) (cfg_agent_token_ttl (wb_cfg w)) (wb_store w) of
        (st, Inl x) \<Rightarrow> (w\<lparr>wb_store := st\<rparr>, Return (http_error 500 (err_text x)))
      | (st, Inr tok) \<Rightarrow> (w\<lparr>wb_store := st\<rparr>, Return (write_json 200 (JObj [(''token'', JStr tok)]))))"

definition create_agent_token_prog :: "request \<Rightarrow> 'sd prog" where
  "create_agent_token_prog rq = required_auth rq (\<lambda>_ _. Step mint_token)"

definition spend_token :: "string \<Rightarrow> env \<Rightarrow> 'sd web \<Rightarrow> 'sd web \<times> 'sd prog" where
  "spend_token t e w =
     (case check_agent_token (e_io e 0) (e_now e) t (wb_store w) of
        (st, ok) \<Rightarrow> (w\<lparr>wb_store := st\<rparr>, Return
          (if ok then write_json 200 (JObj [(''status'', JStr ''ok'')])
           else write_json 200 (JObj [(''message'', JStr ''Invalid token''), (''status'', JStr ''error'')]))))"

definition agent_check_prog :: "request \<Rightarrow> 'sd prog" where
  "agent_check_prog rq =
     (case read_json [''token''] (rq_body rq) of
        None \<Rightarrow> Return (http_error 400 ''invalid JSON body'')
      | Some req \<Rightarrow> Step (spend_token (req ''token'')))"

section \<open>Session introspection and logout\<close>

definition session_info_prog :: "request \<Rightarrow> 'sd prog" where
  "session_info_prog rq =
     with_session rq (Return (http_error 401 ''not authenticated'')) (\<lambda>p. Step (\<lambda>e w. (w,
       if \<not> ses_authenticated (wb_heap w p) then Return (http_error 401 ''not authenticated'')
       else Step (\<lambda>e w. (w, let name = ses_username (wb_heap w p); u = get_user name (wb_store w)
         in Step (\<lambda>e w. (w,
           let totp = (case u of Inl _ \<Rightarrow> False
                       | Inr _ \<Rightarrow> (case users (wb_store w) name of None \<Rightarrow> False | Some user \<Rightarrow> has_totp user))
           in Step (\<lambda>e w. (w, Return (write_json 200 (JObj [(''totp'', JBool totp),
                (''username'', JStr (ses_username (wb_heap w p)))])))))))))))"

definition logout_prog :: "request \<Rightarrow> 'sd prog" where
  "logout_prog rq = Step (\<lambda>e w.
     (case rq_cookie rq of None \<Rightarrow> w | Some v \<Rightarrow> w\<lparr>wb_index := (wb_index w)(v := None)\<rparr>,
      Return (with_cookies
        [\<lparr>ck_name = cookie_name, ck_value = [], ck_path = ''/'', ck_http_only = False,
          ck_secure = False, ck_lax = False, ck_max_age = -1\<rparr>]
        (write_json 200 (JObj [(''ok'', JBool True)])))))"

section \<open>The service\<close>

definition serve_prog :: "'sd auth_lib \<Rightarrow> request \<Rightarrow> 'sd prog" where
  "serve_prog lib rq =
     (if rq_method rq = ''OPTIONS'' then Return (plain_response 204)
      else case route rq of
        None \<Rightarrow> Return (plain_response (if rq_path rq \<in> snd ` fst ` set routes then 405 else 404))
      | Some RegisterBegin \<Rightarrow> register_begin_prog lib rq
      | Some RegisterFinish \<Rightarrow> register_finish_prog lib rq
      | Some LoginBegin \<Rightarrow> login_begin_prog lib rq
      | Some LoginFinish \<Rightarrow> login_finish_prog lib rq
      | Some TotpVerify \<Rightarrow> totp_verify_prog lib rq
      | Some TotpEnroll \<Rightarrow> totp_enroll_prog lib rq
      | Some TotpConfirm \<Rightarrow> totp_confirm_prog lib rq
      | Some CreateInvite \<Rightarrow> create_invite_prog rq
      | Some CreateAgentToken \<Rightarrow> create_agent_token_prog rq
      | Some SessionInfo \<Rightarrow> session_info_prog rq
      | Some Logout \<Rightarrow> logout_prog rq
      | Some AgentCheck \<Rightarrow> agent_check_prog rq
      | Some Healthz \<Rightarrow> Return (plain_response 200))"

text \<open>The answer, behind the wrapper that sets the CORS headers.\<close>

definition answer_with_cors :: "auth_config \<Rightarrow> request \<Rightarrow> response \<Rightarrow> response" where
  "answer_with_cors cfg rq r = r\<lparr>rs_headers := cors_headers (cfg_cors_origins cfg) (rq_origin rq) @ rs_headers r\<rparr>"

text \<open>A request arrives, or the scheduler lets a handler take a step, in the environment of that moment.\<close>

datatype site_event = Arrive nat request | Move nat env

record 'sd site =
  si_web :: "'sd web"
  si_request :: "nat \<rightharpoonup> request"
  si_prog :: "nat \<Rightarrow> 'sd prog"

fun site_step :: "'sd auth_lib \<Rightarrow> site_event \<Rightarrow> 'sd site \<Rightarrow> 'sd site option" where
  "site_step lib (Arrive h rq) s =
     (if si_request s h \<noteq> None then None
      else Some (s\<lparr>si_request := (si_request s)(h \<mapsto> rq), si_prog := (si_prog s)(h := serve_prog lib rq)\<rparr>))"
| "site_step lib (Move h e) s =
     (case (si_request s h, si_prog s h) of
        (Some rq, Step f) \<Rightarrow>
          (case f e (si_web s) of (w, p) \<Rightarrow> Some (s\<lparr>si_web := w, si_prog := (si_prog s)(h := p)\<rparr>))
      | _ \<Rightarrow> None)"

definition site_answer :: "nat \<Rightarrow> 'sd site \<Rightarrow> response option" where
  "site_answer h s =
     (case (si_request s h, si_prog s h) of
        (Some rq, Return r) \<Rightarrow> Some (answer_with_cors (wb_cfg (si_web s)) rq r)
      | _ \<Rightarrow> None)"

end
