(* ===== verification/AuthAlone.thy ===== *)
theory AuthAlone
  imports AuthConcurrent
begin

text \<open>
  The handlers of \<open>AuthConcurrent\<close> and those of \<open>AuthServer\<close> are the same: a request that is served without
  interruption has the effect and the answer that the sequential model gives it.
\<close>

section \<open>One request at a time\<close>

definition web_server :: "'sd web \<Rightarrow> 'sd server" where
  "web_server w = \<lparr>sv_cfg = wb_cfg w, sv_store = wb_store w,
     sv_sess = \<lparr>ss_map = (\<lambda>v. map_option (wb_heap w) (wb_index w v)), ss_secure = wb_secure w\<rparr>\<rparr>"

text \<open>No two cookies share a session, and new sessions are new objects.\<close>

definition web_ok :: "'sd web \<Rightarrow> bool" where
  "web_ok w \<longleftrightarrow> (\<forall>v p. wb_index w v = Some p \<longrightarrow> p < wb_next w) \<and>
     (\<forall>v v' p. wb_index w v = Some p \<longrightarrow> wb_index w v' = Some p \<longrightarrow> v = v')"

primrec alone :: "'sd prog \<Rightarrow> env \<Rightarrow> 'sd web \<Rightarrow> 'sd web \<times> response option" where
  "alone (Return r) = (\<lambda>e w. (w, Some r))"
| "alone Abort = (\<lambda>e w. (w, None))"
| "alone (Step f) = (\<lambda>e w. case map_prod (\<lambda>w. w) alone (f e w) of (w, k) \<Rightarrow> k e w)"

lemma alone_Step [simp]: "alone (Step f) e w = (case f e w of (w', p) \<Rightarrow> alone p e w')"
  by (simp split: prod.split)

declare alone.simps(3) [simp del]

lemma web_server_simps [simp]:
  "sv_cfg (web_server w) = wb_cfg w" "sv_store (web_server w) = wb_store w"
  "ss_secure (sv_sess (web_server w)) = wb_secure w"
  "ss_map (sv_sess (web_server w)) v = map_option (wb_heap w) (wb_index w v)"
  by (simp_all add: web_server_def)

lemma set_session_simps [simp]:
  "wb_cfg (set_session p f w) = wb_cfg w" "wb_store (set_session p f w) = wb_store w"
  "wb_index (set_session p f w) = wb_index w" "wb_next (set_session p f w) = wb_next w"
  "wb_secure (set_session p f w) = wb_secure w" "web_ok (set_session p f w) = web_ok w"
  "wb_heap (set_session p f w) = (wb_heap w)(p := f (wb_heap w p))"
  by (simp_all add: set_session_def web_ok_def)

lemma web_store_simps [simp]:
  "web_ok (w\<lparr>wb_store := st\<rparr>) = web_ok w" "web_server (w\<lparr>wb_store := st\<rparr>) = web_server w\<lparr>sv_store := st\<rparr>"
  by (simp_all add: web_ok_def web_server_def)

lemma web_server_set:
  assumes "web_ok w" and "wb_index w v = Some p"
  shows "web_server (set_session p f w) = web_server w\<lparr>sv_sess := ss_update v f (sv_sess (web_server w))\<rparr>"
proof -
  have "map_option ((wb_heap w)(p := f (wb_heap w p))) (wb_index w v') =
      (if v' = v then map_option f (map_option (wb_heap w) (wb_index w v')) else map_option (wb_heap w) (wb_index w v'))" for v'
    using assms by (cases "wb_index w v'") (auto simp: web_ok_def)
  then show ?thesis by (simp add: web_server_def ss_update_def assms(2) fun_eq_iff)
qed

lemma find_session_Some:
  "find_session now c w = Some p \<longleftrightarrow> (\<exists>v. c = Some v \<and> wb_index w v = Some p \<and> now \<le> ses_expires (wb_heap w p))"
  by (auto simp: find_session_def split: option.splits if_splits)

lemma sessions_get_web:
  "sessions_get now c (sv_sess (web_server w)) = map_option (\<lambda>p. (the c, wb_heap w p)) (find_session now c w)"
  by (auto simp: sessions_get_def find_session_def split: option.split)

lemma update_user_const: "users st k = Some u \<Longrightarrow> update_user k f st = update_user k (\<lambda>_. f u) st"
  by (simp add: update_user_def)

lemma alone_assign [simp]: "alone (assign p f k) e w = alone k e (set_session p f w)"
  by (simp add: assign_def)

lemma alone_with_session [simp]:
  "alone (with_session rq none k) e w =
     (case find_session (e_now e) (rq_cookie rq) w of None \<Rightarrow> alone none e w | Some p \<Rightarrow> alone (k p) e w)"
  by (simp add: with_session_def split: option.split)

definition served :: "'sd web \<Rightarrow> 'sd server \<times> response \<Rightarrow> 'sd web \<times> response option \<Rightarrow> bool" where
  "served w sr wr \<longleftrightarrow> web_ok (fst wr) \<and> wb_cfg (fst wr) = wb_cfg w \<and> fst sr = web_server (fst wr) \<and> snd wr = Some (snd sr)"

lemma served_return [simp]: "web_ok w \<Longrightarrow> served w (web_server w, r) (w, Some r)"
  by (simp add: served_def)

named_theorems alone_served \<open>each handler, run alone, does its step of the sequential service\<close>

lemmas prog_parts = pending_user_def required_auth_def ceremony_def deref_def assign_user_def write_user_def

lemma login_finish_served [alone_served]:
  assumes ok: "web_ok w"
  shows "served w (login_finish lib e rq (web_server w)) (alone (login_finish_prog lib rq) e w)"
proof (cases "find_session (e_now e) (rq_cookie rq) w")
  case None
  then show ?thesis using assms by (simp add: login_finish_def login_finish_prog_def pending_user_def sessions_get_web)
next
  case (Some p)
  then obtain v where v: "the (rq_cookie rq) = v" "wb_index w v = Some p"
    by (auto simp: find_session_Some)
  let ?s = "wb_heap w p"
  note defs = login_finish_def login_finish_prog_def prog_parts sessions_get_web get_user_def Let_def Some v
  show ?thesis
  proof (cases "ses_ceremony ?s = None \<or> ses_username ?s = [] \<or> users (wb_store w) (ses_username ?s) = None")
    case True
    then show ?thesis using ok by (cases "ses_ceremony ?s") (auto simp: defs)
  next
    case False
    then obtain sd u where sd: "ses_ceremony ?s = Some sd" "ses_username ?s \<noteq> []" "users (wb_store w) (ses_username ?s) = Some u"
      by auto
    show ?thesis
    proof (cases "lib_finish_login lib u sd rq")
      case (Inl m)
      then show ?thesis using ok sd by (simp add: defs)
    next
      case (Inr cred)
      then show ?thesis
        using ok sd
        by (simp add: defs split_beta served_def update_user_def web_server_set [where v = v])
    qed
  qed
qed

lemma insert_session_ok:
  assumes "web_ok w"
  shows "web_ok (insert_session now i w)"
    and "web_server (insert_session now i w) = web_server w\<lparr>sv_sess :=
      (sv_sess (web_server w))\<lparr>ss_map := (ss_map (sv_sess (web_server w)))(i \<mapsto> fresh_session now)\<rparr>\<rparr>"
proof -
  have "map_option ((wb_heap w)(wb_next w := fresh_session now)) (wb_index w v) = map_option (wb_heap w) (wb_index w v)" for v
    using assms by (cases "wb_index w v") (auto simp: web_ok_def)
  then show "web_server (insert_session now i w) = web_server w\<lparr>sv_sess :=
      (sv_sess (web_server w))\<lparr>ss_map := (ss_map (sv_sess (web_server w)))(i \<mapsto> fresh_session now)\<rparr>\<rparr>"
    by (auto simp: insert_session_def web_server_def fun_eq_iff)
  show "web_ok (insert_session now i w)"
    using assms by (fastforce simp: web_ok_def insert_session_def less_Suc_eq)
qed

lemma get_or_create_served:
  assumes "web_ok w"
    and "sessions_get_or_create (e_now e) (e_rand e n) (rq_cookie rq) (sv_sess (web_server w)) = (i, ss, cs)"
  shows "\<exists>w1 p. alone (get_or_create rq n k) e w = alone (k p cs) e w1 \<and> web_ok w1 \<and> wb_index w1 i = Some p \<and>
    web_server w1 = web_server w\<lparr>sv_sess := ss\<rparr>"
proof (cases "find_session (e_now e) (rq_cookie rq) w")
  case None
  then have i: "i = random_token (e_rand e n)" "cs = [session_cookie (wb_secure w) i]"
      "ss = (sv_sess (web_server w))\<lparr>ss_map := (ss_map (sv_sess (web_server w)))(i \<mapsto> fresh_session (e_now e))\<rparr>"
    using assms(2) by (auto simp: sessions_get_or_create_def sessions_get_web Let_def session_cookie_def)
  let ?w1 = "insert_session (e_now e) i w"
  have "alone (get_or_create rq n k) e w = alone (k (wb_next w) cs) e ?w1"
    by (simp add: get_or_create_def None Let_def i(1,2))
  moreover have "wb_index ?w1 i = Some (wb_next w)" by (simp add: insert_session_def)
  ultimately show ?thesis using insert_session_ok [OF assms(1), of "e_now e" i] i(3) by metis
next
  case (Some p)
  then have "i = the (rq_cookie rq)" "cs = []" "ss = sv_sess (web_server w)"
    using assms(2) by (auto simp: sessions_get_or_create_def sessions_get_web)
  moreover have "wb_index w (the (rq_cookie rq)) = Some p" using Some by (auto simp: find_session_Some)
  moreover have "web_server w\<lparr>sv_sess := sv_sess (web_server w)\<rparr> = web_server w" by simp
  ultimately show ?thesis using assms(1) by (auto simp: get_or_create_def Some)
qed

lemma web_cfg: "web_server w1 = web_server w\<lparr>sv_sess := ss\<rparr> \<Longrightarrow> wb_cfg w1 = wb_cfg w"
  by (simp add: web_server_def)

lemma login_begin_served [alone_served]:
  assumes ok: "web_ok w"
  shows "served w (login_begin lib e rq (web_server w)) (alone (login_begin_prog lib rq) e w)"
proof (cases "read_json [''username''] (rq_body rq)")
  case None
  then show ?thesis using ok by (simp add: login_begin_def login_begin_prog_def)
next
  case (Some req)
  note defs = login_begin_def login_begin_prog_def get_user_def deref_def Some
  show ?thesis
  proof (cases "users (wb_store w) (req ''username'')")
    case None
    then show ?thesis using ok by (simp add: defs)
  next
    case u: (Some u)
    show ?thesis
    proof (cases "lib_begin_login lib u (e_rand e 0)")
      case (Inl m)
      then show ?thesis using ok u by (simp add: defs)
    next
      case (Inr r)
      obtain options sd i ss cs where r: "r = (options, sd)"
          "sessions_get_or_create (e_now e) (e_rand e 1) (rq_cookie rq) (sv_sess (web_server w)) = (i, ss, cs)"
        by (metis surj_pair)
      let ?k = "\<lambda>p cs. assign p (\<lambda>s. s\<lparr>ses_username := req ''username''\<rparr>) (assign p (\<lambda>s. s\<lparr>ses_ceremony := Some sd\<rparr>)
        (assign p (\<lambda>s. s\<lparr>ses_authenticated := False\<rparr>) (Return (with_cookies cs (write_json 200 options)))))"
      obtain w1 p where w1: "alone (get_or_create rq 1 ?k) e w = alone (?k p cs) e w1" "web_ok w1"
          "wb_index w1 i = Some p" "web_server w1 = web_server w\<lparr>sv_sess := ss\<rparr>"
        using get_or_create_served [OF ok r(2), of ?k] by blast
      show ?thesis
        using w1 r u Inr web_cfg [OF w1(4)]
        by (simp add: defs served_def web_server_set [where v = i] ss_update_def option.map_comp comp_def)
    qed
  qed
qed

lemma register_finish_served [alone_served]:
  assumes ok: "web_ok w"
  shows "served w (register_finish lib e rq (web_server w)) (alone (register_finish_prog lib rq) e w)"
proof (cases "find_session (e_now e) (rq_cookie rq) w")
  case None
  then show ?thesis using ok by (simp add: register_finish_def register_finish_prog_def pending_user_def sessions_get_web)
next
  case (Some p)
  then obtain v where v: "the (rq_cookie rq) = v" "wb_index w v = Some p"
    by (auto simp: find_session_Some)
  let ?s = "wb_heap w p"
  note defs = register_finish_def register_finish_prog_def prog_parts sessions_get_web get_user_def Let_def Some v
  show ?thesis
  proof (cases "ses_ceremony ?s = None \<or> ses_username ?s = [] \<or> users (wb_store w) (ses_username ?s) = None")
    case True
    then show ?thesis using ok by (cases "ses_ceremony ?s") (auto simp: defs)
  next
    case False
    then obtain sd u where sd: "ses_ceremony ?s = Some sd" "ses_username ?s \<noteq> []" "users (wb_store w) (ses_username ?s) = Some u"
      by auto
    show ?thesis
    proof (cases "lib_finish_registration lib u sd rq")
      case (Inl m)
      then show ?thesis using ok sd by (simp add: defs)
    next
      case (Inr cred)
      let ?u = "u\<lparr>user_credentials := user_credentials u @ [cred]\<rparr>"
      show ?thesis
        using ok sd Inr
        by (cases "snd (put_user (e_io e 0) ?u (set_users ((users (wb_store w))(ses_username ?s \<mapsto> ?u)) (wb_store w)))")
           (simp_all add: defs split_beta served_def update_user_def web_server_set [where v = v] ss_update_def
             option.map_comp comp_def)
    qed
  qed
qed

lemma totp_verify_served [alone_served]:
  assumes ok: "web_ok w"
  shows "served w (totp_verify lib e rq (web_server w)) (alone (totp_verify_prog lib rq) e w)"
proof (cases "find_session (e_now e) (rq_cookie rq) w")
  case None
  then show ?thesis using ok by (simp add: totp_verify_def totp_verify_prog_def sessions_get_web)
next
  case (Some p)
  then obtain v where v: "the (rq_cookie rq) = v" "wb_index w v = Some p"
    by (auto simp: find_session_Some)
  let ?s = "wb_heap w p"
  note defs = totp_verify_def totp_verify_prog_def prog_parts sessions_get_web get_user_def Let_def Some v
  show ?thesis
    using ok
    by (cases "ses_username ?s = []"; cases "read_json [''code''] (rq_body rq)"; cases "users (wb_store w) (ses_username ?s)")
       (simp_all add: defs served_def web_server_set [where v = v])
qed

text \<open>\<open>requireAuth\<close>, the condition and the user it leaves the handler with.\<close>

lemma required_auth_served:
  assumes "web_ok w"
    and "\<And>i s u p. require_auth e rq (web_server w) = Inr (i, s, u) \<Longrightarrow> wb_index w i = Some p \<Longrightarrow> s = wb_heap w p \<Longrightarrow>
      users (wb_store w) (ses_username s) = Some u \<Longrightarrow> served w (h (i, s, u)) (alone (k p (ses_username s)) e w)"
  shows "served w (case require_auth e rq (web_server w) of Inl r \<Rightarrow> (web_server w, r) | Inr x \<Rightarrow> h x)
    (alone (required_auth rq k) e w)"
proof (cases "find_session (e_now e) (rq_cookie rq) w")
  case None
  then show ?thesis using assms(1) by (simp add: require_auth_def required_auth_def sessions_get_web)
next
  case (Some p)
  then have v: "wb_index w (the (rq_cookie rq)) = Some p" by (auto simp: find_session_Some)
  note defs = require_auth_def required_auth_def sessions_get_web get_user_def Let_def Some
  show ?thesis
  proof (cases "users (wb_store w) (ses_username (wb_heap w p))")
    case None
    then show ?thesis using assms(1) by (simp add: defs)
  next
    case u: (Some u)
    show ?thesis
      using assms(1) assms(2) [of "the (rq_cookie rq)" "wb_heap w p" u p] v u
      by (cases "ses_authenticated (wb_heap w p)") (simp_all add: defs)
  qed
qed

lemma totp_enroll_served [alone_served]:
  assumes "web_ok w"
  shows "served w (totp_enroll lib e rq (web_server w)) (alone (totp_enroll_prog lib rq) e w)"
  unfolding totp_enroll_def totp_enroll_prog_def
proof (rule required_auth_served [OF assms], goal_cases)
  case (1 i s u p)
  then show ?case
    using assms
    by (cases "generate_totp lib (user_name u) (e_rand e 0)")
       (simp_all add: deref_def served_def web_server_set [where v = i] split_beta)
qed

lemma totp_confirm_served [alone_served]:
  assumes "web_ok w"
  shows "served w (totp_confirm lib e rq (web_server w)) (alone (totp_confirm_prog lib rq) e w)"
  unfolding totp_confirm_def totp_confirm_prog_def
proof (rule required_auth_served [OF assms], goal_cases)
  case (1 i s u p)
  show ?case
  proof (cases "read_json [''code''] (rq_body rq)")
    case None
    then show ?thesis using assms by simp
  next
    case (Some req)
    show ?thesis
    proof (cases "ses_pending_totp s = [] \<or> \<not> lib_totp_validate lib (e_now e) (req ''code'') (ses_pending_totp s)")
      case True
      then show ?thesis using 1 assms Some by auto
    next
      case False
      let ?u = "u\<lparr>user_totp := ses_pending_totp s\<rparr>"
      show ?thesis
        using 1 assms False Some
        by (cases "snd (put_user (e_io e 0) ?u (set_users ((users (wb_store w))(ses_username s \<mapsto> ?u)) (wb_store w)))")
           (simp_all add: prog_parts Let_def split_beta served_def update_user_def web_server_set [where v = i])
    qed
  qed
qed

lemma create_invite_served [alone_served]:
  assumes "web_ok w"
  shows "served w (handle_create_invite e rq (web_server w)) (alone (create_invite_prog rq) e w)"
  unfolding handle_create_invite_def create_invite_prog_def
proof (rule required_auth_served [OF assms], goal_cases)
  case (1 i s u p)
  show ?case
  proof (cases "read_json [''username''] (rq_body rq)")
    case (Some req)
    then show ?thesis
      using assms
      by (cases "snd (create_invite (e_io e 0) (e_now e) (e_rand e 0) (req ''username'') (cfg_invite_ttl (wb_cfg w)) (wb_store w))")
         (simp_all add: split_beta served_def)
  qed (use assms in simp)
qed

lemma create_agent_token_served [alone_served]:
  assumes "web_ok w"
  shows "served w (handle_create_agent_token e rq (web_server w)) (alone (create_agent_token_prog rq) e w)"
  unfolding handle_create_agent_token_def create_agent_token_prog_def
proof (rule required_auth_served [OF assms], goal_cases)
  case (1 i s u p)
  show ?case
    using assms
    by (cases "snd (create_agent_token (e_io e 0) (e_now e) (e_rand e 0) (cfg_agent_token_ttl (wb_cfg w)) (wb_store w))")
       (simp_all add: mint_token_def split_beta served_def)
qed

lemma agent_check_served [alone_served]:
  assumes "web_ok w"
  shows "served w (agent_check e rq (web_server w)) (alone (agent_check_prog rq) e w)"
  using assms
  by (cases "read_json [''token''] (rq_body rq)")
     (simp_all add: agent_check_def agent_check_prog_def spend_token_def split_beta served_def)

lemma logout_served [alone_served]:
  assumes "web_ok w"
  shows "served w (handle_logout rq (web_server w)) (alone (logout_prog rq) e w)"
proof -
  have "(\<lambda>v. map_option (wb_heap w) (((wb_index w)(i := None)) v)) = (\<lambda>v. map_option (wb_heap w) (wb_index w v))(i := None)" for i
    by auto
  moreover have "web_ok (w\<lparr>wb_index := (wb_index w)(i := None)\<rparr>)" for i
    using assms by (simp add: web_ok_def)
  ultimately show ?thesis
    using assms
    by (cases "rq_cookie rq") (simp_all add: handle_logout_def logout_prog_def sessions_destroy_def served_def web_server_def)
qed

lemma session_info_served [alone_served]:
  assumes "web_ok w"
  shows "served w (session_info e rq (web_server w)) (alone (session_info_prog rq) e w)"
proof (cases "find_session (e_now e) (rq_cookie rq) w")
  case None
  then show ?thesis using assms by (simp add: session_info_def session_info_prog_def sessions_get_web)
next
  case (Some p)
  then show ?thesis
    using assms
    by (cases "users (wb_store w) (ses_username (wb_heap w p))")
       (simp_all add: session_info_def session_info_prog_def sessions_get_web get_user_def Let_def served_def)
qed

lemma register_options_served:
  assumes ok: "web_ok w" and sv: "web_server w = sv\<lparr>sv_store := st\<rparr>" and u: "users st username = Some user"
  shows "served w (case lib_begin_registration lib user (e_rand e 1) of
       Inl m \<Rightarrow> (sv\<lparr>sv_store := st\<rparr>, http_error 500 m)
     | Inr (options, sd) \<Rightarrow>
         (case sessions_get_or_create (e_now e) (e_rand e 2) (rq_cookie rq) (sv_sess sv) of
            (i, ss, cs) \<Rightarrow>
              (sv\<lparr>sv_store := st, sv_sess := ss_update i (\<lambda>s. s\<lparr>ses_username := username, ses_ceremony := Some sd,
                  ses_pending_invite := invite, ses_authenticated := False\<rparr>) ss\<rparr>,
               with_cookies cs (write_json 200 options))))
    (alone (register_options lib rq invite username) e w)"
proof -
  have st: "wb_store w = st" using arg_cong [OF sv, of sv_store] by simp
  show ?thesis
  proof (cases "lib_begin_registration lib user (e_rand e 1)")
    case (Inl m)
    then show ?thesis using ok u by (simp add: register_options_def deref_def served_def st sv)
  next
    case (Inr r)
    have ss: "sv_sess (web_server w) = sv_sess sv" by (simp add: sv)
    obtain options sd i ss cs where r: "r = (options, sd)"
        "sessions_get_or_create (e_now e) (e_rand e 2) (rq_cookie rq) (sv_sess (web_server w)) = (i, ss, cs)"
      by (metis surj_pair)
    let ?k = "\<lambda>p cs. assign p (\<lambda>s. s\<lparr>ses_username := username\<rparr>) (assign p (\<lambda>s. s\<lparr>ses_ceremony := Some sd\<rparr>)
      (assign p (\<lambda>s. s\<lparr>ses_pending_invite := invite\<rparr>) (assign p (\<lambda>s. s\<lparr>ses_authenticated := False\<rparr>)
      (Return (with_cookies cs (write_json 200 options))))))"
    obtain w1 p where w1: "alone (get_or_create rq 2 ?k) e w = alone (?k p cs) e w1" "web_ok w1"
        "wb_index w1 i = Some p" "web_server w1 = web_server w\<lparr>sv_sess := ss\<rparr>"
      using get_or_create_served [OF ok r(2), of ?k] by blast
    show ?thesis
      using w1(1-3) r u Inr web_cfg [OF w1(4)] w1(4) [unfolded sv]
      by (simp add: register_options_def deref_def served_def web_server_set [where v = i] ss_update_def
          option.map_comp comp_def st ss)
  qed
qed

lemma served_store: "served (w\<lparr>wb_store := st\<rparr>) x y \<longleftrightarrow> served w x y"
  by (simp add: served_def)

lemma register_begin_served [alone_served]:
  assumes ok: "web_ok w"
  shows "served w (register_begin lib e rq (web_server w)) (alone (register_begin_prog lib rq) e w)"
proof (cases "read_json [''username'', ''invite_token''] (rq_body rq)")
  case None
  then show ?thesis using ok by (simp add: register_begin_def register_begin_prog_def)
next
  case req: (Some req)
  note defs = register_begin_def register_begin_prog_def req
  show ?thesis
  proof (cases "peek_invite (e_now e) (req ''invite_token'') (wb_store w)")
    case (Inl x)
    then show ?thesis using ok by (simp add: defs)
  next
    case username: (Inr username)
    show ?thesis
    proof (cases "users (wb_store w) username")
      case (Some u)
      have "web_server w = web_server w\<lparr>sv_store := wb_store w\<rparr>" by (simp add: web_server_def)
      from register_options_served [OF ok this Some, where lib = lib and e = e and rq = rq and invite = "req ''invite_token''"]
      show ?thesis using username by (simp add: defs register_user_def get_user_def Some)
    next
      case None
      obtain st r where st: "create_user (e_io e 0) (e_now e) (e_rand e 0) username (wb_store w) = (st, r)" by fastforce
      let ?w = "w\<lparr>wb_store := st\<rparr>"
      show ?thesis
      proof (cases r)
        case (Inl x)
        then show ?thesis using ok username st by (simp add: defs register_user_def get_user_def None served_def)
      next
        case (Inr u)
        then have "u = \<lparr>user_id = e_rand e 0, user_name = username, user_credentials = [], user_totp = [],
            user_created = e_now e\<rparr>"
          using st None by (auto simp: create_user_def Let_def save_return_def split: prod.splits option.splits)
        then have "users st username = Some u" using create_userD(3) [OF st] None by simp
        from register_options_served [where w = ?w and sv = "web_server w", OF _ _ this, where lib = lib and e = e and rq = rq
            and invite = "req ''invite_token''"]
        show ?thesis
          using ok username st Inr
          by (simp add: defs register_user_def get_user_def None served_store)
      qed
    qed
  qed
qed

lemma serve_prog_served:
  assumes "web_ok w" and "rq_method rq \<noteq> ''OPTIONS''"
  shows "served w (serve lib e rq (web_server w)) (alone (serve_prog lib rq) e w)"
  using assms alone_served [OF assms(1)]
  by (auto simp: serve_def serve_prog_def split: option.split endpoint.split)

text \<open>
  One request at a time, the running service is the sequential one: a handler that is not
  interrupted never panics, and for every request, environment and state it has exactly the effect and the
  answer that \<open>auth_handle\<close> has.
\<close>

theorem uninterrupted_is_sequential:
  assumes "web_ok w"
  shows "\<exists>w' r. alone (serve_prog lib rq) e w = (w', Some r) \<and> web_ok w' \<and>
    auth_handle lib e rq (web_server w) = (web_server w', answer_with_cors (wb_cfg w) rq r)"
proof (cases "rq_method rq = ''OPTIONS''")
  case True
  then show ?thesis
    using assms by (simp add: serve_prog_def auth_handle_def answer_with_cors_def Let_def)
next
  case False
  then show ?thesis
    using serve_prog_served [OF assms False, of lib e]
    by (cases "alone (serve_prog lib rq) e w")
       (auto simp: auth_handle_def answer_with_cors_def served_def split_beta Let_def)
qed

end
