(* ===== verification/AuthRace.thy ===== *)
theory AuthRace
  imports AuthAlone AuthPolicy
begin

text \<open>
  The identity service under concurrency: what the unlocked sessions allow when two requests of one
  browser meet, and that enrollment tokens are single-use under every schedule.
\<close>

section \<open>Two requests of one browser\<close>

text \<open>
  The schedule: \<open>loginFinish\<close> runs up to its last assignment, then \<open>loginBegin\<close> runs, then \<open>loginFinish\<close>
  goes on.
\<close>

definition takeover :: "nat \<Rightarrow> request \<Rightarrow> nat \<Rightarrow> request \<Rightarrow> env \<Rightarrow> site_event list" where
  "takeover h rq h' rq' e = [Arrive h rq, Arrive h' rq'] @ replicate 8 (Move h e) @ replicate 6 (Move h' e) @ [Move h e]"

lemma login_race:
  assumes "route rq = Some LoginFinish" and "rq_method rq \<noteq> ''OPTIONS''" and "rq_cookie rq = Some i"
    and "route rq' = Some LoginBegin" and "rq_method rq' \<noteq> ''OPTIONS''" and "rq_cookie rq' = Some i"
    and "read_json [''username''] (rq_body rq') = Some req"
    and "wb_index (si_web s) i = Some p" and "wb_heap (si_web s) p = ses" and "e_now e \<le> ses_expires ses"
    and "ses_username ses \<noteq> []" and "ses_ceremony ses = Some sd"
    and "users (wb_store (si_web s)) (ses_username ses) = Some u" and "user_name u = ses_username ses" and "\<not> has_totp u"
    and "lib_finish_login lib u sd rq = Inr cred"
    and "users (wb_store (si_web s)) (req ''username'') = Some v" and "req ''username'' \<noteq> ses_username ses"
    and "lib_begin_login lib v (e_rand e 0) = Inr (options, sd')"
    and "h \<noteq> h'" and "si_request s h = None" and "si_request s h' = None"
  shows "\<exists>t. runs (site_step lib) s (takeover h rq h' rq' e) t \<and>
    wb_index (si_web t) i = Some p \<and> ses_authenticated (wb_heap (si_web t) p) \<and>
    ses_username (wb_heap (si_web t) p) = req ''username'' \<and> ses_expires (wb_heap (si_web t) p) = ses_expires ses \<and>
    si_request t = (si_request s)(h \<mapsto> rq, h' \<mapsto> rq')"
  using assms
  by (simp add: runs_exec takeover_def serve_prog_def eval_nat_numeral login_finish_prog_def login_begin_prog_def pending_user_def with_session_def
    find_session_def get_user_def ceremony_def deref_def assign_user_def write_user_def get_or_create_def assign_def Let_def
    split_beta update_user_def has_totp_def)

lemma login_serial:
  assumes "route rq = Some LoginFinish" and "rq_cookie rq = Some i"
    and "route rq' = Some LoginBegin" and "rq_cookie rq' = Some i"
    and "read_json [''username''] (rq_body rq') = Some req"
    and "ss_map (sv_sess sv) i = Some ses" and "e_now e \<le> ses_expires ses"
    and "ses_username ses \<noteq> []" and "ses_ceremony ses = Some sd"
    and "users (sv_store sv) (ses_username ses) = Some u" and "user_name u = ses_username ses" and "\<not> has_totp u"
    and "lib_finish_login lib u sd rq = Inr cred"
    and "users (sv_store sv) (req ''username'') = Some v" and "req ''username'' \<noteq> ses_username ses"
    and "lib_begin_login lib v (e_rand e 0) = Inr (options, sd')" and "lib_finish_login lib v sd' rq = Inl m"
  shows "\<not> authed i (fold (auth_step lib) [(e, rq), (e, rq')] sv)" "\<not> authed i (fold (auth_step lib) [(e, rq'), (e, rq)] sv)"
  using assms
  by (simp_all add: authed_def auth_step_serve serve_def login_finish_def login_begin_def sessions_get_def get_user_def
    sessions_get_or_create_def Let_def split_beta ss_update_def has_totp_def)

text \<open>
  C6. A login can be stolen by a race: while a user without TOTP finishes a login, a second request with
  the same cookie that begins a login as somebody else can run just before the handler's last
  assignment; then the session is authenticated, and it is the other user's, of whom nothing was
  proved. Served one after the other, in either order, the two requests leave the session
  unauthenticated.
\<close>

theorem login_race_takes_over:
  assumes "route rq = Some LoginFinish" and "rq_method rq \<noteq> ''OPTIONS''" and "rq_cookie rq = Some i"
    and "route rq' = Some LoginBegin" and "rq_method rq' \<noteq> ''OPTIONS''" and "rq_cookie rq' = Some i"
    and "read_json [''username''] (rq_body rq') = Some req"
    and "wb_index (si_web s) i = Some p" and "wb_heap (si_web s) p = ses" and "e_now e \<le> ses_expires ses"
    and "ses_username ses \<noteq> []" and "ses_ceremony ses = Some sd"
    and "users (wb_store (si_web s)) (ses_username ses) = Some u" and "user_name u = ses_username ses" and "\<not> has_totp u"
    and "lib_finish_login lib u sd rq = Inr cred"
    and "users (wb_store (si_web s)) (req ''username'') = Some v" and "req ''username'' \<noteq> ses_username ses"
    and "lib_begin_login lib v (e_rand e 0) = Inr (options, sd')" and "lib_finish_login lib v sd' rq = Inl m"
    and "h \<noteq> h'" and "si_request s h = None" and "si_request s h' = None"
  shows "(\<exists>t. runs (site_step lib) s (takeover h rq h' rq' e) t \<and>
      wb_index (si_web t) i = Some p \<and> ses_authenticated (wb_heap (si_web t) p) \<and>
      ses_username (wb_heap (si_web t) p) = req ''username'') \<and>
    \<not> authed i (fold (auth_step lib) [(e, rq), (e, rq')] (web_server (si_web s))) \<and>
    \<not> authed i (fold (auth_step lib) [(e, rq'), (e, rq)] (web_server (si_web s)))"
proof -
  have "ss_map (sv_sess (web_server (si_web s))) i = Some ses" using assms(8,9) by simp
  then show ?thesis
    using login_race [OF assms(1-19,21-23)]
      login_serial [OF assms(1,3,4,6,7) _ assms(10-12) _ assms(14-16) _ assms(18-20), of "web_server (si_web s)"] assms(13,17)
    by auto
qed

text \<open>
  Two requests that finish the same ceremony can meet in such a way that the second one panics at the
  pointer that the first one has set to nil.
\<close>

theorem double_finish_aborts:
  assumes "route rq = Some LoginFinish" and "rq_method rq \<noteq> ''OPTIONS''" and "rq_cookie rq = Some i"
    and "wb_index (si_web s) i = Some p" and "wb_heap (si_web s) p = ses" and "e_now e \<le> ses_expires ses"
    and "ses_username ses \<noteq> []" and "ses_ceremony ses = Some sd"
    and "users (wb_store (si_web s)) (ses_username ses) = Some u" and "user_name u = ses_username ses"
    and "lib_finish_login lib u sd rq = Inr cred"
    and "h \<noteq> h'" and "si_request s h = None" and "si_request s h' = None"
  shows "\<exists>t. runs (site_step lib) s ([Arrive h rq, Arrive h' rq] @ replicate 3 (Move h' e) @ replicate 7 (Move h e) @ [Move h' e]) t \<and>
    si_prog t h' = Abort"
  using assms
  by (simp add: runs_exec serve_prog_def eval_nat_numeral login_finish_prog_def pending_user_def with_session_def
    find_session_def get_user_def ceremony_def deref_def assign_user_def write_user_def assign_def Let_def
    split_beta update_user_def)

section \<open>Enrollment tokens under every schedule\<close>

text \<open>
  A program is \<open>quiet\<close> when no step of it, whatever happens between its steps, adds an enrollment
  token, except the one that mints.
\<close>

inductive quiet :: "'sd prog \<Rightarrow> bool" where
  quiet_Return: "quiet (Return r)"
| quiet_Abort: "quiet Abort"
| quiet_mint: "quiet (Step mint_token)"
| quiet_Step: "(\<And>e w. agent_tokens (wb_store (fst (f e w))) \<subseteq>\<^sub>m agent_tokens (wb_store w) \<and> quiet (snd (f e w))) \<Longrightarrow>
    quiet (Step f)"


named_theorems quiet_intros \<open>the parts that handlers are made of are quiet\<close>

declare quiet_Return [quiet_intros] quiet_Abort [quiet_intros] quiet_mint [quiet_intros]

lemma quiet_local [quiet_intros]: "(\<And>e w. quiet (k e w)) \<Longrightarrow> quiet (Step (\<lambda>e w. (w, k e w)))"
  by (rule quiet_Step) simp

lemma quiet_choice [quiet_intros]:
  "(\<And>e w. quiet (j e w)) \<Longrightarrow> (\<And>e w. quiet (k e w)) \<Longrightarrow> quiet (Step (\<lambda>e w. if c e w then (w, j e w) else (w, k e w)))"
  by (rule quiet_Step) simp

lemma quiet_if [quiet_intros]: "quiet j \<Longrightarrow> quiet k \<Longrightarrow> quiet (if c then j else k)"
  by simp

lemma quiet_assign [quiet_intros]: "quiet k \<Longrightarrow> quiet (assign p f k)"
  unfolding assign_def by (rule quiet_Step) simp

lemma quiet_assign_user [quiet_intros]: "quiet k \<Longrightarrow> quiet (assign_user name f k)"
  unfolding assign_user_def by (rule quiet_Step) simp

lemma quiet_write_user [quiet_intros]: "(\<And>x u. quiet (k x u)) \<Longrightarrow> quiet (write_user name n k)"
  unfolding write_user_def deref_def
  by (rule quiet_Step) (auto simp: quiet_Abort split_beta split: option.split)

lemma quiet_with_session [quiet_intros]: "quiet none \<Longrightarrow> (\<And>p. quiet (k p)) \<Longrightarrow> quiet (with_session rq none k)"
  unfolding with_session_def by (rule quiet_local) (simp split: option.split)

lemma quiet_get_or_create [quiet_intros]:
  assumes "\<And>p cs. quiet (k p cs)"
  shows "quiet (get_or_create rq n k)"
  unfolding get_or_create_def
  by (intro quiet_with_session quiet_Step) (simp_all add: insert_session_def Let_def assms)

lemma quiet_pending_user [quiet_intros]: "(\<And>p name. quiet (k p name)) \<Longrightarrow> quiet (pending_user rq idle unknown k)"
  unfolding pending_user_def
  by (intro quiet_with_session quiet_Return quiet_Step) (simp_all add: quiet_intros Let_def split: sum.split)

lemma quiet_required_auth [quiet_intros]: "(\<And>p name. quiet (k p name)) \<Longrightarrow> quiet (required_auth rq k)"
  unfolding required_auth_def
  by (intro quiet_with_session quiet_Return quiet_Step) (simp_all add: quiet_intros Let_def split: sum.split)

lemma quiet_deref [quiet_intros]:
  "(\<And>e w u. quiet (k e w u)) \<Longrightarrow> quiet (Step (\<lambda>e w. deref name w (\<lambda>u. (w, k e w u))))"
  by (rule quiet_Step) (simp add: deref_def quiet_Abort split: option.split)

lemma quiet_ceremony [quiet_intros]:
  "(\<And>e w sd u. quiet (k e w sd u)) \<Longrightarrow> quiet (Step (\<lambda>e w. ceremony p w (\<lambda>sd. deref name w (\<lambda>u. (w, k e w sd u)))))"
  by (rule quiet_Step) (simp add: ceremony_def deref_def quiet_Abort split: option.split)
























section \<open>Concrete races\<close>

text \<open>Bob, who has a passkey only, is about to finish a login; Alice has TOTP.\<close>

definition race_lib :: "unit auth_lib" where
  "race_lib = demo_lib\<lparr>lib_finish_login := (\<lambda>u sd rq.
     if user_name u = ''bob'' then Inr \<lparr>cred_id = [5], cred_sign_count = 3, cred_rest = []\<rparr> else Inl ''denied'')\<rparr>"

definition bob :: user where
  "bob = \<lparr>user_id = [2], user_name = ''bob'', user_credentials = [], user_totp = [], user_created = 0\<rparr>"

definition bob_session :: "unit session" where
  "bob_session = (fresh_session 0)\<lparr>ses_username := ''bob'', ses_ceremony := Some ()\<rparr>"

definition demo_web :: "unit web" where
  "demo_web = \<lparr>wb_cfg = demo_cfg, wb_store = set_users [''alice'' \<mapsto> demo_user, ''bob'' \<mapsto> bob] example_store,
     wb_index = [''id'' \<mapsto> 0], wb_heap = (\<lambda>_. bob_session), wb_next = 1, wb_secure = True\<rparr>"

definition demo_site :: "unit site" where
  "demo_site = \<lparr>si_web = demo_web, si_request = Map.empty, si_prog = (\<lambda>_. Abort)\<rparr>"

definition finish_request :: request where
  "finish_request = post ''/api/login/finish'' (Some ''id'') []"

definition begin_request :: request where
  "begin_request = post ''/api/login/begin'' (Some ''id'') [(''username'', ''alice'')]"

lemma demo_requests [simp]:
  "route finish_request = Some LoginFinish" "rq_method finish_request = ''POST''" "rq_cookie finish_request = Some ''id''"
  "route begin_request = Some LoginBegin" "rq_method begin_request = ''POST''" "rq_cookie begin_request = Some ''id''"
  by (simp_all add: finish_request_def begin_request_def route_def routes_def)

lemma begin_request_body: "read_json [''username''] (rq_body begin_request) = Some ((\<lambda>_. [])(''username'' := ''alice''))"
  unfolding begin_request_def by (rule read_json_post) (simp_all add: ccode_def)

lemma demo_site_simps [simp]:
  "wb_index (si_web demo_site) ''id'' = Some 0" "wb_heap (si_web demo_site) p = bob_session"
  "users (wb_store (si_web demo_site)) ''bob'' = Some bob" "users (wb_store (si_web demo_site)) ''alice'' = Some demo_user"
  "si_request demo_site = Map.empty" "ses_username bob_session = ''bob''" "ses_ceremony bob_session = Some ()"
  "\<not> ses_authenticated bob_session" "ses_expires bob_session = session_ttl" "user_name bob = ''bob''" "\<not> has_totp bob"
  by (simp_all add: demo_site_def demo_web_def bob_session_def fresh_session_def bob_def has_totp_def)

lemma race_lib_simps [simp]:
  "lib_finish_login race_lib bob sd rq = Inr \<lparr>cred_id = [5], cred_sign_count = 3, cred_rest = []\<rparr>"
  "lib_finish_login race_lib demo_user sd rq = Inl ''denied''"
  "lib_begin_login race_lib u r = Inr (JObj [], ())"
  by (simp_all add: race_lib_def demo_lib_def bob_def demo_user_def)

lemma demo_race:
  "\<exists>t. runs (site_step race_lib) demo_site (takeover 1 finish_request 2 begin_request (demo_env 9)) t \<and>
     wb_index (si_web t) ''id'' = Some 0 \<and> ses_authenticated (wb_heap (si_web t) 0) \<and>
     ses_username (wb_heap (si_web t) 0) = ''alice'' \<and> ses_expires (wb_heap (si_web t) 0) = session_ttl \<and>
     si_request t = [1 \<mapsto> finish_request, 2 \<mapsto> begin_request]"
  using login_race [of finish_request "''id''" begin_request "(\<lambda>_. [])(''username'' := ''alice'')" demo_site 0 bob_session
      "demo_env 9" "()" bob race_lib "\<lparr>cred_id = [5], cred_sign_count = 3, cred_rest = []\<rparr>" demo_user "JObj []" "()" 1 2]
  by (simp add: begin_request_body session_ttl_def)

theorem login_race_takes_over_witness:
  "(\<exists>t. runs (site_step race_lib) demo_site (takeover 1 finish_request 2 begin_request (demo_env 9)) t \<and>
      ses_authenticated (wb_heap (si_web t) 0) \<and> ses_username (wb_heap (si_web t) 0) = ''alice'') \<and>
   \<not> authed ''id'' (fold (auth_step race_lib) [(demo_env 9, begin_request), (demo_env 9, finish_request)]
      (web_server (si_web demo_site)))"
  using login_race_takes_over [of finish_request "''id''" begin_request "(\<lambda>_. [])(''username'' := ''alice'')" demo_site 0 bob_session
      "demo_env 9" "()" bob race_lib "\<lparr>cred_id = [5], cred_sign_count = 3, cred_rest = []\<rparr>" demo_user "JObj []" "()" "''denied''" 1 2]
  by (auto simp add: begin_request_body session_ttl_def)




lemma demo_web_ok: "web_ok demo_web"
  by (simp add: web_ok_def demo_web_def)

theorem uninterrupted_is_sequential_witness:
  "\<exists>w' r. alone (serve_prog race_lib finish_request) (demo_env 9) demo_web = (w', Some r) \<and>
     auth_handle race_lib (demo_env 9) finish_request (web_server demo_web) = (web_server w', answer_with_cors demo_cfg finish_request r)"
proof -
  have "wb_cfg demo_web = demo_cfg" by (simp add: demo_web_def)
  then show ?thesis
    using uninterrupted_is_sequential [OF demo_web_ok, of race_lib finish_request "demo_env 9"] by auto
qed

end
