(* ===== verification/AuthLogins.thy ===== *)
theory AuthLogins
  imports AuthRace
begin

text \<open>
  What every login to the identity service rests on, under every schedule: the history of a session
  that has become authenticated.
\<close>

section \<open>What a login rests on\<close>

text \<open>
  How far a handler has come: it has its session's pointer; it has read the session's name, for
  which there is a user; the library has accepted a login and TOTP is still to be looked at; it may authenticate the session.
\<close>

datatype stage = Start | Holding nat | Named nat string | Proved nat string | Granted nat string

definition passed :: "'sd auth_lib \<Rightarrow> request \<Rightarrow> nat \<Rightarrow> string \<Rightarrow> env \<Rightarrow> 'sd web \<Rightarrow> bool" where
  "passed lib rq p k e w \<longleftrightarrow> (\<exists>u. users (wb_store w) k = Some u \<and>
     ((\<exists>sd cred. ses_ceremony (wb_heap w p) = Some sd \<and>
         (route rq = Some RegisterFinish \<and> lib_finish_registration lib u sd rq = Inr cred
          \<or> route rq = Some LoginFinish \<and> lib_finish_login lib u sd rq = Inr cred))
      \<or> route rq = Some TotpVerify \<and> has_totp u \<and> (\<exists>req. read_json [''code''] (rq_body rq) = Some req \<and>
          lib_totp_validate lib (e_now e) (req ''code'') (user_totp u))))"

definition no_totp :: "string \<Rightarrow> 'sd web \<Rightarrow> bool" where
  "no_totp k w \<longleftrightarrow> (\<exists>u. users (wb_store w) k = Some u \<and> \<not> has_totp u)"

text \<open>What a step of a handler at one stage, in the state \<open>w\<close>, lets it go on to.\<close>

inductive advance :: "'sd auth_lib \<Rightarrow> request \<Rightarrow> env \<Rightarrow> 'sd web \<Rightarrow> stage \<Rightarrow> stage \<Rightarrow> bool"
  for lib rq e w where
  advance_stay: "advance lib rq e w st st"
| advance_hold: "find_session (e_now e) (rq_cookie rq) w = Some p \<Longrightarrow> advance lib rq e w Start (Holding p)"
| advance_name: "ses_username (wb_heap w p) = k \<Longrightarrow> advance lib rq e w (Holding p) (Named p k)"
| advance_prove: "passed lib rq p k e w \<Longrightarrow> route rq = Some LoginFinish \<Longrightarrow> advance lib rq e w (Named p k) (Proved p k)"
| advance_grant: "passed lib rq p k e w \<Longrightarrow> route rq \<noteq> Some LoginFinish \<Longrightarrow> advance lib rq e w (Named p k) (Granted p k)"
| advance_clear: "no_totp k w \<Longrightarrow> advance lib rq e w (Proved p k) (Granted p k)"

text \<open>
  What no step does to the sessions: authenticate one before it has come so far, or put the object of one cookie
  under another.
\<close>

definition spares :: "stage \<Rightarrow> 'sd web \<Rightarrow> 'sd web \<Rightarrow> bool" where
  "spares st w w' \<longleftrightarrow>
     (\<forall>p. ses_authenticated (wb_heap w' p) \<longrightarrow> ses_authenticated (wb_heap w p) \<or> (\<exists>k. st = Granted p k)) \<and>
     wb_next w \<le> wb_next w' \<and> (web_ok w \<longrightarrow> web_ok w') \<and>
     (\<forall>v p. wb_index w' v = Some p \<longrightarrow> wb_index w v = Some p \<or> wb_next w \<le> p)"

lemma spares_same [simp]:
  "wb_heap w' = wb_heap w \<Longrightarrow> wb_index w' = wb_index w \<Longrightarrow> wb_next w' = wb_next w \<Longrightarrow> spares st w w'"
  by (simp add: spares_def web_ok_def)

lemma spares_insert: "spares st w (insert_session now i w)"
  unfolding spares_def using insert_session_ok(1) [of w now i]
  by (auto simp: insert_session_def fresh_session_def)

text \<open>A program that authenticates a session only when it has come that far.\<close>

inductive careful :: "'sd auth_lib \<Rightarrow> request \<Rightarrow> stage \<Rightarrow> 'sd prog \<Rightarrow> bool" for lib rq where
  careful_Return: "careful lib rq st (Return r)"
| careful_Abort: "careful lib rq st Abort"
| careful_Step: "(\<And>e w. spares st w (fst (f e w)) \<and> (\<exists>st'. advance lib rq e w st st' \<and> careful lib rq st' (snd (f e w)))) \<Longrightarrow>
    careful lib rq st (Step f)"

inductive_cases careful_StepE: "careful lib rq st (Step f)"

lemma careful_keep:
  "(\<And>e w. spares st w (fst (f e w)) \<and> careful lib rq st (snd (f e w))) \<Longrightarrow> careful lib rq st (Step f)"
  using advance_stay by (intro careful_Step) blast

named_theorems careful_intros \<open>the parts that handlers are made of are careful\<close>

declare careful_Return [careful_intros] careful_Abort [careful_intros]

lemma careful_local [careful_intros]:
  "(\<And>e w. careful lib rq st (k e w)) \<Longrightarrow> careful lib rq st (Step (\<lambda>e w. (w, k e w)))"
  by (rule careful_keep) simp

lemma careful_choice [careful_intros]:
  "(\<And>e w. careful lib rq st (j e w)) \<Longrightarrow> (\<And>e w. careful lib rq st (k e w)) \<Longrightarrow>
   careful lib rq st (Step (\<lambda>e w. if c e w then (w, j e w) else (w, k e w)))"
  by (rule careful_keep) simp

lemma careful_if [careful_intros]: "careful lib rq st j \<Longrightarrow> careful lib rq st k \<Longrightarrow> careful lib rq st (if c then j else k)"
  by simp

lemma careful_assign [careful_intros]:
  "(\<And>s. ses_authenticated (f s) \<Longrightarrow> ses_authenticated s) \<Longrightarrow> careful lib rq st k \<Longrightarrow> careful lib rq st (assign p f k)"
  unfolding assign_def by (rule careful_keep) (auto simp: spares_def)

lemma careful_grant: "careful lib rq (Granted p name) k \<Longrightarrow> careful lib rq (Granted p name) (assign p f k)"
  unfolding assign_def by (rule careful_keep) (auto simp: spares_def)

lemma careful_assign_user [careful_intros]: "careful lib rq st k \<Longrightarrow> careful lib rq st (assign_user name f k)"
  unfolding assign_user_def by (rule careful_keep) simp

lemma careful_write_user [careful_intros]: "(\<And>x u. careful lib rq st (k x u)) \<Longrightarrow> careful lib rq st (write_user name n k)"
  unfolding write_user_def deref_def
  by (rule careful_keep) (auto simp: careful_Abort split_beta split: option.split)

lemma careful_deref [careful_intros]:
  "(\<And>e w u. careful lib rq st (k e w u)) \<Longrightarrow> careful lib rq st (Step (\<lambda>e w. deref name w (\<lambda>u. (w, k e w u))))"
  by (rule careful_keep) (simp add: deref_def careful_Abort split: option.split)

lemma careful_with_session:
  assumes "careful lib rq Start none" and "\<And>p. careful lib rq (Holding p) (k p)"
  shows "careful lib rq Start (with_session rq none k)"
  unfolding with_session_def
proof (rule careful_Step, intro conjI)
  fix e w
  show "\<exists>st'. advance lib rq e w Start st' \<and> careful lib rq st'
      (snd (w, case find_session (e_now e) (rq_cookie rq) w of None \<Rightarrow> none | Some p \<Rightarrow> k p))"
  proof (cases "find_session (e_now e) (rq_cookie rq) w")
    case None
    then show ?thesis by (intro exI [where x = Start] conjI advance_stay) (simp add: assms(1))
  next
    case (Some p)
    then show ?thesis by (intro exI [where x = "Holding p"] conjI advance_hold) (simp_all add: assms(2))
  qed
qed simp

lemma careful_get_or_create [careful_intros]:
  assumes "\<And>st p cs. careful lib rq st (k p cs)"
  shows "careful lib rq Start (get_or_create rq n k)"
  unfolding get_or_create_def
  by (intro careful_with_session careful_keep)
     (simp_all add: Let_def assms spares_insert)

text \<open>Reading the name of the session and its user in the store.\<close>

lemma careful_name:
  assumes "careful lib rq (Holding p) none" and "\<And>name. careful lib rq (Named p name) (k name)"
  shows "careful lib rq (Holding p) (Step (\<lambda>e w. (w, let name = ses_username (wb_heap w p) in
    case get_user name (wb_store w) of Inl _ \<Rightarrow> none | Inr _ \<Rightarrow> k name)))"
proof (rule careful_Step, intro conjI)
  fix e and w :: "'a web"
  show "\<exists>st'. advance lib rq e w (Holding p) st' \<and> careful lib rq st'
      (snd (w, let name = ses_username (wb_heap w p) in case get_user name (wb_store w) of Inl _ \<Rightarrow> none | Inr _ \<Rightarrow> k name))"
  proof (cases "get_user (ses_username (wb_heap w p)) (wb_store w)")
    case (Inl x)
    then show ?thesis by (intro exI [where x = "Holding p"] conjI advance_stay) (simp only: snd_conv Let_def sum.case assms(1))
  next
    case (Inr u)
    then show ?thesis
      by (intro exI [where x = "Named p (ses_username (wb_heap w p))"] conjI advance_name refl)
         (simp only: snd_conv Let_def sum.case assms(2))
  qed
qed simp

lemma careful_pending_user [careful_intros]:
  "(\<And>p name. careful lib rq (Named p name) (k p name)) \<Longrightarrow> careful lib rq Start (pending_user rq idle unknown k)"
  unfolding pending_user_def by (intro careful_with_session careful_choice careful_name careful_Return)

lemma careful_required_auth [careful_intros]:
  "(\<And>p name. careful lib rq (Named p name) (k p name)) \<Longrightarrow> careful lib rq Start (required_auth rq k)"
  unfolding required_auth_def by (intro careful_with_session careful_choice careful_name careful_Return)

text \<open>The handlers that authenticate nobody.\<close>

lemma careful_register_begin: "careful lib rq Start (register_begin_prog lib rq :: 'sd prog)"
proof -
  have options: "careful lib rq Start (register_options lib rq invite username :: 'sd prog)" for invite username
    unfolding register_options_def by (intro careful_intros) (auto intro!: careful_intros split: sum.split)
  have "careful lib rq Start (Step (\<lambda>e w.
      case create_user (e_io e 0) (e_now e) (e_rand e 0) username (wb_store w) of
        (st, Inr _) \<Rightarrow> (w\<lparr>wb_store := st\<rparr>, register_options lib rq invite username)
      | (st, Inl x) \<Rightarrow> (w\<lparr>wb_store := st\<rparr>, Return (http_error 409 (err_text x)))) :: 'sd prog)" for invite username
    by (rule careful_keep) (auto simp: options careful_Return split: prod.split sum.split)
  then show ?thesis
    unfolding register_begin_prog_def using options
    by (auto intro!: careful_intros split: option.split sum.split auth_err.split)
qed

lemma careful_login_begin: "careful lib rq Start (login_begin_prog lib rq)"
  unfolding login_begin_prog_def by (auto intro!: careful_intros split: option.split sum.split)

lemma careful_totp_enroll: "careful lib rq Start (totp_enroll_prog lib rq)"
  unfolding totp_enroll_prog_def by (intro careful_intros) (auto intro!: careful_intros split: sum.split)

lemma careful_totp_confirm: "careful lib rq Start (totp_confirm_prog lib rq)"
  unfolding totp_confirm_prog_def by (intro careful_intros) (auto intro!: careful_intros split: option.split)

lemma careful_mints: "careful lib rq st (Step mint_token)"
  by (rule careful_keep) (auto simp: mint_token_def careful_Return split: prod.split sum.split)

lemma careful_create_invite: "careful lib rq Start (create_invite_prog rq :: 'sd prog)"
proof -
  have "careful lib rq st (Step (\<lambda>e w.
      case create_invite (e_io e 0) (e_now e) (e_rand e 0) name (cfg_invite_ttl (wb_cfg w)) (wb_store w) of
        (st, Inl x) \<Rightarrow> (w\<lparr>wb_store := st\<rparr>, Return (http_error 500 (err_text x)))
      | (st, Inr tok) \<Rightarrow> (w\<lparr>wb_store := st\<rparr>, Return (write_json 200 (JObj [(''token'', JStr tok)])))) :: 'sd prog)" for st name
    by (rule careful_keep) (auto simp: careful_Return split: prod.split sum.split)
  then show ?thesis
    unfolding create_invite_prog_def by (intro careful_intros) (auto intro!: careful_intros split: option.split)
qed

lemma careful_create_agent_token: "careful lib rq Start (create_agent_token_prog rq)"
  unfolding create_agent_token_prog_def by (intro careful_intros careful_mints)

lemma careful_session_info: "careful lib rq Start (session_info_prog rq)"
  unfolding session_info_prog_def Let_def by (intro careful_with_session careful_intros)

lemma careful_logout: "careful lib rq Start (logout_prog rq)"
  unfolding logout_prog_def
  by (rule careful_keep) (auto simp: careful_Return spares_def web_ok_def split: option.split if_splits)

lemma careful_agent_check: "careful lib rq Start (agent_check_prog rq :: 'sd prog)"
proof -
  have "careful lib rq Start (Step (spend_token t) :: 'sd prog)" for t
    by (rule careful_keep) (simp add: spend_token_def careful_Return split_beta)
  then show ?thesis by (simp add: agent_check_prog_def careful_Return split: option.split)
qed

text \<open>The three that do.\<close>

lemma careful_totp_verify:
  assumes "route rq = Some TotpVerify"
  shows "careful lib rq Start (totp_verify_prog lib rq :: 'sd prog)"
proof -
  have check: "careful lib rq (Named p name) (Step (\<lambda>e w. deref name w (\<lambda>user. (w,
      if \<not> has_totp user \<or> \<not> lib_totp_validate lib (e_now e) (req ''code'') (user_totp user)
      then Return (http_error 401 ''invalid code'')
      else assign p (\<lambda>s. s\<lparr>ses_authenticated := True\<rparr>) (Return (write_json 200 (JObj [(''ok'', JBool True)])))))) :: 'sd prog)"
    if req: "read_json [''code''] (rq_body rq) = Some req" for p name req
  proof (rule careful_Step, intro conjI)
    fix e :: env and w :: "'sd web"
    let ?f = "\<lambda>user. (w, if \<not> has_totp user \<or> \<not> lib_totp_validate lib (e_now e) (req ''code'') (user_totp user)
      then Return (http_error 401 ''invalid code'')
      else assign p (\<lambda>s. s\<lparr>ses_authenticated := True\<rparr>) (Return (write_json 200 (JObj [(''ok'', JBool True)]))))"
    show "spares (Named p name) w (fst (deref name w ?f))" by (simp add: deref_def split: option.split)
    show "\<exists>st'. advance lib rq e w (Named p name) st' \<and> careful lib rq st' (snd (deref name w ?f))"
    proof (cases "\<exists>u. users (wb_store w) name = Some u \<and> has_totp u \<and> lib_totp_validate lib (e_now e) (req ''code'') (user_totp u)")
      case True
      then obtain u where u: "users (wb_store w) name = Some u" "has_totp u" "lib_totp_validate lib (e_now e) (req ''code'') (user_totp u)"
        by blast
      then have "passed lib rq p name e w" using assms req by (auto simp: passed_def)
      then have "advance lib rq e w (Named p name) (Granted p name)" by (rule advance_grant) (simp add: assms)
      then show ?thesis using u by (intro exI [where x = "Granted p name"]) (simp add: deref_def careful_grant careful_Return)
    next
      case False
      then show ?thesis
        by (intro exI [where x = "Named p name"] conjI advance_stay)
           (auto simp: deref_def careful_Return careful_Abort split: option.split)
    qed
  qed
  show ?thesis
    unfolding totp_verify_prog_def
    by (intro careful_with_session careful_local careful_if careful_Return)
       (auto intro!: careful_name careful_Return check split: option.split)
qed

lemma careful_register_finish:
  assumes "route rq = Some RegisterFinish"
  shows "careful lib rq Start (register_finish_prog lib rq :: 'sd prog)"
  unfolding register_finish_prog_def
proof (intro careful_pending_user careful_Step conjI)
  fix p name and e :: env and w :: "'sd web"
  let ?k = "\<lambda>cred. assign_user name (\<lambda>w u. u\<lparr>user_credentials := user_credentials u @ [cred]\<rparr>)
     (write_user name 0 (\<lambda>x u. case x of
        Some x \<Rightarrow> Return (http_error 500 (err_text x))
      | None \<Rightarrow> Step (\<lambda>e w.
          (w\<lparr>wb_store := fst (consume_invite (e_io e 1) (e_now e) (ses_pending_invite (wb_heap w p)) (wb_store w))\<rparr>,
           assign p (\<lambda>s. s\<lparr>ses_ceremony := None\<rparr>)
          (assign p (\<lambda>s. s\<lparr>ses_pending_invite := []\<rparr>)
          (assign p (\<lambda>s. s\<lparr>ses_authenticated := True\<rparr>)
          (Return (write_json 200 (JObj [(''ok'', JBool True), (''username'', JStr (user_name u))])))))))))"
  let ?f = "\<lambda>sd. deref name w (\<lambda>user. (w, case lib_finish_registration lib user sd rq of
      Inl m \<Rightarrow> Return (http_error 400 (''registration failed: '' @ m)) | Inr cred \<Rightarrow> ?k cred))"
  have k: "careful lib rq (Granted p name) (?k cred)" for cred
    by (intro careful_assign_user careful_write_user)
       (auto intro!: careful_Return careful_grant careful_keep split: option.split)
  show "spares (Named p name) w (fst (ceremony p w ?f))" by (simp add: ceremony_def deref_def split: option.split)
  show "\<exists>st'. advance lib rq e w (Named p name) st' \<and> careful lib rq st' (snd (ceremony p w ?f))"
  proof (cases "\<exists>sd u cred. ses_ceremony (wb_heap w p) = Some sd \<and> users (wb_store w) name = Some u \<and>
      lib_finish_registration lib u sd rq = Inr cred")
    case True
    then obtain sd u cred where u: "ses_ceremony (wb_heap w p) = Some sd" "users (wb_store w) name = Some u"
        "lib_finish_registration lib u sd rq = Inr cred" by blast
    then have "passed lib rq p name e w" using assms by (auto simp: passed_def)
    then have "advance lib rq e w (Named p name) (Granted p name)" by (rule advance_grant) (simp add: assms)
    then show ?thesis using u k [of cred] by (intro exI [where x = "Granted p name"]) (simp add: ceremony_def deref_def)
  next
    case False
    then show ?thesis
      by (intro exI [where x = "Named p name"] conjI advance_stay)
         (auto simp: ceremony_def deref_def careful_Return careful_Abort split: option.split sum.split)
  qed
qed

lemma careful_login_finish:
  assumes "route rq = Some LoginFinish"
  shows "careful lib rq Start (login_finish_prog lib rq :: 'sd prog)"
  unfolding login_finish_prog_def
proof (intro careful_pending_user careful_Step conjI)
  fix p name and e :: env and w :: "'sd web"
  let ?t = "\<lambda>e w. deref name w (\<lambda>user. (w, if has_totp user then
        Return (write_json 200 (JObj [(''ok'', JBool True), (''totp_required'', JBool True)]))
      else assign p (\<lambda>s. s\<lparr>ses_authenticated := True\<rparr>)
        (Return (write_json 200 (JObj [(''ok'', JBool True), (''totp_required'', JBool False)])))))"
  let ?k = "\<lambda>cred. assign_user name (\<lambda>w u. u\<lparr>user_credentials :=
        bump_sign_count (cred_id cred) (cred_sign_count cred) (user_credentials u)\<rparr>)
     (write_user name 0 (\<lambda>_ _. assign p (\<lambda>s. s\<lparr>ses_ceremony := None\<rparr>) (Step ?t)))"
  let ?f = "\<lambda>sd. deref name w (\<lambda>user. (w, case lib_finish_login lib user sd rq of
      Inl _ \<Rightarrow> Return (http_error 401 ''login failed'') | Inr cred \<Rightarrow> ?k cred))"
  have "careful lib rq (Proved p name) (Step ?t :: 'sd prog)"
  proof (rule careful_Step, intro conjI)
    fix e :: env and w :: "'sd web"
    show "spares (Proved p name) w (fst (?t e w))" by (simp add: deref_def split: option.split)
    show "\<exists>st'. advance lib rq e w (Proved p name) st' \<and> careful lib rq st' (snd (?t e w))"
    proof (cases "no_totp name w")
      case True
      then have "advance lib rq e w (Proved p name) (Granted p name)" by (rule advance_clear)
      then show ?thesis
        using True by (intro exI [where x = "Granted p name"]) (auto simp: no_totp_def deref_def careful_grant careful_Return)
    next
      case False
      then show ?thesis
        by (intro exI [where x = "Proved p name"] conjI advance_stay)
           (auto simp: no_totp_def deref_def careful_Return careful_Abort split: option.split)
    qed
  qed
  then have k: "careful lib rq (Proved p name) (?k cred)" for cred
    by (intro careful_assign_user careful_write_user careful_assign) simp_all
  show "spares (Named p name) w (fst (ceremony p w ?f))" by (simp add: ceremony_def deref_def split: option.split)
  show "\<exists>st'. advance lib rq e w (Named p name) st' \<and> careful lib rq st' (snd (ceremony p w ?f))"
  proof (cases "\<exists>sd u cred. ses_ceremony (wb_heap w p) = Some sd \<and> users (wb_store w) name = Some u \<and>
      lib_finish_login lib u sd rq = Inr cred")
    case True
    then obtain sd u cred where u: "ses_ceremony (wb_heap w p) = Some sd" "users (wb_store w) name = Some u"
        "lib_finish_login lib u sd rq = Inr cred" by blast
    then have "passed lib rq p name e w" using assms by (auto simp: passed_def)
    then have "advance lib rq e w (Named p name) (Proved p name)" by (rule advance_prove) (rule assms)
    then show ?thesis using u k [of cred] by (intro exI [where x = "Proved p name"]) (simp add: ceremony_def deref_def)
  next
    case False
    then show ?thesis
      by (intro exI [where x = "Named p name"] conjI advance_stay)
         (auto simp: ceremony_def deref_def careful_Return careful_Abort split: option.split sum.split)
  qed
qed

lemma careful_serve: "careful lib rq Start (serve_prog lib rq)"
  unfolding serve_prog_def
  by (auto intro: careful_Return careful_register_begin careful_register_finish careful_login_begin careful_login_finish
      careful_totp_verify careful_totp_enroll careful_totp_confirm careful_create_invite careful_create_agent_token
      careful_session_info careful_logout careful_agent_check
      split: option.split endpoint.split)

text \<open>That the handler \<open>h\<close> took a step at a moment of the run when \<open>P\<close> held.\<close>

definition moment :: "'sd auth_lib \<Rightarrow> 'sd site \<Rightarrow> site_event list \<Rightarrow> nat \<Rightarrow> (env \<Rightarrow> 'sd web \<Rightarrow> bool) \<Rightarrow> bool" where
  "moment lib s0 es h P \<longleftrightarrow>
     (\<exists>es1 e es2 s. es = es1 @ Move h e # es2 \<and> runs (site_step lib) s0 es1 s \<and> P e (si_web s))"

lemma moment_snoc: "moment lib s0 es h P \<Longrightarrow> moment lib s0 (es @ [ev]) h P"
  unfolding moment_def by (metis append_Cons append_assoc)

lemma moment_now: "runs (site_step lib) s0 es s \<Longrightarrow> P e (si_web s) \<Longrightarrow> moment lib s0 (es @ [Move h e]) h P"
  unfolding moment_def by blast

definition named :: "'sd auth_lib \<Rightarrow> 'sd site \<Rightarrow> site_event list \<Rightarrow> nat \<Rightarrow> request \<Rightarrow> nat \<Rightarrow> string \<Rightarrow> bool" where
  "named lib s0 es h rq p k \<longleftrightarrow> moment lib s0 es h (\<lambda>e w. find_session (e_now e) (rq_cookie rq) w = Some p) \<and>
     moment lib s0 es h (\<lambda>e w. ses_username (wb_heap w p) = k)"

fun backed :: "'sd auth_lib \<Rightarrow> 'sd site \<Rightarrow> site_event list \<Rightarrow> nat \<Rightarrow> request \<Rightarrow> stage \<Rightarrow> bool" where
  "backed lib s0 es h rq Start = True"
| "backed lib s0 es h rq (Holding p) = moment lib s0 es h (\<lambda>e w. find_session (e_now e) (rq_cookie rq) w = Some p)"
| "backed lib s0 es h rq (Named p k) = named lib s0 es h rq p k"
| "backed lib s0 es h rq (Proved p k) = (named lib s0 es h rq p k \<and> moment lib s0 es h (passed lib rq p k))"
| "backed lib s0 es h rq (Granted p k) =
     (named lib s0 es h rq p k \<and> moment lib s0 es h (passed lib rq p k) \<and>
      (route rq = Some LoginFinish \<longrightarrow> moment lib s0 es h (\<lambda>e. no_totp k)))"

lemma backed_snoc: "backed lib s0 es h rq st \<Longrightarrow> backed lib s0 (es @ [ev]) h rq st"
  by (cases st) (auto simp: named_def intro: moment_snoc)

lemma backed_advance:
  assumes "runs (site_step lib) s0 es s" and "backed lib s0 es h rq st" and "advance lib rq e (si_web s) st st'"
  shows "backed lib s0 (es @ [Move h e]) h rq st'"
  using assms(3) backed_snoc [OF assms(2), of "Move h e"]
  by (cases rule: advance.cases) (auto simp: named_def intro: moment_now [OF assms(1)])

definition founded :: "'sd auth_lib \<Rightarrow> 'sd site \<Rightarrow> site_event list \<Rightarrow> 'sd site \<Rightarrow> bool" where
  "founded lib s0 es s \<longleftrightarrow>
     (\<forall>h rq. si_request s h = Some rq \<longrightarrow> Arrive h rq \<in> set es \<and>
        (\<exists>st. careful lib rq st (si_prog s h) \<and> backed lib s0 es h rq st)) \<and>
     (\<forall>p. ses_authenticated (wb_heap (si_web s) p) \<longrightarrow> ses_authenticated (wb_heap (si_web s0) p) \<or>
        (\<exists>h rq k. Arrive h rq \<in> set es \<and> backed lib s0 es h rq (Granted p k)))"

lemma foundedD:
  assumes "founded lib s0 es s"
  shows "si_request s h = Some rq \<Longrightarrow> Arrive h rq \<in> set es \<and>
      (\<exists>st. careful lib rq st (si_prog s h) \<and> backed lib s0 es h rq st)"
    and "ses_authenticated (wb_heap (si_web s) p) \<Longrightarrow> ses_authenticated (wb_heap (si_web s0) p) \<or>
      (\<exists>h rq k. Arrive h rq \<in> set (es @ [ev]) \<and> backed lib s0 (es @ [ev]) h rq (Granted p k))"
  using assms backed_snoc [of lib s0 es _ _ "Granted p _" ev] unfolding founded_def by (blast, fastforce simp del: backed.simps)

lemma founded_step:
  assumes run: "runs (site_step lib) s0 es s" and ok: "founded lib s0 es s" and step: "site_step lib ev s = Some t"
  shows "founded lib s0 (es @ [ev]) t"
proof (cases ev)
  case (Arrive h rq)
  then have t: "t = s\<lparr>si_request := (si_request s)(h \<mapsto> rq), si_prog := (si_prog s)(h := serve_prog lib rq)\<rparr>"
    using step by (auto split: if_splits)
  have start: "\<exists>st. careful lib rq st (serve_prog lib rq) \<and> backed lib s0 (es @ [ev]) h rq st"
    by (intro exI [where x = Start] conjI careful_serve) simp
  have "Arrive h' rq' \<in> set (es @ [ev]) \<and>
      (\<exists>st. careful lib rq' st (si_prog t h') \<and> backed lib s0 (es @ [ev]) h' rq' st)" if req: "si_request t h' = Some rq'" for h' rq'
  proof (cases "h' = h")
    case True
    then show ?thesis using req start by (simp add: t Arrive)
  next
    case False
    then obtain st where st: "Arrive h' rq' \<in> set es" "careful lib rq' st (si_prog s h')" "backed lib s0 es h' rq' st"
      using foundedD(1) [OF ok, of h' rq'] req by (auto simp: t simp del: backed.simps)
    have "backed lib s0 (es @ [ev]) h' rq' st" by (rule backed_snoc [OF st(3)])
    then show ?thesis using False st(1,2) by (auto simp: t simp del: backed.simps)
  qed
  moreover have "ses_authenticated (wb_heap (si_web s0) p) \<or>
      (\<exists>h rq k. Arrive h rq \<in> set (es @ [ev]) \<and> backed lib s0 (es @ [ev]) h rq (Granted p k))"
    if "ses_authenticated (wb_heap (si_web t) p)" for p
    using foundedD(2) [OF ok, of p ev] that by (simp add: t del: backed.simps)
  ultimately show ?thesis unfolding founded_def by blast
next
  case (Move h e)
  then obtain rq f where f: "si_request s h = Some rq" "si_prog s h = Step f"
      "t = s\<lparr>si_web := fst (f e (si_web s)), si_prog := (si_prog s)(h := snd (f e (si_web s)))\<rparr>"
    using step by (auto split: option.splits prog.splits prod.splits)
  obtain st where st: "careful lib rq st (Step f)" "backed lib s0 es h rq st" and arrived: "Arrive h rq \<in> set es"
    using foundedD(1) [OF ok f(1)] f(2) by auto
  from st(1) obtain st' where st': "spares st (si_web s) (fst (f e (si_web s)))" "advance lib rq e (si_web s) st st'"
      "careful lib rq st' (snd (f e (si_web s)))"
    by (rule careful_StepE) blast
  have now: "backed lib s0 (es @ [ev]) h rq st'" unfolding Move by (rule backed_advance [OF run st(2) st'(2)])
  have "\<exists>st. careful lib rq' st (si_prog t h') \<and> backed lib s0 (es @ [ev]) h' rq' st" if req: "si_request t h' = Some rq'" for h' rq'
  proof (cases "h' = h")
    case True
    then show ?thesis using req f st'(3) now by auto
  next
    case False
    then obtain st2 where st2: "careful lib rq' st2 (si_prog s h')" "backed lib s0 es h' rq' st2"
      using foundedD(1) [OF ok, of h' rq'] req f(3) by auto
    have "backed lib s0 (es @ [ev]) h' rq' st2" by (rule backed_snoc [OF st2(2)])
    then show ?thesis using False st2(1) f(3) by auto
  qed
  moreover have "ses_authenticated (wb_heap (si_web s0) p) \<or>
      (\<exists>h rq k. Arrive h rq \<in> set (es @ [ev]) \<and> backed lib s0 (es @ [ev]) h rq (Granted p k))"
    if auth: "ses_authenticated (wb_heap (si_web t) p)" for p
  proof (cases "ses_authenticated (wb_heap (si_web s) p)")
    case True
    then show ?thesis by (rule foundedD(2) [OF ok])
  next
    case False
    then obtain k where "st = Granted p k" using st'(1) auth f(3) by (auto simp: spares_def)
    then have "backed lib s0 (es @ [ev]) h rq (Granted p k)" using backed_snoc [OF st(2)] by simp
    then show ?thesis using arrived by auto
  qed
  moreover have "Arrive h' rq' \<in> set (es @ [ev])" if "si_request t h' = Some rq'" for h' rq'
    using foundedD(1) [OF ok, of h' rq'] arrived that f(1,3) by auto
  ultimately show ?thesis unfolding founded_def by blast
qed

lemma founded_runs:
  assumes "runs (site_step lib) s0 es s" and "si_request s0 = Map.empty"
  shows "founded lib s0 es s"
proof -
  have "runs (site_step lib) s1 es s \<Longrightarrow> s1 = s0 \<Longrightarrow> founded lib s0 es s" for s1
  proof (induction rule: runs.induct)
    case (runs_none s)
    then show ?case by (simp add: founded_def assms(2))
  next
    case (runs_more s es t e u)
    then show ?case using founded_step by blast
  qed
  then show ?thesis using assms(1) by blast
qed

text \<open>
  C4. What every login rests on, under every schedule: a session that has become authenticated has
  become so by a handler whose request came with the session's cookie before it expired, that has read a
  name in the session, and for whose user, afterwards, a check succeeded: a registration or a
  login that the WebAuthn library accepted for the ceremony then pending in the session, or a
  valid TOTP code; and for a login the user was seen without TOTP. (That the session still has this name is
  not guaranteed, as the race above shows.)
\<close>

theorem login_needs_proof:
  assumes "runs (site_step lib) s0 es s" and "si_request s0 = Map.empty"
    and "ses_authenticated (wb_heap (si_web s) p)" and "\<not> ses_authenticated (wb_heap (si_web s0) p)"
  shows "\<exists>h rq k. Arrive h rq \<in> set es \<and>
    moment lib s0 es h (\<lambda>e w. find_session (e_now e) (rq_cookie rq) w = Some p) \<and>
    moment lib s0 es h (\<lambda>e w. ses_username (wb_heap w p) = k) \<and>
    moment lib s0 es h (passed lib rq p k) \<and>
    (route rq = Some LoginFinish \<longrightarrow> moment lib s0 es h (\<lambda>e. no_totp k))"
  using founded_runs [OF assms(1,2)] assms(3,4) unfolding founded_def backed.simps named_def by blast

section \<open>A concrete login\<close>

theorem login_needs_proof_witness:
  "\<exists>h rq k. Arrive h rq \<in> set (takeover 1 finish_request 2 begin_request (demo_env 9)) \<and>
     moment race_lib demo_site (takeover 1 finish_request 2 begin_request (demo_env 9)) h (passed race_lib rq 0 k)"
proof -
  obtain t where t: "runs (site_step race_lib) demo_site (takeover 1 finish_request 2 begin_request (demo_env 9)) t"
      "ses_authenticated (wb_heap (si_web t) 0)"
    using demo_race by blast
  have "si_request demo_site = Map.empty" by (simp add: demo_site_def)
  from login_needs_proof [OF t(1) this t(2)] show ?thesis by auto
qed

end
