(* ===== verification/AuthGate.thy ===== *)
theory AuthGate
  imports AuthLogins
begin

text \<open>
  What an answer of \<open>/api/session\<close> is worth under every schedule: the session that a request with the
  same cookie found was seen authenticated, and was logged in through this cookie.
\<close>

section \<open>A session keeps its cookie\<close>

lemma site_spares:
  assumes "runs (site_step lib) s0 es s" and "si_request s0 = Map.empty" and "site_step lib ev s = Some t"
  shows "wb_next (si_web s) \<le> wb_next (si_web t)" and "web_ok (si_web s) \<Longrightarrow> web_ok (si_web t)"
    and "wb_index (si_web t) v = Some p \<Longrightarrow> wb_index (si_web s) v = Some p \<or> wb_next (si_web s) \<le> p"
proof -
  have "si_web t = si_web s \<or> (\<exists>st. spares st (si_web s) (si_web t))"
  proof (cases ev)
    case (Arrive h rq)
    then show ?thesis using assms(3) by (auto split: if_splits)
  next
    case (Move h e)
    then obtain rq f where f: "si_request s h = Some rq" "si_prog s h = Step f" "si_web t = fst (f e (si_web s))"
      using assms(3) by (auto split: option.splits prog.splits prod.splits)
    obtain st where "careful lib rq st (Step f)"
      using foundedD(1) [OF founded_runs [OF assms(1,2)] f(1)] f(2) by auto
    then show ?thesis unfolding f(3) by (rule careful_StepE) blast
  qed
  then show "wb_next (si_web s) \<le> wb_next (si_web t)" "web_ok (si_web s) \<Longrightarrow> web_ok (si_web t)"
    "wb_index (si_web t) v = Some p \<Longrightarrow> wb_index (si_web s) v = Some p \<or> wb_next (si_web s) \<le> p"
    by (auto simp: spares_def)
qed

lemma site_web_ok:
  assumes "runs (site_step lib) s0 es s" and "si_request s0 = Map.empty" and "web_ok (si_web s0)"
  shows "web_ok (si_web s)"
proof -
  have "runs (site_step lib) s1 es s \<Longrightarrow> s1 = s0 \<Longrightarrow> web_ok (si_web s)" for s1
  proof (induction rule: runs.induct)
    case (runs_more s es t e u)
    then have "runs (site_step lib) s0 es t" "web_ok (si_web t)" by simp_all
    then show ?case using site_spares(2) [OF _ assms(2) runs_more.hyps(2)] by blast
  qed (simp add: assms(3))
  then show ?thesis using assms(1) by blast
qed

definition pinned :: "string \<Rightarrow> nat \<Rightarrow> 'sd web \<Rightarrow> bool" where
  "pinned v p w \<longleftrightarrow> p < wb_next w \<and> (\<forall>v'. wb_index w v' = Some p \<longrightarrow> v' = v)"

lemma pinned_runs:
  assumes "runs (site_step lib) s1 es2 s2" and "runs (site_step lib) s0 es1 s1" and "si_request s0 = Map.empty"
    and "pinned v p (si_web s1)"
  shows "pinned v p (si_web s2)"
  using assms
proof (induction rule: runs.induct)
  case (runs_more s es t e u)
  then have p: "pinned v p (si_web t)" by blast
  have run: "runs (site_step lib) s0 (es1 @ es) t" by (rule runs_append [OF runs_more.prems(1) runs_more.hyps(1)])
  note step = site_spares [OF run runs_more.prems(2) runs_more.hyps(2)]
  show ?case unfolding pinned_def using p step(1) step(3) [of _ p] unfolding pinned_def by fastforce
qed simp

lemma same_cookie:
  assumes "runs (site_step lib) s0 es1 s1" and "runs (site_step lib) s0 es2 s2" and "prefix es1 es2"
    and "si_request s0 = Map.empty" and "web_ok (si_web s0)"
    and "wb_index (si_web s1) v = Some p" and "wb_index (si_web s2) v' = Some p"
  shows "v' = v"
proof -
  obtain es where "es2 = es1 @ es" using assms(3) by (auto simp: prefix_def)
  then have run: "runs (site_step lib) s1 es s2" using assms(1,2) by (simp add: runs_exec exec_append)
  have "web_ok (si_web s1)" by (rule site_web_ok [OF assms(1,4,5)])
  then have "pinned v p (si_web s1)" using assms(6) by (auto simp: pinned_def web_ok_def)
  from pinned_runs [OF run assms(1,4) this] show ?thesis using assms(7) by (simp add: pinned_def)
qed

text \<open>Two handlers that have found the same session have done so with the same cookie.\<close>

lemma found_with_same_cookie:
  assumes "moment lib s0 es h (\<lambda>e w. find_session (e_now e) c w = Some p)"
    and "moment lib s0 es h' (\<lambda>e w. find_session (e_now e) c' w = Some p)"
    and "si_request s0 = Map.empty" and "web_ok (si_web s0)"
  shows "c' = c"
proof -
  obtain es1 e1 fs1 s1 where 1: "es = es1 @ Move h e1 # fs1" "runs (site_step lib) s0 es1 s1"
      "find_session (e_now e1) c (si_web s1) = Some p"
    using assms(1) by (auto simp: moment_def)
  obtain es2 e2 fs2 s2 where 2: "es = es2 @ Move h' e2 # fs2" "runs (site_step lib) s0 es2 s2"
      "find_session (e_now e2) c' (si_web s2) = Some p"
    using assms(2) by (auto simp: moment_def)
  obtain v where v: "c = Some v" "wb_index (si_web s1) v = Some p" using 1(3) by (auto simp: find_session_Some)
  obtain v' where v': "c' = Some v'" "wb_index (si_web s2) v' = Some p" using 2(3) by (auto simp: find_session_Some)
  have "prefix es1 es" unfolding 1(1) by simp
  moreover have "prefix es2 es" unfolding 2(1) by simp
  ultimately have "prefix es1 es2 \<or> prefix es2 es1" by (meson prefix_same_cases)
  then show ?thesis
    using same_cookie [OF 1(2) 2(2) _ assms(3,4) v(2) v'(2)] same_cookie [OF 2(2) 1(2) _ assms(3,4) v'(2) v(2)] v v' by auto
qed

section \<open>What an answer has seen\<close>

datatype view = Blind | Found nat | Seen nat

inductive learn :: "request \<Rightarrow> env \<Rightarrow> 'sd web \<Rightarrow> view \<Rightarrow> view \<Rightarrow> bool" for rq e w where
  learn_nothing: "learn rq e w v v"
| learn_found: "find_session (e_now e) (rq_cookie rq) w = Some p \<Longrightarrow> learn rq e w Blind (Found p)"
| learn_seen: "ses_authenticated (wb_heap w p) \<Longrightarrow> learn rq e w (Found p) (Seen p)"

text \<open>A program that answers 200 only when it has seen the session authenticated.\<close>

inductive informed :: "request \<Rightarrow> view \<Rightarrow> 'sd prog \<Rightarrow> bool" for rq where
  informed_Abort: "informed rq v Abort"
| informed_Return: "rs_status r = 200 \<longrightarrow> (\<exists>p. v = Seen p) \<Longrightarrow> informed rq v (Return r)"
| informed_Step: "(\<And>e w. \<exists>v'. learn rq e w v v' \<and> informed rq v' (snd (f e w))) \<Longrightarrow> informed rq v (Step f)"

inductive_cases informed_StepE: "informed rq v (Step f)"
inductive_cases informed_ReturnE: "informed rq v (Return r)"

lemma informed_keep: "(\<And>e w. informed rq v (snd (f e w))) \<Longrightarrow> informed rq v (Step f)"
  using learn_nothing by (intro informed_Step) blast

lemma informed_session_info: "informed rq Blind (session_info_prog rq :: 'sd prog)"
proof -
  let ?rest = "\<lambda>p. Step (\<lambda>e w. (w, let name = ses_username (wb_heap w p); u = get_user name (wb_store w)
     in Step (\<lambda>e w. (w,
       let totp = (case u of Inl _ \<Rightarrow> False
                   | Inr _ \<Rightarrow> (case users (wb_store w) name of None \<Rightarrow> False | Some user \<Rightarrow> has_totp user))
       in Step (\<lambda>e w. (w, Return (write_json 200 (JObj [(''totp'', JBool totp),
            (''username'', JStr (ses_username (wb_heap w p)))])))))))) :: 'sd prog"
  let ?look = "\<lambda>p. Step (\<lambda>e w. (w,
       if \<not> ses_authenticated (wb_heap w p) then Return (http_error 401 ''not authenticated'') else ?rest p)) :: 'sd prog"
  have refuse: "informed rq v (Return (http_error 401 ''not authenticated'') :: 'sd prog)" for v
    by (rule informed_Return) (simp add: http_error_def write_json_def)
  have rest: "informed rq (Seen p) (?rest p)" for p
    by (intro informed_keep) (auto simp: Let_def intro!: informed_keep informed_Return)
  have look: "informed rq (Found p) (?look p)" for p
  proof (rule informed_Step)
    fix e :: env and w :: "'sd web"
    show "\<exists>v'. learn rq e w (Found p) v' \<and> informed rq v' (snd (w,
        if \<not> ses_authenticated (wb_heap w p) then Return (http_error 401 ''not authenticated'') else ?rest p))"
    proof (cases "ses_authenticated (wb_heap w p)")
      case True
      then show ?thesis using rest [of p] by (intro exI [where x = "Seen p"] conjI learn_seen) simp_all
    next
      case False
      then show ?thesis using refuse by (intro exI [where x = "Found p"] conjI learn_nothing) simp
    qed
  qed
  show ?thesis
    unfolding session_info_prog_def with_session_def
  proof (rule informed_Step)
    fix e :: env and w :: "'sd web"
    show "\<exists>v'. learn rq e w Blind v' \<and> informed rq v' (snd (w, case find_session (e_now e) (rq_cookie rq) w of
        None \<Rightarrow> Return (http_error 401 ''not authenticated'') | Some p \<Rightarrow> ?look p))"
    proof (cases "find_session (e_now e) (rq_cookie rq) w")
      case None
      then show ?thesis using refuse by (intro exI [where x = Blind] conjI learn_nothing) simp
    next
      case (Some p)
      then show ?thesis using look [of p] by (intro exI [where x = "Found p"] conjI learn_found) simp_all
    qed
  qed
qed

fun viewed :: "'sd auth_lib \<Rightarrow> 'sd site \<Rightarrow> site_event list \<Rightarrow> nat \<Rightarrow> request \<Rightarrow> view \<Rightarrow> bool" where
  "viewed lib s0 es h rq Blind = True"
| "viewed lib s0 es h rq (Found p) = moment lib s0 es h (\<lambda>e w. find_session (e_now e) (rq_cookie rq) w = Some p)"
| "viewed lib s0 es h rq (Seen p) = (moment lib s0 es h (\<lambda>e w. find_session (e_now e) (rq_cookie rq) w = Some p) \<and>
     moment lib s0 es h (\<lambda>e w. ses_authenticated (wb_heap w p)))"

lemma viewed_snoc: "viewed lib s0 es h rq v \<Longrightarrow> viewed lib s0 (es @ [ev]) h rq v"
  by (cases v) (auto intro: moment_snoc)

lemma viewed_learn:
  assumes "runs (site_step lib) s0 es s" and "viewed lib s0 es h rq v" and "learn rq e (si_web s) v v'"
  shows "viewed lib s0 (es @ [Move h e]) h rq v'"
  using assms(3) viewed_snoc [OF assms(2), of "Move h e"]
  by (cases rule: learn.cases) (auto intro: moment_now [OF assms(1)])

lemma informed_runs:
  assumes "runs (site_step lib) s0 es s" and "si_request s0 = Map.empty"
    and "si_request s h = Some rq" and "rq_method rq \<noteq> ''OPTIONS''" and "route rq = Some SessionInfo"
  shows "\<exists>v. informed rq v (si_prog s h) \<and> viewed lib s0 es h rq v"
proof -
  have "runs (site_step lib) s1 es s \<Longrightarrow> s1 = s0 \<Longrightarrow> si_request s h = Some rq \<Longrightarrow>
      \<exists>v. informed rq v (si_prog s h) \<and> viewed lib s0 es h rq v" for s1
  proof (induction rule: runs.induct)
    case (runs_more s es t ev u)
    have run: "runs (site_step lib) s0 es t" using runs_more.hyps(1) runs_more.prems(1) by simp
    show ?case
    proof (cases "si_request t h = Some rq")
      case False
      then have "si_prog u h = serve_prog lib rq"
        using runs_more.hyps(2) runs_more.prems(2) by (cases ev) (auto split: if_splits option.splits prog.splits prod.splits)
      then show ?thesis
        using informed_session_info assms(4,5) by (intro exI [where x = Blind]) (simp add: serve_prog_def)
    next
      case True
      then obtain v where v: "informed rq v (si_prog t h)" "viewed lib s0 es h rq v" using runs_more by blast
      show ?thesis
      proof (cases "\<exists>e. ev = Move h e")
        case False
        then have "si_prog u h = si_prog t h"
          using runs_more.hyps(2) True by (cases ev) (auto split: if_splits option.splits prog.splits prod.splits)
        then show ?thesis using v(1) viewed_snoc [OF v(2)] by auto
      next
        case move: True
        then obtain e f where f: "ev = Move h e" "si_prog t h = Step f" "si_prog u h = snd (f e (si_web t))"
          using runs_more.hyps(2) by (auto split: option.splits prog.splits prod.splits)
        from v(1) [unfolded f(2)] obtain v' where "learn rq e (si_web t) v v'" "informed rq v' (snd (f e (si_web t)))"
          by (rule informed_StepE) blast
        then show ?thesis using viewed_learn [OF run v(2)] f by metis
      qed
    qed
  qed (simp add: assms(2))
  then show ?thesis using assms(1,3) by blast
qed

text \<open>
  An answer 200 of \<open>/api/session\<close>: a session was found with its cookie, and this session was
  logged in by a request with this cookie.
\<close>

lemma session_answer:
  assumes run: "runs (site_step lib) s0 es s" and empty: "si_request s0 = Map.empty" and ok: "web_ok (si_web s0)"
    and nobody: "\<And>p. \<not> ses_authenticated (wb_heap (si_web s0) p)"
    and rq: "si_request s h = Some rq" "rq_method rq \<noteq> ''OPTIONS''" "route rq = Some SessionInfo"
    and r: "site_answer h s = Some r" "rs_status r = 200"
  shows "\<exists>h' rq' p k. Arrive h' rq' \<in> set es \<and> rq_cookie rq' = rq_cookie rq \<and>
    moment lib s0 es h' (\<lambda>e w. find_session (e_now e) (rq_cookie rq) w = Some p) \<and>
    moment lib s0 es h' (\<lambda>e w. ses_username (wb_heap w p) = k) \<and>
    moment lib s0 es h' (passed lib rq' p k) \<and>
    (route rq' = Some LoginFinish \<longrightarrow> moment lib s0 es h' (\<lambda>e. no_totp k))"
proof -
  obtain r' where r': "si_prog s h = Return r'" "rs_status r' = 200"
    using r rq(1) by (auto simp: site_answer_def answer_with_cors_def split: prog.splits)
  obtain v where v: "informed rq v (si_prog s h)" "viewed lib s0 es h rq v"
    using informed_runs [OF run empty rq] by blast
  obtain p where "v = Seen p" using v(1) r'(2) unfolding r'(1) by (auto elim: informed_ReturnE)
  then have found: "moment lib s0 es h (\<lambda>e w. find_session (e_now e) (rq_cookie rq) w = Some p)"
    and "moment lib s0 es h (\<lambda>e w. ses_authenticated (wb_heap w p))"
    using v(2) by simp_all
  then obtain es1 e1 es2 s1 where 1: "es = es1 @ Move h e1 # es2" "runs (site_step lib) s0 es1 s1"
      "ses_authenticated (wb_heap (si_web s1) p)"
    by (auto simp: moment_def)
  obtain h' rq' k where l: "Arrive h' rq' \<in> set es1" "backed lib s0 es1 h' rq' (Granted p k)"
    using founded_runs [OF 1(2) empty] 1(3) nobody unfolding founded_def by blast
  have later: "moment lib s0 es1 h' P \<Longrightarrow> moment lib s0 es h' P" for P
    unfolding moment_def 1(1) by (metis append_Cons append_assoc)
  then have found': "moment lib s0 es h' (\<lambda>e w. find_session (e_now e) (rq_cookie rq') w = Some p)"
    using l(2) by (simp add: named_def)
  have same: "rq_cookie rq' = rq_cookie rq" by (rule found_with_same_cookie [OF found found' empty ok])
  have "Arrive h' rq' \<in> set es" using l(1) by (simp add: 1(1))
  moreover have "moment lib s0 es h' (\<lambda>e w. ses_username (wb_heap w p) = k)" "moment lib s0 es h' (passed lib rq' p k)"
    "route rq' = Some LoginFinish \<longrightarrow> moment lib s0 es h' (\<lambda>e. no_totp k)"
    using l(2) later by (simp_all add: named_def)
  ultimately show ?thesis using found' [unfolded same] same by blast
qed

end
