(* ===== verification/BrokerFacts.thy ===== *)
theory BrokerFacts
  imports Broker
begin

text \<open>
  The correctness of the coordinator: its tables agree with the handlers that are running,
  in every state that any interleaving of handlers reaches.
\<close>

section \<open>What the shared operations change\<close>

lemma goto_simps [simp]:
  "bk_actl (agent_goto a pc s) = (bk_actl s)(a := map_option (\<lambda>c. c\<lparr>ac_pc := pc\<rparr>) (bk_actl s a))"
  "bk_bctl (agent_goto a pc s) = bk_bctl s" "bk_agents (agent_goto a pc s) = bk_agents s"
  "bk_sessions (agent_goto a pc s) = bk_sessions s" "bk_reg (agent_goto a pc s) = bk_reg s"
  "bk_bctl (browser_goto b q s) = (bk_bctl s)(b := map_option (\<lambda>c. c\<lparr>bc_pc := q\<rparr>) (bk_bctl s b))"
  "bk_actl (browser_goto b q s) = bk_actl s" "bk_agents (browser_goto b q s) = bk_agents s"
  "bk_sessions (browser_goto b q s) = bk_sessions s" "bk_reg (browser_goto b q s) = bk_reg s"
  by (auto simp: agent_goto_def browser_goto_def set_actl_def set_bctl_def fun_eq_iff split: option.split)

lemma set_simps [simp]:
  "bk_actl (set_actl a c s) = (bk_actl s)(a \<mapsto> c)" "bk_bctl (set_actl a c s) = bk_bctl s"
  "bk_agents (set_actl a c s) = bk_agents s" "bk_sessions (set_actl a c s) = bk_sessions s"
  "bk_reg (set_actl a c s) = bk_reg s"
  "bk_bctl (set_bctl b d s) = (bk_bctl s)(b \<mapsto> d)" "bk_actl (set_bctl b d s) = bk_actl s"
  "bk_agents (set_bctl b d s) = bk_agents s" "bk_sessions (set_bctl b d s) = bk_sessions s"
  "bk_reg (set_bctl b d s) = bk_reg s"
  by (simp_all add: set_actl_def set_bctl_def)

lemma close_simps [simp]:
  "bk_actl (close_agent a s) = (bk_actl s)(a := map_option (\<lambda>c. c\<lparr>ac_open := False\<rparr>) (bk_actl s a))"
  "bk_bctl (close_agent a s) = bk_bctl s" "bk_agents (close_agent a s) = bk_agents s"
  "bk_sessions (close_agent a s) = bk_sessions s" "bk_reg (close_agent a s) = bk_reg s"
  "bk_bctl (close_browser b s) = (bk_bctl s)(b := map_option (\<lambda>c. c\<lparr>bc_open := False\<rparr>) (bk_bctl s b))"
  "bk_actl (close_browser b s) = bk_actl s" "bk_agents (close_browser b s) = bk_agents s"
  "bk_sessions (close_browser b s) = bk_sessions s" "bk_reg (close_browser b s) = bk_reg s"
  by (auto simp: close_agent_def close_browser_def fun_eq_iff split: option.split)

lemma write_browser_simps [simp]:
  "bk_bctl (write_browser net b d s) = (bk_bctl s)(b :=
     map_option (\<lambda>c. if net \<and> bc_open c then c\<lparr>bc_out := bc_out c @ [d]\<rparr> else c) (bk_bctl s b))"
  "bk_actl (write_browser net b d s) = bk_actl s" "bk_agents (write_browser net b d s) = bk_agents s"
  "bk_sessions (write_browser net b d s) = bk_sessions s" "bk_reg (write_browser net b d s) = bk_reg s"
  by (auto simp: write_browser_def fun_eq_iff split: option.split)

lemma send_agent_simps [simp]:
  "bk_actl (fst (send_agent net a m s)) = (bk_actl s)(a :=
     map_option (\<lambda>c. if net \<and> ac_open c then c\<lparr>ac_out := ac_out c @ [m]\<rparr> else c) (bk_actl s a))"
  "bk_bctl (fst (send_agent net a m s)) = bk_bctl s" "bk_agents (fst (send_agent net a m s)) = bk_agents s"
  "bk_sessions (fst (send_agent net a m s)) = bk_sessions s" "bk_reg (fst (send_agent net a m s)) = bk_reg s"
  by (auto simp: send_agent_def fun_eq_iff split: option.split)

lemma send_agentD:
  assumes "send_agent net a m s = (s', ok)"
  shows "bk_actl s' = (bk_actl s)(a :=
     map_option (\<lambda>c. if net \<and> ac_open c then c\<lparr>ac_out := ac_out c @ [m]\<rparr> else c) (bk_actl s a))"
    "bk_bctl s' = bk_bctl s" "bk_agents s' = bk_agents s" "bk_sessions s' = bk_sessions s"
    "bk_reg s' = bk_reg s" "ok \<longleftrightarrow> net \<and> (\<exists>c. bk_actl s a = Some c \<and> ac_open c)"
  using send_agent_simps [of net a m s] assms
  by (auto simp: send_agent_def split: option.splits if_splits)

lemma take_sessionD:
  assumes "take_session i s = (s', r)"
  shows "bk_sessions s' = (bk_sessions s)(i := None)" "r = map_option fst (bk_sessions s i)"
    "bk_actl s' = bk_actl s" "bk_bctl s' = bk_bctl s" "bk_agents s' = bk_agents s" "bk_reg s' = bk_reg s"
  using assms by (auto simp: take_session_def)

lemmas agent_segments = agent_hello_def agent_attach_def agent_add_def agent_confirm_def
  agent_frame_def agent_forward_def agent_read_error_def agent_detach_def agent_remove_def

lemmas browser_segments = browser_connect_def browser_lookup_def browser_upgrade_def
  browser_insert_def browser_open_def browser_frame_def browser_input_def browser_read_error_def
  browser_say_close_def browser_drop_def

section \<open>The protocol of the tables\<close>

text \<open>
  The abstract specification: the tables, and how far each handler has come. Its rules are
  the only ways in which the tables may change.
\<close>

datatype agent_phase = Arriving | Listing | Serving | Removing | AGone
datatype browser_phase = Knocking | Upgrading | Inserting | Bridged | BGone

record tables =
  tb_agents :: "string \<rightharpoonup> nat"
  tb_sessions :: "string \<rightharpoonup> nat \<times> nat"
  tb_listed :: "string set"
  tb_a :: "nat \<rightharpoonup> string \<times> agent_phase"
  tb_b :: "nat \<rightharpoonup> (string \<times> nat) \<times> string \<times> browser_phase"

inductive proto :: "tables \<Rightarrow> tables \<Rightarrow> bool" where
  proto_same: "proto s s"
| proto_hello: "tb_a s a = None \<Longrightarrow> p = Arriving \<or> p = AGone \<Longrightarrow>
    proto s (s\<lparr>tb_a := (tb_a s)(a \<mapsto> (d, p))\<rparr>)"
| proto_attach: "tb_a s a = Some (d, Arriving) \<Longrightarrow>
    proto s (s\<lparr>tb_agents := (tb_agents s)(d \<mapsto> a), tb_a := (tb_a s)(a \<mapsto> (d, Listing))\<rparr>)"
| proto_list: "tb_a s a = Some (d, Listing) \<Longrightarrow>
    proto s (s\<lparr>tb_listed := insert d (tb_listed s), tb_a := (tb_a s)(a \<mapsto> (d, Serving))\<rparr>)"
| proto_agent_closes: "tb_a s a = Some (d, Serving) \<Longrightarrow>
    proto s (s\<lparr>tb_sessions := (tb_sessions s)(i := None)\<rparr>)"
| proto_detach: "tb_a s a = Some (d, Serving) \<Longrightarrow>
    proto s (s\<lparr>tb_agents := (if tb_agents s d = Some a then (tb_agents s)(d := None) else tb_agents s),
      tb_a := (tb_a s)(a \<mapsto> (d, Removing))\<rparr>)"
| proto_remove: "tb_a s a = Some (d, Removing) \<Longrightarrow>
    proto s (s\<lparr>tb_listed := tb_listed s - {d}, tb_a := (tb_a s)(a \<mapsto> (d, AGone))\<rparr>)"
| proto_knock: "tb_b s b = None \<Longrightarrow> q = Knocking \<or> q = BGone \<Longrightarrow>
    proto s (s\<lparr>tb_b := (tb_b s)(b \<mapsto> ((d, a), [], q))\<rparr>)"
| proto_lookup: "tb_b s b = Some ((d, a0), i, Knocking) \<Longrightarrow> tb_agents s d = Some a \<Longrightarrow>
    proto s (s\<lparr>tb_b := (tb_b s)(b \<mapsto> ((d, a), i, Upgrading))\<rparr>)"
| proto_upgrade: "tb_b s b = Some ((d, a), i0, Upgrading) \<Longrightarrow>
    proto s (s\<lparr>tb_b := (tb_b s)(b \<mapsto> ((d, a), i, Inserting))\<rparr>)"
| proto_give_up: "tb_b s b = Some (r, i, q) \<Longrightarrow> q = Knocking \<or> q = Upgrading \<Longrightarrow>
    proto s (s\<lparr>tb_b := (tb_b s)(b \<mapsto> (r, i, BGone))\<rparr>)"
| proto_insert: "tb_b s b = Some ((d, a), i, Inserting) \<Longrightarrow>
    proto s (s\<lparr>tb_sessions := (tb_sessions s)(i \<mapsto> (b, a)), tb_b := (tb_b s)(b \<mapsto> ((d, a), i, Bridged))\<rparr>)"
| proto_drop: "tb_b s b = Some (r, i, Bridged) \<Longrightarrow>
    proto s (s\<lparr>tb_sessions := (tb_sessions s)(i := None), tb_b := (tb_b s)(b \<mapsto> (r, i, BGone))\<rparr>)"

inductive_cases protoE: "proto s t"

text \<open>
  The invariant of the protocol: a device of the agents table is served by a handler that
  is there for it; a bridge of the sessions table belongs to a browser handler that is
  running, under that handler's id and with its agent; a listed device has a handler that
  will take it off the list; and a browser is only ever bridged to an agent that
  registered as the device it asked for.
\<close>

definition agents_ok :: "tables \<Rightarrow> bool" where
  "agents_ok s \<longleftrightarrow> (\<forall>d a. tb_agents s d = Some a \<longrightarrow>
     (\<exists>p. tb_a s a = Some (d, p) \<and> p \<in> {Listing, Serving}))"

definition sessions_ok :: "tables \<Rightarrow> bool" where
  "sessions_ok s \<longleftrightarrow> (\<forall>i b a. tb_sessions s i = Some (b, a) \<longrightarrow>
     (\<exists>d. tb_b s b = Some ((d, a), i, Bridged)))"

definition listed_ok :: "tables \<Rightarrow> bool" where
  "listed_ok s \<longleftrightarrow> (\<forall>d\<in>tb_listed s. \<exists>a p. tb_a s a = Some (d, p) \<and> p \<in> {Serving, Removing})"

definition routes_ok :: "tables \<Rightarrow> bool" where
  "routes_ok s \<longleftrightarrow> (\<forall>b d a i q. tb_b s b = Some ((d, a), i, q) \<longrightarrow> q \<in> {Upgrading, Inserting, Bridged} \<longrightarrow>
     (\<exists>p. tb_a s a = Some (d, p) \<and> p \<noteq> Arriving))"

definition tables_ok :: "tables \<Rightarrow> bool" where
  "tables_ok s \<longleftrightarrow> agents_ok s \<and> sessions_ok s \<and> listed_ok s \<and> routes_ok s"

lemma proto_agents_ok: "proto s t \<Longrightarrow> agents_ok s \<Longrightarrow> agents_ok t"
  by (induction rule: proto.induct) (fastforce simp: agents_ok_def split: if_splits)+

lemma proto_sessions_ok: "proto s t \<Longrightarrow> sessions_ok s \<Longrightarrow> sessions_ok t"
  by (induction rule: proto.induct) (fastforce simp: sessions_ok_def split: if_splits)+

lemma listed_ok_frame:
  assumes "listed_ok s" and "tb_listed t \<subseteq> tb_listed s"
    and "\<And>a d p. tb_a s a = Some (d, p) \<Longrightarrow> p \<in> {Serving, Removing} \<Longrightarrow> d \<in> tb_listed t \<Longrightarrow>
      (\<exists>p'. tb_a t a = Some (d, p') \<and> p' \<in> {Serving, Removing})"
  shows "listed_ok t"
  using assms unfolding listed_ok_def by (meson subsetD)

lemma proto_listed_ok: "proto s t \<Longrightarrow> listed_ok s \<Longrightarrow> listed_ok t"
proof (induction rule: proto.induct)
  case (proto_list s a d)
  then have "listed_ok (s\<lparr>tb_a := (tb_a s)(a \<mapsto> (d, Serving))\<rparr>)"
    by (elim listed_ok_frame) auto
  then show ?case by (auto simp: listed_ok_def)
qed (erule listed_ok_frame; force split: if_splits)+

lemma proto_routes_ok: "proto s t \<Longrightarrow> agents_ok s \<Longrightarrow> routes_ok s \<Longrightarrow> routes_ok t"
  by (induction rule: proto.induct) (fastforce simp: agents_ok_def routes_ok_def split: if_splits)+

lemma proto_ok: "proto s t \<Longrightarrow> tables_ok s \<Longrightarrow> tables_ok t"
  by (simp add: tables_ok_def proto_agents_ok proto_sessions_ok proto_listed_ok proto_routes_ok)

section \<open>The coordinator follows the protocol\<close>

fun agent_phase_of :: "agent_pc \<Rightarrow> agent_phase" where
  "agent_phase_of AttachPc = Arriving"
| "agent_phase_of AddPc = Listing"
| "agent_phase_of RemovePc = Removing"
| "agent_phase_of AgentDone = AGone"
| "agent_phase_of _ = Serving"

fun browser_phase_of :: "browser_pc \<Rightarrow> browser_phase" where
  "browser_phase_of LookupPc = Knocking"
| "browser_phase_of UpgradePc = Upgrading"
| "browser_phase_of InsertPc = Inserting"
| "browser_phase_of (BHangupPc b) = BGone"
| "browser_phase_of BrowserDone = BGone"
| "browser_phase_of _ = Bridged"

definition agent_entry :: "agent_ctl \<Rightarrow> string \<times> agent_phase" where
  "agent_entry c = (ac_device c, agent_phase_of (ac_pc c))"

definition browser_entry :: "browser_ctl \<Rightarrow> (string \<times> nat) \<times> string \<times> browser_phase" where
  "browser_entry c = ((bc_device c, bc_agent c), bc_session c, browser_phase_of (bc_pc c))"

definition tables_of :: "broker \<Rightarrow> tables" where
  "tables_of s = \<lparr>tb_agents = bk_agents s, tb_sessions = bk_sessions s,
     tb_listed = dom (reg_devices (bk_reg s)),
     tb_a = map_option agent_entry \<circ> bk_actl s, tb_b = map_option browser_entry \<circ> bk_bctl s\<rparr>"

lemma tables_of_simps [simp]:
  "tb_agents (tables_of s) = bk_agents s" "tb_sessions (tables_of s) = bk_sessions s"
  "tb_listed (tables_of s) = dom (reg_devices (bk_reg s))"
  "tb_a (tables_of s) a = map_option agent_entry (bk_actl s a)"
  "tb_b (tables_of s) b = map_option browser_entry (bk_bctl s b)"
  by (simp_all add: tables_of_def)

lemma tables_eqI:
  "tb_agents s = tb_agents t \<Longrightarrow> tb_sessions s = tb_sessions t \<Longrightarrow> tb_listed s = tb_listed t \<Longrightarrow>
   (\<And>a. tb_a s a = tb_a t a) \<Longrightarrow> (\<And>b. tb_b s b = tb_b t b) \<Longrightarrow> s = (t :: tables)"
  by (cases s; cases t) auto

lemma proto_eq: "proto s u \<Longrightarrow> t = u \<Longrightarrow> proto s t"
  by simp

lemmas entries = agent_entry_def browser_entry_def

lemma entry_frame [simp]:
  "map_option agent_entry (map_option (ac_open_update f) x) = map_option agent_entry x"
  "map_option agent_entry (map_option (\<lambda>c. if P c then c\<lparr>ac_out := g c\<rparr> else c) x) = map_option agent_entry x"
  "map_option browser_entry (map_option (bc_open_update h) y) = map_option browser_entry y"
  "map_option browser_entry (map_option (\<lambda>c. if Q c then c\<lparr>bc_out := k c\<rparr> else c) y) = map_option browser_entry y"
  by (cases x; cases y; simp add: entries)+

lemma proto_sameI: "tables_of t = tables_of s \<Longrightarrow> proto (tables_of s) (tables_of t)"
  by (simp add: proto_same)

lemma agent_hello_proto:
  "agent_hello a raw addr pub verdict net s = Some t \<Longrightarrow> proto (tables_of s) (tables_of t)"
  by (rule proto_hello [THEN proto_eq, where a1 = a and p1 = "snd (agent_entry (the (bk_actl t a)))"
        and d1 = "fst (agent_entry (the (bk_actl t a)))"])
     (auto simp: agent_hello_def Let_def entries intro!: tables_eqI split: option.splits if_splits)

lemma agent_attach_proto:
  "agent_attach a s = Some t \<Longrightarrow> proto (tables_of s) (tables_of t)"
  by (rule proto_attach [THEN proto_eq, where a1 = a and d1 = "ac_device (the (bk_actl s a))"])
     (auto simp: agent_attach_def Let_def entries intro!: tables_eqI split: option.splits if_splits)

lemma agent_add_proto:
  "agent_add a now s = Some t \<Longrightarrow> proto (tables_of s) (tables_of t)"
  by (rule proto_list [THEN proto_eq, where a1 = a and d1 = "ac_device (the (bk_actl s a))"])
     (auto simp: agent_add_def reg_add_def entries intro!: tables_eqI split: option.splits if_splits)

lemma agent_confirm_proto:
  "agent_confirm a net s = Some t \<Longrightarrow> proto (tables_of s) (tables_of t)"
  by (rule proto_sameI)
     (auto simp: agent_confirm_def entries intro!: tables_eqI split: option.splits if_splits)

lemma agent_frame_proto:
  assumes "agent_frame a raw s = Some t"
  shows "proto (tables_of s) (tables_of t)"
proof -
  obtain c where c: "bk_actl s a = Some c" "ac_pc c = ReadPc"
    using assms by (auto simp: agent_frame_def split: option.splits if_splits)
  then have a: "tb_a (tables_of s) a = Some (ac_device c, Serving)" by (simp add: entries)
  obtain m ok where m: "unmarshal_msg raw = (m, ok)" by fastforce
  show ?thesis
  proof (cases "ok \<and> msg_type m = type_close")
    case True
    then have "msg_type m \<noteq> type_output" by (simp add: msg_types)
    with True show ?thesis
      using assms c m
      by (intro proto_agent_closes [OF a, THEN proto_eq, where i1 = "msg_session m"] tables_eqI)
         (auto simp: agent_frame_def take_session_def entries split: option.splits if_splits)
  next
    case False
    then show ?thesis
      using assms c m
      by (intro proto_sameI tables_eqI)
         (auto simp: agent_frame_def entries split: option.splits if_splits prod.splits)
  qed
qed

lemma agent_forward_proto:
  "agent_forward a net s = Some t \<Longrightarrow> proto (tables_of s) (tables_of t)"
  by (rule proto_sameI)
     (auto simp: agent_forward_def entries intro!: tables_eqI split: option.splits if_splits agent_pc.splits)

lemma agent_read_error_proto:
  "agent_read_error a s = Some t \<Longrightarrow> proto (tables_of s) (tables_of t)"
  by (rule proto_sameI)
     (auto simp: agent_read_error_def entries intro!: tables_eqI split: option.splits if_splits)

lemma agent_detach_proto:
  "agent_detach a s = Some t \<Longrightarrow> proto (tables_of s) (tables_of t)"
  by (rule proto_detach [THEN proto_eq, where a1 = a and d1 = "ac_device (the (bk_actl s a))"])
     (auto simp: agent_detach_def entries intro!: tables_eqI split: option.splits if_splits)

lemma agent_remove_proto:
  "agent_remove a s = Some t \<Longrightarrow> proto (tables_of s) (tables_of t)"
  by (rule proto_remove [THEN proto_eq, where a1 = a and d1 = "ac_device (the (bk_actl s a))"])
     (auto simp: agent_remove_def reg_remove_def entries intro!: tables_eqI split: option.splits if_splits)

lemma browser_connect_proto:
  "browser_connect b device authorized s = Some t \<Longrightarrow> proto (tables_of s) (tables_of t)"
  by (rule proto_knock [THEN proto_eq, where b1 = b and d1 = device and a1 = 0
        and q1 = "if authorized then Knocking else BGone"])
     (auto simp: browser_connect_def entries intro!: tables_eqI split: option.splits if_splits)

lemma browser_lookup_proto:
  assumes "browser_lookup b s = Some t"
  shows "proto (tables_of s) (tables_of t)"
proof -
  obtain c where c: "bk_bctl s b = Some c" "bc_pc c = LookupPc"
    using assms by (auto simp: browser_lookup_def split: option.splits if_splits)
  then have b: "tb_b (tables_of s) b = Some ((bc_device c, bc_agent c), bc_session c, Knocking)"
    by (simp add: entries)
  show ?thesis
  proof (cases "bk_agents s (bc_device c)")
    case None
    then show ?thesis
      using assms c by (intro proto_give_up [OF b, THEN proto_eq] tables_eqI)
        (auto simp: browser_lookup_def entries)
  next
    case (Some a)
    then show ?thesis
      using assms c by (intro proto_lookup [OF b, THEN proto_eq, where a1 = a] tables_eqI)
        (auto simp: browser_lookup_def entries)
  qed
qed

lemma browser_upgrade_proto:
  assumes "browser_upgrade b upgraded rnd s = Some t"
  shows "proto (tables_of s) (tables_of t)"
proof -
  obtain c where c: "bk_bctl s b = Some c" "bc_pc c = UpgradePc"
    using assms by (auto simp: browser_upgrade_def split: option.splits if_splits)
  then have b: "tb_b (tables_of s) b = Some ((bc_device c, bc_agent c), bc_session c, Upgrading)"
    by (simp add: entries)
  show ?thesis
  proof (cases upgraded)
    case True
    then show ?thesis
      using assms c by (intro proto_upgrade [OF b, THEN proto_eq, where i1 = "new_id rnd"] tables_eqI)
        (auto simp: browser_upgrade_def entries)
  next
    case False
    then show ?thesis
      using assms c by (intro proto_give_up [OF b, THEN proto_eq] tables_eqI)
        (auto simp: browser_upgrade_def entries)
  qed
qed

lemma browser_insert_proto:
  "browser_insert b s = Some t \<Longrightarrow> proto (tables_of s) (tables_of t)"
  by (rule proto_insert [THEN proto_eq, where b1 = b and d1 = "bc_device (the (bk_bctl s b))"
        and a1 = "bc_agent (the (bk_bctl s b))" and i1 = "bc_session (the (bk_bctl s b))"])
     (auto simp: browser_insert_def entries intro!: tables_eqI split: option.splits if_splits)

lemma browser_talk_proto:
  "browser_open b net s = Some t \<Longrightarrow> proto (tables_of s) (tables_of t)"
  "browser_frame b mt d s = Some t \<Longrightarrow> proto (tables_of s) (tables_of t)"
  "browser_input b net s = Some t \<Longrightarrow> proto (tables_of s) (tables_of t)"
  "browser_read_error b s = Some t \<Longrightarrow> proto (tables_of s) (tables_of t)"
  "browser_say_close b net s = Some t \<Longrightarrow> proto (tables_of s) (tables_of t)"
  by (rule proto_sameI, rule tables_eqI;
      auto simp: browser_open_def browser_frame_def browser_input_def browser_read_error_def
        browser_say_close_def browser_entry_def case_prod_beta
        split: option.splits if_splits browser_pc.splits)+

lemma browser_drop_proto:
  assumes "browser_drop b s = Some t"
  shows "proto (tables_of s) (tables_of t)"
proof -
  obtain c where c: "bk_bctl s b = Some c"
    using assms by (auto simp: browser_drop_def split: option.splits)
  show ?thesis
  proof (cases "bc_pc c = DropPc")
    case True
    then have "tb_b (tables_of s) b = Some ((bc_device c, bc_agent c), bc_session c, Bridged)"
      using c by (simp add: entries)
    then show ?thesis
      using assms c True
      by (elim proto_drop [THEN proto_eq], intro tables_eqI)
         (auto simp: browser_drop_def take_session_def browser_entry_def split: option.splits)
  next
    case False
    then show ?thesis
      using assms c
      by (intro proto_sameI tables_eqI)
         (auto simp: browser_drop_def entries split: option.splits browser_pc.splits)
  qed
qed

text \<open>Simulation: every step of the coordinator is a step of the protocol.\<close>

lemma broker_step_proto: "broker_step e s = Some t \<Longrightarrow> proto (tables_of s) (tables_of t)"
  by (cases e)
     (auto intro: agent_hello_proto agent_attach_proto agent_add_proto agent_confirm_proto
        agent_frame_proto agent_forward_proto agent_read_error_proto agent_detach_proto
        agent_remove_proto browser_connect_proto browser_lookup_proto browser_upgrade_proto
        browser_insert_proto browser_talk_proto browser_drop_proto)

section \<open>The invariant of the coordinator\<close>

interpretation broker: machine broker_step "\<lambda>s. tables_ok (tables_of s)"
  by unfold_locales (blast intro: broker_step_proto proto_ok)

lemma broker_new_ok: "tables_ok (tables_of (broker_new cloud))"
  by (simp add: tables_ok_def agents_ok_def sessions_ok_def listed_ok_def routes_ok_def
      broker_new_def reg_new_def)

lemma broker_reachable_ok: "runs broker_step (broker_new cloud) es s \<Longrightarrow> tables_ok (tables_of s)"
  by (erule broker.ok_runs) (rule broker_new_ok)

lemma broker_runs_proto:
  "runs broker_step s es t \<Longrightarrow> proto\<^sup>*\<^sup>* (tables_of s) (tables_of t)"
  by (induction rule: runs.induct) (auto intro: broker_step_proto rtranclp.rtrancl_into_rtrancl)

text \<open>The clauses of the invariant, on the handlers' own variables.\<close>

lemma ok_agents:
  "agents_ok (tables_of s) \<Longrightarrow> bk_agents s d = Some a \<Longrightarrow>
   \<exists>c. bk_actl s a = Some c \<and> ac_device c = d \<and> agent_phase_of (ac_pc c) \<in> {Listing, Serving}"
  by (force simp: agents_ok_def agent_entry_def)

lemma ok_sessions:
  "sessions_ok (tables_of s) \<Longrightarrow> bk_sessions s i = Some (b, a) \<Longrightarrow>
   \<exists>c. bk_bctl s b = Some c \<and> bc_session c = i \<and> bc_agent c = a \<and> browser_phase_of (bc_pc c) = Bridged"
  by (force simp: sessions_ok_def browser_entry_def)

lemma ok_listed:
  "listed_ok (tables_of s) \<Longrightarrow> reg_get (bk_reg s) d = Some dev \<Longrightarrow>
   \<exists>a c. bk_actl s a = Some c \<and> ac_device c = d \<and> agent_phase_of (ac_pc c) \<in> {Serving, Removing}"
  by (force simp: listed_ok_def agent_entry_def reg_get_def)

lemma ok_routes:
  "routes_ok (tables_of s) \<Longrightarrow> bk_bctl s b = Some c \<Longrightarrow> browser_phase_of (bc_pc c) = Bridged \<Longrightarrow>
   \<exists>ca. bk_actl s (bc_agent c) = Some ca \<and> ac_device ca = bc_device c"
  by (force simp: routes_ok_def agent_entry_def browser_entry_def)

text \<open>
  C9. Refinement: under every interleaving of its handlers the coordinator's tables only
  change as the rules of \<open>proto\<close> allow, starting from empty tables.
\<close>

theorem broker_refines_protocol:
  assumes "runs broker_step (broker_new cloud) es s"
  shows "proto\<^sup>*\<^sup>* \<lparr>tb_agents = Map.empty, tb_sessions = Map.empty, tb_listed = {},
    tb_a = Map.empty, tb_b = Map.empty\<rparr> (tables_of s)"
proof -
  have "tables_of (broker_new cloud) = \<lparr>tb_agents = Map.empty, tb_sessions = Map.empty, tb_listed = {},
      tb_a = Map.empty, tb_b = Map.empty\<rparr>"
    by (rule tables_eqI) (simp_all add: broker_new_def reg_new_def)
  with broker_runs_proto [OF assms] show ?thesis by simp
qed

text \<open>
  C2. In every reachable state: a device in the agents table is held by a handler that
  registered as that device and has not left; a bridge belongs to a running browser
  handler, under its own id and with its own agent; a listed device has a handler that will
  unlist it; and a bridged browser talks to an agent that registered as the device the
  browser asked for.
\<close>

theorem broker_tables_agree:
  assumes "runs broker_step (broker_new cloud) es s"
  shows "(\<forall>d a. bk_agents s d = Some a \<longrightarrow> (\<exists>c. bk_actl s a = Some c \<and> ac_device c = d \<and>
      agent_phase_of (ac_pc c) \<in> {Listing, Serving})) \<and>
    (\<forall>i b a. bk_sessions s i = Some (b, a) \<longrightarrow> (\<exists>c. bk_bctl s b = Some c \<and> bc_session c = i \<and>
      bc_agent c = a \<and> browser_phase_of (bc_pc c) = Bridged)) \<and>
    (\<forall>d dev. reg_get (bk_reg s) d = Some dev \<longrightarrow> (\<exists>a c. bk_actl s a = Some c \<and> ac_device c = d \<and>
      agent_phase_of (ac_pc c) \<in> {Serving, Removing})) \<and>
    (\<forall>b c. bk_bctl s b = Some c \<longrightarrow> browser_phase_of (bc_pc c) = Bridged \<longrightarrow>
      (\<exists>ca. bk_actl s (bc_agent c) = Some ca \<and> ac_device ca = bc_device c))"
proof -
  have "agents_ok (tables_of s)" "sessions_ok (tables_of s)" "listed_ok (tables_of s)" "routes_ok (tables_of s)"
    using broker_reachable_ok [OF assms] by (simp_all add: tables_ok_def)
  then show ?thesis
    by (intro conjI allI impI) (rule ok_agents ok_sessions ok_listed ok_routes; assumption)+
qed

text \<open>
  Nothing is leaked: a browser handler that has returned owns no bridge, an agent handler
  that has returned is not in the agents table, and a browser owns at most one bridge.
\<close>

theorem broker_no_leak:
  assumes "runs broker_step (broker_new cloud) es s"
  shows "(\<forall>b c i a. bk_bctl s b = Some c \<longrightarrow> bc_pc c = BrowserDone \<longrightarrow> bk_sessions s i \<noteq> Some (b, a)) \<and>
    (\<forall>a c d. bk_actl s a = Some c \<longrightarrow> ac_pc c = AgentDone \<longrightarrow> bk_agents s d \<noteq> Some a) \<and>
    (\<forall>i j b a a'. bk_sessions s i = Some (b, a) \<longrightarrow> bk_sessions s j = Some (b, a') \<longrightarrow> i = j \<and> a = a')"
proof -
  have ok: "agents_ok (tables_of s)" "sessions_ok (tables_of s)"
    using broker_reachable_ok [OF assms] by (simp_all add: tables_ok_def)
  show ?thesis
    by (intro conjI allI impI notI)
       (auto dest: ok_agents [OF ok(1)] dest!: ok_sessions [OF ok(2)])
qed

section \<open>One control channel per device\<close>

definition in_control :: "agent_ctl \<Rightarrow> bool" where
  "in_control c \<longleftrightarrow> ac_open c \<and> agent_phase_of (ac_pc c) \<in> {Listing, Serving}"

definition exclusive :: "broker \<Rightarrow> bool" where
  "exclusive s \<longleftrightarrow> (\<forall>a c. bk_actl s a = Some c \<longrightarrow> in_control c \<longrightarrow> bk_agents s (ac_device c) = Some a)"

lemma exclusive_frame:
  assumes "exclusive s" and "bk_agents t = bk_agents s"
    and "\<And>a c'. bk_actl t a = Some c' \<Longrightarrow> in_control c' \<Longrightarrow>
      (\<exists>c. bk_actl s a = Some c \<and> ac_device c = ac_device c' \<and> in_control c)"
  shows "exclusive t"
  using assms unfolding exclusive_def by metis

lemma agent_attach_exclusive: "agent_attach a s = Some t \<Longrightarrow> exclusive s \<Longrightarrow> exclusive t"
  by (fastforce simp: agent_attach_def exclusive_def in_control_def Let_def split: option.splits if_splits)

lemma agent_detach_exclusive: "agent_detach a s = Some t \<Longrightarrow> exclusive s \<Longrightarrow> exclusive t"
  by (fastforce simp: agent_detach_def exclusive_def in_control_def split: option.splits if_splits)

lemma agent_other_exclusive:
  "agent_hello a raw addr pub verdict net s = Some t \<Longrightarrow> exclusive s \<Longrightarrow> exclusive t"
  "agent_add a now s = Some t \<Longrightarrow> exclusive s \<Longrightarrow> exclusive t"
  "agent_confirm a net s = Some t \<Longrightarrow> exclusive s \<Longrightarrow> exclusive t"
  "agent_read_error a s = Some t \<Longrightarrow> exclusive s \<Longrightarrow> exclusive t"
  "agent_remove a s = Some t \<Longrightarrow> exclusive s \<Longrightarrow> exclusive t"
  "agent_forward a net s = Some t \<Longrightarrow> exclusive s \<Longrightarrow> exclusive t"
  by (erule exclusive_frame;
      fastforce simp: agent_hello_def agent_add_def agent_confirm_def agent_read_error_def agent_remove_def
        agent_forward_def in_control_def Let_def split: option.splits if_splits agent_pc.splits)+

lemma agent_frame_exclusive: "agent_frame a raw s = Some t \<Longrightarrow> exclusive s \<Longrightarrow> exclusive t"
  by (erule exclusive_frame)
     (auto simp: agent_frame_def take_session_def in_control_def
       split: option.splits if_splits prod.splits)

lemma browser_exclusive:
  "browser_connect b device authorized s = Some t \<Longrightarrow> exclusive s \<Longrightarrow> exclusive t"
  "browser_lookup b s = Some t \<Longrightarrow> exclusive s \<Longrightarrow> exclusive t"
  "browser_upgrade b upgraded rnd s = Some t \<Longrightarrow> exclusive s \<Longrightarrow> exclusive t"
  "browser_insert b s = Some t \<Longrightarrow> exclusive s \<Longrightarrow> exclusive t"
  "browser_open b net s = Some t \<Longrightarrow> exclusive s \<Longrightarrow> exclusive t"
  "browser_frame b mt d s = Some t \<Longrightarrow> exclusive s \<Longrightarrow> exclusive t"
  "browser_input b net s = Some t \<Longrightarrow> exclusive s \<Longrightarrow> exclusive t"
  "browser_read_error b s = Some t \<Longrightarrow> exclusive s \<Longrightarrow> exclusive t"
  "browser_say_close b net s = Some t \<Longrightarrow> exclusive s \<Longrightarrow> exclusive t"
  "browser_drop b s = Some t \<Longrightarrow> exclusive s \<Longrightarrow> exclusive t"
  by (erule exclusive_frame;
      auto simp: browser_connect_def browser_lookup_def browser_upgrade_def browser_insert_def
        browser_open_def browser_frame_def browser_input_def browser_read_error_def
        browser_say_close_def browser_drop_def take_session_def in_control_def case_prod_beta
        split: option.splits if_splits browser_pc.splits)+

lemma broker_step_exclusive: "broker_step e s = Some t \<Longrightarrow> exclusive s \<Longrightarrow> exclusive t"
  by (cases e)
     (auto intro: agent_attach_exclusive agent_detach_exclusive agent_other_exclusive
        agent_frame_exclusive browser_exclusive)

interpretation control: machine broker_step exclusive
  by unfold_locales (rule broker_step_exclusive)

text \<open>
  C17. One control channel per device: in every reachable state, two agent handlers whose
  connections are open and that have attached and not yet detached serve different devices,
  so a re-attaching agent replaces its stale attachment and never runs beside it.
\<close>

theorem one_channel_per_device:
  assumes "runs broker_step (broker_new cloud) es s"
    and "bk_actl s a = Some c" and "in_control c"
    and "bk_actl s a' = Some c'" and "in_control c'" and "ac_device c = ac_device c'"
  shows "a = a'"
proof -
  have "exclusive (broker_new cloud)" by (simp add: exclusive_def broker_new_def)
  then have "exclusive s" by (rule control.ok_runs [OF assms(1)])
  then show ?thesis using assms(2-6) unfolding exclusive_def by (metis option.inject)
qed

section \<open>Where the tables disagree\<close>

text \<open>
  C30. A stale handler unlists the device of its successor: when an agent has re-attached as
  the device \<open>d\<close>, the old handler's exit leaves the new attachment in the agents table, and
  takes \<open>d\<close> out of the registry, so the device is connectable and not listed.
\<close>

theorem stale_handler_unlists_device:
  assumes "bk_actl s a = Some c" and "ac_pc c = ReadPc" and "bk_agents s (ac_device c) = Some a'"
    and "a' \<noteq> a"
  shows "\<exists>t. exec broker_step [AReadErr a, ADetach a, ARemove a] s = Some t \<and>
    bk_agents t (ac_device c) = Some a' \<and> bk_actl t a' = bk_actl s a' \<and>
    reg_get (bk_reg t) (ac_device c) = None"
  using assms
  by (simp add: agent_read_error_def agent_detach_def agent_remove_def reg_get_def reg_remove_def)

definition demo_register :: msg where
  "demo_register = zero_msg\<lparr>msg_type := type_register, msg_device := ''dev'', msg_token := ''tok''\<rparr>"

lemma demo_hello [simp]: "hello_msg (marshal_msg demo_register) = Some demo_register"
proof -
  have "wf_msg demo_register"
    by (simp add: wf_msg_def demo_register_def zero_msg_def msg_types ccode_def)
  then show ?thesis
    by (simp add: hello_msg_def unmarshal_marshal) (simp add: demo_register_def)
qed

definition demo_attach :: "nat \<Rightarrow> broker_event list" where
  "demo_attach a = [AHello a (marshal_msg demo_register) ''addr'' ''key'' True True, AAttach a, AAdd a 0,
     AConfirm a True]"

text \<open>Two attachments of one device, one after the other, and the state after them.\<close>

lemma demo_attached:
  "\<exists>s. exec broker_step (demo_attach 0 @ demo_attach 1) (broker_new ''cloud'') = Some s \<and>
     bk_agents s ''dev'' = Some 1 \<and> bk_sessions s = Map.empty \<and> bk_bctl s = Map.empty \<and>
     (\<exists>c. bk_actl s 0 = Some c \<and> ac_pc c = ReadPc \<and> ac_device c = ''dev'' \<and> \<not> ac_open c) \<and>
     (\<exists>c. bk_actl s 1 = Some c \<and> ac_pc c = ReadPc \<and> ac_device c = ''dev'' \<and> ac_open c)"
  by (simp add: demo_attach_def agent_hello_def agent_attach_def agent_add_def agent_confirm_def
      broker_new_def Let_def) (simp add: demo_register_def)

theorem stale_handler_unlists_device_witness:
  "\<exists>t. exec broker_step (demo_attach 0 @ demo_attach 1 @ [AReadErr 0, ADetach 0, ARemove 0])
      (broker_new ''cloud'') = Some t \<and>
     bk_agents t ''dev'' = Some 1 \<and> reg_get (bk_reg t) ''dev'' = None"
proof -
  obtain s c where s: "exec broker_step (demo_attach 0 @ demo_attach 1) (broker_new ''cloud'') = Some s"
      "bk_agents s ''dev'' = Some 1" "bk_actl s 0 = Some c" "ac_pc c = ReadPc" "ac_device c = ''dev''"
    using demo_attached by blast
  then obtain t where "exec broker_step [AReadErr 0, ADetach 0, ARemove 0] s = Some t"
      "bk_agents t ''dev'' = Some 1" "reg_get (bk_reg t) ''dev'' = None"
    using stale_handler_unlists_device [of s 0 c 1] by auto
  then have "exec broker_step ((demo_attach 0 @ demo_attach 1) @ [AReadErr 0, ADetach 0, ARemove 0])
      (broker_new ''cloud'') = Some t"
    by (subst exec_append) (simp only: s(1) option.case)
  then show ?thesis using \<open>bk_agents t ''dev'' = Some 1\<close> \<open>reg_get (bk_reg t) ''dev'' = None\<close> by auto
qed

lemma demo_reached:
  "\<exists>s. runs broker_step (broker_new ''cloud'') (demo_attach 0 @ demo_attach 1) s \<and>
     bk_agents s ''dev'' = Some 1 \<and>
     (\<exists>c. bk_actl s 1 = Some c \<and> in_control c \<and> ac_device c = ''dev'')"
  using demo_attached by (fastforce simp: runs_exec in_control_def)

theorem broker_refines_protocol_witness:
  "\<exists>s :: broker. bk_agents s ''dev'' = Some 1 \<and>
     proto\<^sup>*\<^sup>* \<lparr>tb_agents = Map.empty, tb_sessions = Map.empty, tb_listed = {},
       tb_a = Map.empty, tb_b = Map.empty\<rparr> (tables_of s)"
  using demo_reached broker_refines_protocol by blast

theorem broker_tables_agree_witness:
  "\<exists>(s :: broker) c. bk_agents s ''dev'' = Some 1 \<and> bk_actl s 1 = Some c \<and> ac_device c = ''dev'' \<and>
     agent_phase_of (ac_pc c) \<in> {Listing, Serving}"
proof -
  obtain s where s: "runs broker_step (broker_new ''cloud'') (demo_attach 0 @ demo_attach 1) s"
      "bk_agents s ''dev'' = Some 1"
    using demo_reached by blast
  from broker_tables_agree [OF s(1), THEN conjunct1] s(2) show ?thesis by blast
qed

theorem broker_no_leak_witness:
  "\<exists>s :: broker. bk_agents s ''dev'' = Some 1 \<and> (\<forall>c. bk_actl s 1 = Some c \<longrightarrow> ac_pc c \<noteq> AgentDone)"
proof -
  obtain s where s: "runs broker_step (broker_new ''cloud'') (demo_attach 0 @ demo_attach 1) s"
      "bk_agents s ''dev'' = Some 1"
    using demo_reached by blast
  from broker_no_leak [OF s(1)] s(2) show ?thesis by blast
qed

theorem one_channel_per_device_witness:
  "\<exists>s. runs broker_step (broker_new ''cloud'') (demo_attach 0 @ demo_attach 1) s \<and>
     (\<forall>a c. bk_actl s a = Some c \<and> in_control c \<and> ac_device c = ''dev'' \<longrightarrow> a = 1)"
proof -
  obtain s c where s: "runs broker_step (broker_new ''cloud'') (demo_attach 0 @ demo_attach 1) s"
      "bk_actl s 1 = Some c" "in_control c" "ac_device c = ''dev''"
    using demo_reached by blast
  have "a = 1" if "bk_actl s a = Some c'" "in_control c'" "ac_device c' = ''dev''" for a c'
    using one_channel_per_device [OF s(1) that(1,2) s(2,3)] s(4) that(3) by simp
  then show ?thesis using s(1) by blast
qed

end
