(* ===== verification/BrokerFlow.thy ===== *)
theory BrokerFlow
  imports BrokerFacts
begin

text \<open>
  What flows from the browsers: along every run, a bridged agent has been sent exactly
  the keystrokes of its browser, in order. The frames are read off the events of the run.
\<close>

section \<open>Who moves\<close>

text \<open>The browser handler that an event moves, if it is one, and the one that writes to an agent.\<close>

fun mover :: "broker_event \<Rightarrow> nat option" where
  "mover (BConnect b device authorized) = Some b"
| "mover (BLookup b) = Some b"
| "mover (BUpgrade b upgraded rnd) = Some b"
| "mover (BInsert b) = Some b"
| "mover (BOpen b net) = Some b"
| "mover (BFrame b mt d) = Some b"
| "mover (BInput b net) = Some b"
| "mover (BReadErr b) = Some b"
| "mover (BSayClose b net) = Some b"
| "mover (BDrop b) = Some b"
| "mover _ = None"

definition bview :: "browser_ctl \<Rightarrow> string \<times> nat \<times> string \<times> browser_pc" where
  "bview c = (bc_device c, bc_agent c, bc_session c, bc_pc c)"

lemma bview_frame [simp]:
  "map_option bview (map_option (bc_open_update h) y) = map_option bview y"
  "map_option bview (map_option (\<lambda>c. if Q c then c\<lparr>bc_out := k c\<rparr> else c) y) = map_option bview y"
  by (cases y; simp add: bview_def)+

lemma mover_other:
  assumes "broker_step e s = Some t" and "mover e \<noteq> Some b"
  shows "map_option bview (bk_bctl t b) = map_option bview (bk_bctl s b)"
  using assms
  by (cases e;
      force simp: agent_segments browser_segments take_session_def case_prod_beta Let_def
        split: option.splits if_splits agent_pc.splits browser_pc.splits)

section \<open>From the browser to the agent\<close>

text \<open>What has been written to an agent for the session \<open>i\<close>, and what a browser has typed.\<close>

definition sent :: "string \<Rightarrow> broker \<Rightarrow> nat \<Rightarrow> msg list" where
  "sent i s a = (case bk_actl s a of None \<Rightarrow> []
     | Some c \<Rightarrow> List.filter (\<lambda>m. msg_session m = i) (ac_out c))"

fun input_of :: "nat \<Rightarrow> broker_event \<Rightarrow> bytes list" where
  "input_of b (BFrame b' mt d) = (if b' = b \<and> (mt = 1 \<or> mt = 2) then [d] else [])"
| "input_of b _ = []"

definition inputs :: "nat \<Rightarrow> broker_event list \<Rightarrow> bytes list" where
  "inputs b es = concat (map (input_of b) es)"

lemma inputs_snoc [simp]: "inputs b (es @ [e]) = inputs b es @ input_of b e"
  by (simp add: inputs_def)

lemma input_of_other: "mover e \<noteq> Some b \<Longrightarrow> input_of b e = []"
  by (cases e) auto

text \<open>Only the browser handler that moves writes to an agent about its session.\<close>

lemma msg_session_simps [simp]:
  "msg_session error_msg = []" "msg_session (zero_msg\<lparr>msg_type := ty\<rparr>) = []"
  "msg_session (session_msg ty i d) = i"
  by (simp_all add: error_msg_def zero_msg_def session_msg_def)

lemma sent_other:
  assumes "broker_step e s = Some t" and "i \<noteq> []"
    and "\<And>b c. mover e = Some b \<Longrightarrow> bk_bctl s b = Some c \<Longrightarrow> bc_session c \<noteq> i"
  shows "sent i t = sent i s"
  using assms
  by (cases e;
      force simp: fun_eq_iff agent_segments browser_segments sent_def take_session_def case_prod_beta Let_def
        split: option.splits if_splits agent_pc.splits browser_pc.splits)

text \<open>The id \<open>i\<close> was drawn for the browser handler \<open>b\<close> only.\<close>

definition drawn_for :: "nat \<Rightarrow> string \<Rightarrow> broker_event list \<Rightarrow> bool" where
  "drawn_for b i es \<longleftrightarrow> (\<forall>b' rnd. BUpgrade b' True rnd \<in> set es \<longrightarrow> new_id rnd = i \<longrightarrow> b' = b)"

lemma session_step:
  assumes "broker_step e s = Some t" and "bk_bctl t b = Some c'" and "bc_session c' \<noteq> []"
  shows "(\<exists>c. bk_bctl s b = Some c \<and> bc_session c = bc_session c') \<or>
    (\<exists>rnd. e = BUpgrade b True rnd \<and> bc_session c' = new_id rnd)"
  using assms
  by (cases e;
      force simp: agent_segments browser_segments take_session_def case_prod_beta Let_def
        split: option.splits if_splits agent_pc.splits browser_pc.splits)

lemma session_owner:
  assumes "runs broker_step (broker_new cloud) es s" and "drawn_for b i es" and "i \<noteq> []"
    and "bk_bctl s b' = Some c" and "bc_session c = i"
  shows "b' = b"
proof -
  have "runs broker_step s0 es s \<Longrightarrow> s0 = broker_new cloud \<Longrightarrow> drawn_for b i es \<Longrightarrow>
      bk_bctl s b' = Some c \<Longrightarrow> bc_session c = i \<Longrightarrow> b' = b" for s0
  proof (induction arbitrary: c rule: runs.induct)
    case (runs_more s es t e u)
    have "bc_session c \<noteq> []" using runs_more.prems(4) assms(3) by simp
    from session_step [OF runs_more.hyps(2) runs_more.prems(3) this]
    show ?case
    proof (elim disjE exE conjE)
      fix c' assume "bk_bctl t b' = Some c'" "bc_session c' = bc_session c"
      then show ?thesis using runs_more by (simp add: drawn_for_def)
    next
      fix rnd assume "e = BUpgrade b' True rnd" "bc_session c = new_id rnd"
      then show ?thesis using runs_more.prems by (auto simp: drawn_for_def)
    qed
  qed (simp add: broker_new_def)
  then show ?thesis using assms by blast
qed

text \<open>
  The progress of one bridge: before it is open nothing has been sent; while the browser is
  read, the agent has been sent the opening and all input; with one more frame in hand, all
  but that frame.
\<close>

definition opened :: "nat \<Rightarrow> string \<Rightarrow> bytes list \<Rightarrow> nat \<Rightarrow> msg list" where
  "opened a0 i xs = (\<lambda>_. [])(a0 := session_msg type_open i [] # map (session_msg type_input i) xs)"

definition bridge_inv :: "nat \<Rightarrow> string \<Rightarrow> broker_event list \<Rightarrow> broker \<Rightarrow> bool" where
  "bridge_inv b i es s \<longleftrightarrow>
     (case bk_bctl s b of
        None \<Rightarrow> inputs b es = [] \<and> sent i s = (\<lambda>_. [])
      | Some c \<Rightarrow>
          (case bc_pc c of
             BrowsePc \<Rightarrow> bc_session c = i \<longrightarrow> sent i s = opened (bc_agent c) i (inputs b es)
           | InputPc d \<Rightarrow> bc_session c = i \<longrightarrow>
               (\<exists>xs. inputs b es = xs @ [d] \<and> sent i s = opened (bc_agent c) i xs)
           | SayClosePc \<Rightarrow> True
           | DropPc \<Rightarrow> True
           | BHangupPc _ \<Rightarrow> True
           | BrowserDone \<Rightarrow> True
           | _ \<Rightarrow> inputs b es = [] \<and> sent i s = (\<lambda>_. [])))"

lemma bridge_inv_other:
  assumes "bridge_inv b i es s" and "map_option bview (bk_bctl t b) = map_option bview (bk_bctl s b)"
    and "sent i t = sent i s" and "input_of b e = []"
  shows "bridge_inv b i (es @ [e]) t"
proof (cases "bk_bctl s b")
  case None
  then show ?thesis using assms by (simp add: bridge_inv_def)
next
  case (Some c)
  then obtain c' where "bk_bctl t b = Some c'" "bview c' = bview c" using assms(2) by auto
  then show ?thesis
    using assms Some by (cases "bc_pc c") (simp_all add: bridge_inv_def bview_def)
qed

lemma sent_bctl [simp]:
  "sent i (set_bctl b c s) = sent i s" "sent i (browser_goto b q s) = sent i s"
  "sent i (close_browser b s) = sent i s" "sent i (s\<lparr>bk_sessions := m\<rparr>) = sent i s"
  by (simp_all add: sent_def fun_eq_iff)

lemma sent_send_agent:
  "send_agent net a m s = (t, ok) \<Longrightarrow> msg_session m = i \<Longrightarrow>
   sent i t = (if ok then (sent i s)(a := sent i s a @ [m]) else sent i s)"
  by (auto simp: send_agent_def sent_def fun_eq_iff split: option.splits if_splits)

text \<open>Each event of the browser handler keeps the progress invariant.\<close>

lemma browser_early_bridge:
  "bridge_inv b i es s \<Longrightarrow> browser_connect b device authorized s = Some t \<Longrightarrow> bridge_inv b i (es @ [BConnect b device authorized]) t"
  "bridge_inv b i es s \<Longrightarrow> browser_lookup b s = Some t \<Longrightarrow> bridge_inv b i (es @ [BLookup b]) t"
  "bridge_inv b i es s \<Longrightarrow> browser_upgrade b upgraded rnd s = Some t \<Longrightarrow> bridge_inv b i (es @ [BUpgrade b upgraded rnd]) t"
  "bridge_inv b i es s \<Longrightarrow> browser_insert b s = Some t \<Longrightarrow> bridge_inv b i (es @ [BInsert b]) t"
  by (auto simp: bridge_inv_def browser_connect_def browser_lookup_def browser_upgrade_def browser_insert_def
        split: option.splits if_splits)

lemma browser_open_bridge:
  "bridge_inv b i es s \<Longrightarrow> browser_open b net s = Some t \<Longrightarrow> bridge_inv b i (es @ [BOpen b net]) t"
  by (auto simp: bridge_inv_def browser_open_def send_agentD sent_send_agent opened_def
        split: option.splits if_splits prod.splits)

lemma browser_frame_bridge:
  "bridge_inv b i es s \<Longrightarrow> browser_frame b mt d s = Some t \<Longrightarrow> bridge_inv b i (es @ [BFrame b mt d]) t"
  by (auto simp: bridge_inv_def browser_frame_def split: option.splits if_splits)

lemma browser_input_bridge:
  assumes "bridge_inv b i es s" and "browser_input b net s = Some t"
  shows "bridge_inv b i (es @ [BInput b net]) t"
proof -
  obtain c d where c: "bk_bctl s b = Some c" "bc_pc c = InputPc d"
    using assms(2) by (auto simp: browser_input_def split: option.splits browser_pc.splits)
  obtain s' ok where s': "send_agent net (bc_agent c) (session_msg type_input (bc_session c) d) s = (s', ok)"
    by fastforce
  show ?thesis
    using assms c s' sent_send_agent [OF s']
    by (auto simp: bridge_inv_def browser_input_def send_agentD [OF s'] opened_def)
qed

lemma browser_late_bridge:
  "browser_read_error b s = Some t \<Longrightarrow> bridge_inv b i (es @ [BReadErr b]) t"
  "browser_say_close b net s = Some t \<Longrightarrow> bridge_inv b i (es @ [BSayClose b net]) t"
  by (auto simp: bridge_inv_def browser_read_error_def browser_say_close_def
        split: option.splits if_splits)

lemma browser_drop_bridge:
  assumes "browser_drop b s = Some t"
  shows "bridge_inv b i (es @ [BDrop b]) t"
proof -
  have "\<exists>c. bk_bctl t b = Some c \<and> (bc_pc c = BrowserDone \<or> (\<exists>b'. bc_pc c = BHangupPc b'))"
    using assms by (auto simp: browser_drop_def take_session_def split: option.splits browser_pc.splits)
  then show ?thesis by (auto simp: bridge_inv_def)
qed

lemma bridge_inv_mover:
  assumes "bridge_inv b i es s" and "broker_step e s = Some t" and "mover e = Some b"
  shows "bridge_inv b i (es @ [e]) t"
  using assms
  by (cases e)
     (auto intro: browser_early_bridge browser_open_bridge browser_frame_bridge browser_input_bridge
        browser_late_bridge browser_drop_bridge)

lemma bridge_inv_runs:
  assumes "runs broker_step (broker_new cloud) es s" and "drawn_for b i es" and "i \<noteq> []"
  shows "bridge_inv b i es s"
proof -
  have "runs broker_step s0 es s \<Longrightarrow> s0 = broker_new cloud \<Longrightarrow> drawn_for b i es \<Longrightarrow> bridge_inv b i es s" for s0
  proof (induction rule: runs.induct)
    case (runs_none s)
    then show ?case by (simp add: bridge_inv_def broker_new_def inputs_def sent_def [abs_def])
  next
    case (runs_more s es t e u)
    then have run: "runs broker_step (broker_new cloud) es t" and drawn: "drawn_for b i es"
      and inv: "bridge_inv b i es t"
      by (simp_all add: drawn_for_def)
    show ?case
    proof (cases "mover e = Some b")
      case True
      then show ?thesis using bridge_inv_mover [OF inv runs_more.hyps(2)] by simp
    next
      case False
      have "sent i u = sent i t"
        using sent_other [OF runs_more.hyps(2) assms(3)] session_owner [OF run drawn assms(3)] False by blast
      then show ?thesis
        using bridge_inv_other [OF inv mover_other [OF runs_more.hyps(2) False]] input_of_other [OF False]
        by blast
    qed
  qed
  then show ?thesis using assms by blast
qed

text \<open>
  Keystrokes: in every reachable state, while a browser's bridge is up (its id drawn only
  for it), the agent it asked for has been sent, for this session, exactly the opening and
  then every text or binary frame of the browser, in order and unchanged, and no other
  agent has been sent anything for the session.
\<close>

theorem input_flow:
  assumes "runs broker_step (broker_new cloud) es s" and "bk_bctl s b = Some c" and "bc_pc c = BrowsePc"
    and "drawn_for b (bc_session c) es" and "bc_session c \<noteq> []"
  shows "(\<exists>ca. bk_actl s (bc_agent c) = Some ca \<and> ac_device ca = bc_device c) \<and>
    (\<forall>a. sent (bc_session c) s a = (if a = bc_agent c
       then session_msg type_open (bc_session c) [] # map (session_msg type_input (bc_session c)) (inputs b es)
       else []))"
proof -
  have "routes_ok (tables_of s)"
    using broker_reachable_ok [OF assms(1)] by (simp add: tables_ok_def)
  from ok_routes [OF this assms(2)] assms(3)
  have "\<exists>ca. bk_actl s (bc_agent c) = Some ca \<and> ac_device ca = bc_device c" by simp
  moreover have "bridge_inv b (bc_session c) es s"
    by (rule bridge_inv_runs [OF assms(1,4,5)])
  ultimately show ?thesis using assms(2,3) by (simp add: bridge_inv_def opened_def)
qed

end
