(* ===== verification/BrokerOutput.thy ===== *)
theory BrokerOutput
  imports BrokerFlow
begin

text \<open>
  The other direction: a browser is sent only output that was addressed to its session, in
  the order in which its agent sent it; and what the coordinator does not check.
\<close>

section \<open>From the agent to the browser\<close>

text \<open>
  The forwarding an agent handler is about to make, what a browser has been sent, and the
  session of a browser handler that has been bridged.
\<close>

definition writing :: "broker \<Rightarrow> nat \<Rightarrow> (nat \<times> bytes) option" where
  "writing s a = (case bk_actl s a of None \<Rightarrow> None
     | Some c \<Rightarrow> (case ac_pc c of WritePc b d \<Rightarrow> Some (b, d) | _ \<Rightarrow> None))"

definition bout :: "broker \<Rightarrow> nat \<Rightarrow> bytes list" where
  "bout s b = (case bk_bctl s b of None \<Rightarrow> [] | Some c \<Rightarrow> bc_out c)"

definition live :: "broker \<Rightarrow> nat \<Rightarrow> string option" where
  "live s b = (case bk_bctl s b of None \<Rightarrow> None
     | Some c \<Rightarrow> if browser_phase_of (bc_pc c) \<in> {Bridged, BGone} then Some (bc_session c) else None)"

text \<open>The output frames of a run that carry the session id \<open>i\<close>.\<close>

fun output_of :: "string \<Rightarrow> broker_event \<Rightarrow> bytes list" where
  "output_of i (AFrame a raw) =
     (case unmarshal_msg raw of (m, ok) \<Rightarrow>
        if ok \<and> msg_type m = type_output \<and> msg_session m = i then [msg_data m] else [])"
| "output_of i _ = []"

definition outputs :: "string \<Rightarrow> broker_event list \<Rightarrow> bytes list" where
  "outputs i es = concat (map (output_of i) es)"

lemma outputs_snoc [simp]: "outputs i (es @ [e]) = outputs i es @ output_of i e"
  by (simp add: outputs_def)

lemma late_step:
  assumes "broker_step e s = Some t" and "bk_bctl s b = Some c" and "mover e = Some b"
    and "browser_phase_of (bc_pc c) \<in> {Bridged, BGone}"
  shows "\<exists>c'. bk_bctl t b = Some c' \<and> bc_session c' = bc_session c \<and>
    browser_phase_of (bc_pc c') \<in> {Bridged, BGone}"
proof (cases e)
  case (BDrop b')
  then show ?thesis
    using assms by (auto simp: browser_drop_def take_session_def split: option.splits browser_pc.splits)
next
  case (BInput b' net)
  then show ?thesis
    using assms by (auto simp: browser_input_def case_prod_beta split: browser_pc.splits)
qed (use assms in \<open>auto simp: browser_segments case_prod_beta split: if_splits\<close>)

lemma live_step:
  assumes "broker_step e s = Some t" and "live s b = Some j"
  shows "live t b = Some j"
proof -
  obtain c where c: "bk_bctl s b = Some c" "bc_session c = j" "browser_phase_of (bc_pc c) \<in> {Bridged, BGone}"
    using assms(2) by (auto simp: live_def split: option.splits if_splits)
  show ?thesis
  proof (cases "mover e = Some b")
    case False
    from mover_other [OF assms(1) this] c obtain c' where "bk_bctl t b = Some c'" "bview c' = bview c" by auto
    then show ?thesis using c by (simp add: live_def bview_def)
  next
    case True
    have "\<exists>c'. bk_bctl t b = Some c' \<and> bc_session c' = bc_session c \<and>
        browser_phase_of (bc_pc c') \<in> {Bridged, BGone}"
      using late_step [OF _ c(1)] assms(1) True c(3) by blast
    then show ?thesis using c(2) by (auto simp: live_def)
  qed
qed

lemma live_bview: "map_option bview (bk_bctl t b) = map_option bview (bk_bctl s b) \<Longrightarrow> live t b = live s b"
  by (cases "bk_bctl t b"; cases "bk_bctl s b") (simp_all add: live_def bview_def)

lemma live_agent: "mover e = None \<Longrightarrow> broker_step e s = Some t \<Longrightarrow> live t = live s"
  using live_bview mover_other by (metis ext option.distinct(1))

lemma writing_frame [simp]:
  "writing (set_bctl b c s) = writing s" "writing (browser_goto b q s) = writing s"
  "writing (close_browser b s) = writing s" "writing (s\<lparr>bk_sessions := m\<rparr>) = writing s"
  "writing (s\<lparr>bk_agents := g\<rparr>) = writing s" "writing (s\<lparr>bk_reg := r\<rparr>) = writing s"
  "writing (write_browser net b d s) = writing s"
  by (simp_all add: writing_def fun_eq_iff)

lemma writing_agent [simp]:
  "writing (agent_goto a pc s) = (writing s)(a := (case pc of WritePc b d \<Rightarrow>
     if bk_actl s a = None then None else Some (b, d) | _ \<Rightarrow> None))"
  "writing (close_agent a s) = writing s"
  "writing (fst (send_agent net a m s)) = writing s"
  by (auto simp: writing_def fun_eq_iff split: option.split agent_pc.split)

lemma bout_frame [simp]:
  "bout (set_actl a c s) = bout s" "bout (agent_goto a pc s) = bout s" "bout (close_agent a s) = bout s"
  "bout (fst (send_agent net a m s)) = bout s" "bout (browser_goto b q s) = bout s"
  "bout (close_browser b s) = bout s" "bout (s\<lparr>bk_sessions := n\<rparr>) = bout s"
  "bout (s\<lparr>bk_agents := g\<rparr>) = bout s" "bout (s\<lparr>bk_reg := r\<rparr>) = bout s"
  by (auto simp: bout_def fun_eq_iff split: option.split)

lemma writing_at [simp]:
  "bk_actl s a = Some c \<Longrightarrow> writing s a = (case ac_pc c of WritePc b d \<Rightarrow> Some (b, d) | _ \<Rightarrow> None)"
  "bk_actl s a = None \<Longrightarrow> writing s a = None"
  by (simp_all add: writing_def)

lemma writing_set [simp]: "ac_pc c = AgentDone \<or> ac_pc c = AttachPc \<Longrightarrow>
    writing (set_actl a c s) = (writing s)(a := None)"
  by (auto simp: writing_def fun_eq_iff)

lemma writing_same: "writing s a = None \<Longrightarrow> (writing s)(a := None) = writing s"
  by (simp add: fun_eq_iff)

lemma bout_write:
  "bout (write_browser net b d s) = bout s \<or>
   bout (write_browser net b d s) = (bout s)(b := bout s b @ [d])"
  by (auto simp: write_browser_def bout_def fun_eq_iff split: option.splits)

lemma agent_flow:
  "agent_hello a raw addr pub verdict net s = Some t \<Longrightarrow> writing t = writing s \<and> bout t = bout s"
  "agent_attach a s = Some t \<Longrightarrow> writing t = writing s \<and> bout t = bout s"
  "agent_add a now s = Some t \<Longrightarrow> writing t = writing s \<and> bout t = bout s"
  "agent_confirm a net s = Some t \<Longrightarrow> writing t = writing s \<and> bout t = bout s"
  "agent_read_error a s = Some t \<Longrightarrow> writing t = writing s \<and> bout t = bout s"
  "agent_detach a s = Some t \<Longrightarrow> writing t = writing s \<and> bout t = bout s"
  "agent_remove a s = Some t \<Longrightarrow> writing t = writing s \<and> bout t = bout s"
  by (auto simp: agent_hello_def agent_attach_def agent_add_def agent_confirm_def agent_read_error_def
        agent_detach_def agent_remove_def Let_def writing_same split: option.splits if_splits)

lemma browser_flow:
  "browser_connect b device authorized s = Some t \<Longrightarrow> writing t = writing s \<and> bout t = bout s"
  "browser_lookup b s = Some t \<Longrightarrow> writing t = writing s \<and> bout t = bout s"
  "browser_upgrade b upgraded rnd s = Some t \<Longrightarrow> writing t = writing s \<and> bout t = bout s"
  by (auto simp: browser_connect_def browser_lookup_def browser_upgrade_def bout_def fun_eq_iff
        split: option.splits if_splits)

lemma browser_talk_flow:
  "browser_insert b s = Some t \<Longrightarrow> writing t = writing s \<and> bout t = bout s"
  "browser_open b net s = Some t \<Longrightarrow> writing t = writing s \<and> bout t = bout s"
  "browser_frame b mt d s = Some t \<Longrightarrow> writing t = writing s \<and> bout t = bout s"
  "browser_input b net s = Some t \<Longrightarrow> writing t = writing s \<and> bout t = bout s"
  "browser_read_error b s = Some t \<Longrightarrow> writing t = writing s \<and> bout t = bout s"
  "browser_say_close b net s = Some t \<Longrightarrow> writing t = writing s \<and> bout t = bout s"
  "browser_drop b s = Some t \<Longrightarrow> writing t = writing s \<and> bout t = bout s"
  by (auto simp: browser_insert_def browser_open_def browser_frame_def browser_input_def
        browser_read_error_def browser_say_close_def browser_drop_def take_session_def case_prod_beta
        split: option.splits if_splits browser_pc.splits)

lemma frame_flow:
  assumes "agent_frame a raw s = Some t"
  shows "bout t = bout s \<and> writing s a = None \<and>
    (writing t = writing s \<or>
     (\<exists>m b a'. unmarshal_msg raw = (m, True) \<and> msg_type m = type_output \<and>
        bk_sessions s (msg_session m) = Some (b, a') \<and> writing t = (writing s)(a \<mapsto> (b, msg_data m))))"
  using assms
  by (auto simp: agent_frame_def take_session_def writing_same
        split: option.splits if_splits prod.splits)

lemma forward_flow:
  assumes "agent_forward a net s = Some t"
  shows "writing t = (writing s)(a := None) \<and>
    (bout t = bout s \<or> (\<exists>b d. writing s a = Some (b, d) \<and> bout t = (bout s)(b := bout s b @ [d])))"
proof -
  obtain c where c: "bk_actl s a = Some c"
    using assms by (auto simp: agent_forward_def split: option.splits)
  show ?thesis
  proof (cases "ac_pc c")
    case (WritePc b d)
    then show ?thesis using assms c bout_write [of net b d s] by (auto simp: agent_forward_def)
  qed (use assms c in \<open>auto simp: agent_forward_def\<close>)
qed

section \<open>The order of the output\<close>

text \<open>
  While the frames for the session \<open>i\<close> come from one agent: what the bridged browser was
  sent, and the frame its agent's handler has in hand, are in the order of the frames.
\<close>

definition in_hand :: "broker \<Rightarrow> nat \<Rightarrow> nat \<Rightarrow> bytes list" where
  "in_hand s a b = (case writing s a of Some (b', d) \<Rightarrow> if b' = b then [d] else [] | None \<Rightarrow> [])"

definition only_from :: "nat \<Rightarrow> string \<Rightarrow> broker_event list \<Rightarrow> bool" where
  "only_from a0 i es \<longleftrightarrow> (\<forall>a raw. AFrame a raw \<in> set es \<longrightarrow> output_of i (AFrame a raw) \<noteq> [] \<longrightarrow> a = a0)"

definition output_inv :: "nat \<Rightarrow> string \<Rightarrow> broker_event list \<Rightarrow> broker \<Rightarrow> bool" where
  "output_inv a0 i es s \<longleftrightarrow>
     (\<forall>a b d. writing s a = Some (b, d) \<longrightarrow> (\<exists>j. live s b = Some j \<and> (j = i \<longrightarrow> a = a0))) \<and>
     (\<forall>b. bout s b \<noteq> [] \<longrightarrow> live s b \<noteq> None) \<and>
     (\<forall>b. live s b = Some i \<longrightarrow> subseq (bout s b @ in_hand s a0 b) (outputs i es))"

lemma output_invD:
  "output_inv a0 i es s \<Longrightarrow> live s b = Some i \<Longrightarrow> subseq (bout s b @ in_hand s a0 b) (outputs i es)"
  by (simp only: output_inv_def)

lemma output_inv_same:
  assumes "output_inv a0 i es s" and "writing t = writing s" and "bout t = bout s"
    and "\<And>b j. live s b = Some j \<Longrightarrow> live t b = Some j"
  shows "output_inv a0 i (es @ [e]) t"
proof -
  have "subseq (bout t b @ in_hand t a0 b) (outputs i es @ output_of i e)" if "live t b = Some i" for b
  proof (cases "live s b")
    case None
    then have "bout s b = []" "\<forall>d. writing s a0 \<noteq> Some (b, d)"
      using assms(1) unfolding output_inv_def by fastforce+
    then have "bout s b = []" "in_hand s a0 b = []"
      by (auto simp: in_hand_def split: option.split)
    then show ?thesis by (simp add: assms(2,3) in_hand_def)
  next
    case (Some j)
    then have "subseq (bout s b @ in_hand s a0 b) (outputs i es)"
      using assms(1,4) that by (simp add: output_inv_def)
    then show ?thesis unfolding in_hand_def assms(2,3) by (rule list_emb_prefix)
  qed
  moreover have "\<exists>j. live t b = Some j \<and> (j = i \<longrightarrow> a = a0)" if "writing t a = Some (b, d)" for a b d
    using assms(1,4) that unfolding output_inv_def assms(2) by blast
  moreover have "live t b \<noteq> None" if "bout t b \<noteq> []" for b
    using assms(1,4) that unfolding output_inv_def assms(3) by (metis not_Some_eq)
  ultimately show ?thesis by (simp add: output_inv_def)
qed

lemma output_inv_frame:
  assumes inv: "output_inv a0 i es s" and step: "agent_frame a raw s = Some t"
    and ok: "sessions_ok (tables_of s)" and only: "only_from a0 i (es @ [AFrame a raw])"
  shows "output_inv a0 i (es @ [AFrame a raw]) t"
proof -
  have live: "live t = live s"
    using live_agent [of "AFrame a raw" s t] step by simp
  note flow = frame_flow [OF step]
  show ?thesis
  proof (cases "writing t = writing s")
    case True
    then show ?thesis using output_inv_same [OF inv True] flow live by simp
  next
    case False
    then obtain m b a' where m: "unmarshal_msg raw = (m, True)" "msg_type m = type_output"
        "bk_sessions s (msg_session m) = Some (b, a')" "writing t = (writing s)(a \<mapsto> (b, msg_data m))"
      using flow by blast
    have b: "live s b = Some (msg_session m)"
      using ok_sessions [OF ok m(3)] by (auto simp: live_def)
    have out: "output_of j (AFrame a raw) = (if msg_session m = j then [msg_data m] else [])" for j
      using m by simp
    have a: "msg_session m = i \<Longrightarrow> a = a0"
      using only out by (simp add: only_from_def)
    have "subseq (bout t b' @ in_hand t a0 b') (outputs i es @ output_of i (AFrame a raw))"
      if b': "live t b' = Some i" for b'
    proof (cases "b' = b \<and> msg_session m = i")
      case True
      then have "in_hand s a0 b = []" "in_hand t a0 b = [msg_data m]"
        using flow a m(4) by (auto simp: in_hand_def)
      moreover have "subseq (bout s b @ in_hand s a0 b) (outputs i es)"
        using inv b True by (simp add: output_inv_def)
      ultimately show ?thesis
        using flow True out by (simp add: list_emb_append_mono)
    next
      case False
      then have "b' \<noteq> b" using b b' live by auto
      then have "in_hand t a0 b' = [] \<or> in_hand t a0 b' = in_hand s a0 b'"
        using m(4) by (auto simp: in_hand_def)
      moreover have "subseq (bout s b' @ in_hand s a0 b') (outputs i es)"
        using inv b' live by (simp add: output_inv_def)
      then have "subseq (bout s b') (outputs i es)" "subseq (bout s b' @ in_hand s a0 b') (outputs i es)"
        by (auto dest: subseq_appendD)
      ultimately show ?thesis using flow by (auto intro: list_emb_prefix)
    qed
    then show ?thesis
      using inv b a flow m(4) live unfolding output_inv_def by auto
  qed
qed

lemma output_inv_forward:
  assumes inv: "output_inv a0 i es s" and step: "agent_forward a net s = Some t"
  shows "output_inv a0 i (es @ [AForward a net]) t"
proof -
  have live: "live t = live s"
    using live_agent [of "AForward a net" s t] step by simp
  note flow = forward_flow [OF step]
  have "subseq (bout t b @ in_hand t a0 b) (outputs i es)" if "live s b = Some i" for b
  proof -
    have old: "subseq (bout s b @ in_hand s a0 b) (outputs i es)"
      using inv that by (simp add: output_inv_def)
    show ?thesis
    proof (cases "bout t = bout s")
      case True
      have "in_hand t a0 b = [] \<or> in_hand t a0 b = in_hand s a0 b"
        using flow by (auto simp: in_hand_def)
      then show ?thesis using old True by (auto dest: subseq_appendD)
    next
      case False
      then obtain b' d where b': "writing s a = Some (b', d)" "bout t = (bout s)(b' := bout s b' @ [d])"
        using flow by blast
      show ?thesis
      proof (cases "b' = b")
        case True
        then have "a = a0" using inv b' that unfolding output_inv_def by fastforce
        then show ?thesis using old b' flow True by (simp add: in_hand_def)
      next
        case False
        have "in_hand t a0 b = [] \<or> in_hand t a0 b = in_hand s a0 b"
          using flow by (auto simp: in_hand_def)
        then show ?thesis using old b' False by (auto dest: subseq_appendD)
      qed
    qed
  qed
  moreover have "live s b \<noteq> None" if "bout t b \<noteq> []" for b
    using inv flow that unfolding output_inv_def
    by (cases "bout t = bout s") (simp, fastforce split: if_splits)
  moreover have "\<exists>j. live s b = Some j \<and> (j = i \<longrightarrow> c = a0)" if "writing t c = Some (b, d)" for b c d
    using inv flow that unfolding output_inv_def by (auto split: if_splits)
  ultimately show ?thesis by (simp add: output_inv_def live)
qed

lemma other_flow:
  "broker_step e s = Some t \<Longrightarrow> (\<And>a raw. e \<noteq> AFrame a raw) \<Longrightarrow> (\<And>a net. e \<noteq> AForward a net) \<Longrightarrow>
   writing t = writing s \<and> bout t = bout s"
  by (cases e) (auto dest: agent_flow browser_flow browser_talk_flow)

lemma output_inv_step:
  assumes "output_inv a0 i es s" and "broker_step e s = Some t"
    and "sessions_ok (tables_of s)" and "only_from a0 i (es @ [e])"
  shows "output_inv a0 i (es @ [e]) t"
proof -
  consider a raw where "e = AFrame a raw" | a net where "e = AForward a net"
    | "\<And>a raw. e \<noteq> AFrame a raw" "\<And>a net. e \<noteq> AForward a net" by blast
  then show ?thesis
  proof cases
    case 1
    then show ?thesis using output_inv_frame assms by simp
  next
    case 2
    then show ?thesis using output_inv_forward assms by simp
  next
    case 3
    from other_flow [OF assms(2) 3] show ?thesis
      using output_inv_same [OF assms(1)] live_step [OF assms(2)] by blast
  qed
qed

lemma output_inv_runs:
  assumes "runs broker_step (broker_new cloud) es s" and "only_from a0 i es"
  shows "output_inv a0 i es s"
proof -
  have "runs broker_step s0 es s \<Longrightarrow> s0 = broker_new cloud \<Longrightarrow> only_from a0 i es \<Longrightarrow> output_inv a0 i es s" for s0
  proof (induction rule: runs.induct)
    case (runs_none s)
    then show ?case
      by (simp add: output_inv_def writing_def bout_def live_def broker_new_def)
  next
    case (runs_more s es t e u)
    then have run: "runs broker_step (broker_new cloud) es t" and "only_from a0 i es"
      by (simp_all add: only_from_def)
    then show ?case
      using output_inv_step runs_more broker_reachable_ok [OF run] by (simp add: tables_ok_def)
  qed
  then show ?thesis using assms by blast
qed

text \<open>
  Output: in every reachable state, what a browser whose bridge was made has been sent is
  a subsequence of the output frames that carry its session id: nothing is invented,
  changed, repeated or reordered, and nothing comes from a frame for another session. (The
  frames for the session come from one agent; several could overtake each other.)
\<close>

theorem output_flow:
  assumes "runs broker_step (broker_new cloud) es s" and "bk_bctl s b = Some c"
    and "browser_phase_of (bc_pc c) \<in> {Bridged, BGone}" and "only_from a0 (bc_session c) es"
  shows "subseq (bc_out c) (outputs (bc_session c) es)"
proof -
  have "live s b = Some (bc_session c)" "bout s b = bc_out c"
    using assms(2,3) by (simp_all add: live_def bout_def)
  then have "subseq (bc_out c @ in_hand s a0 b) (outputs (bc_session c) es)"
    using output_invD [OF output_inv_runs [OF assms(1,4)], of b] by simp
  then show ?thesis by (rule subseq_appendD)
qed

section \<open>What is not checked\<close>

text \<open>
  C31. The coordinator does not check that a frame comes from the agent of its session: an
  attached agent \<open>a\<close> that names a session of another agent writes to that session's browser.
\<close>

theorem foreign_agent_writes:
  assumes "bk_sessions s i = Some (b, a')" and "a' \<noteq> a" and "valid_utf8 i"
    and "bk_actl s a = Some ca" and "ac_pc ca = ReadPc" and "bk_bctl s b = Some c" and "bc_open c"
  shows "\<exists>t. exec broker_step [AFrame a (marshal_msg (session_msg type_output i d)), AForward a True] s = Some t \<and>
    bout t b = bc_out c @ [d] \<and> bk_sessions t = bk_sessions s"
proof -
  have "wf_msg (session_msg type_output i d)"
    using assms(3) by (simp add: wf_msg_def session_msg_def zero_msg_def msg_types ccode_def)
  then have "unmarshal_msg (marshal_msg (session_msg type_output i d)) = (session_msg type_output i d, True)"
    by (rule unmarshal_marshal)
  moreover have "msg_type (session_msg type_output i d) = type_output" "msg_data (session_msg type_output i d) = d"
    by (simp_all add: session_msg_def)
  ultimately show ?thesis
    using assms by (simp add: agent_frame_def agent_forward_def bout_def)
qed

section \<open>A concrete run\<close>

text \<open>Two agents attach as different devices, a browser is bridged to the first and types a frame.\<close>

definition demo_other :: msg where
  "demo_other = zero_msg\<lparr>msg_type := type_register, msg_device := ''other'', msg_token := ''tok''\<rparr>"

lemma demo_other_hello [simp]: "hello_msg (marshal_msg demo_other) = Some demo_other"
proof -
  have "wf_msg demo_other"
    by (simp add: wf_msg_def demo_other_def zero_msg_def msg_types ccode_def)
  then show ?thesis
    by (simp add: hello_msg_def unmarshal_marshal) (simp add: demo_other_def)
qed

definition demo_session_id :: string where
  "demo_session_id = new_id [1, 2, 3, 4, 5, 6, 7, 8]"

definition demo_bridge :: "broker_event list" where
  "demo_bridge = demo_attach 0 @
     [AHello 1 (marshal_msg demo_other) ''addr'' ''key'' True True, AAttach 1, AAdd 1 0, AConfirm 1 True,
      BConnect 2 ''dev'' True, BLookup 2, BUpgrade 2 True [1, 2, 3, 4, 5, 6, 7, 8], BInsert 2, BOpen 2 True,
      BFrame 2 1 [104], BInput 2 True]"

lemma demo_bridged:
  "\<exists>s c ca cb. runs broker_step (broker_new ''cloud'') demo_bridge s \<and>
     bk_sessions s demo_session_id = Some (2, 0) \<and>
     bk_bctl s 2 = Some c \<and> bc_pc c = BrowsePc \<and> bc_session c = demo_session_id \<and> bc_agent c = 0 \<and>
     bc_open c \<and> bc_out c = [] \<and>
     bk_actl s 0 = Some ca \<and> ac_pc ca = ReadPc \<and> bk_actl s 1 = Some cb \<and> ac_pc cb = ReadPc"
  by (simp add: runs_exec demo_bridge_def demo_attach_def demo_session_id_def agent_hello_def agent_attach_def
      agent_add_def agent_confirm_def browser_connect_def browser_lookup_def browser_upgrade_def
      browser_insert_def browser_open_def browser_frame_def browser_input_def send_agent_def
      broker_new_def Let_def) (simp add: demo_register_def demo_other_def)

lemma demo_id: "demo_session_id = ''0102030405060708''"
  by (simp add: demo_session_id_def new_id_def hex_digit_def hex_digits_def)

lemma demo_only: "only_from a demo_session_id demo_bridge" and demo_drawn: "drawn_for 2 demo_session_id demo_bridge"
  by (simp_all add: only_from_def drawn_for_def demo_bridge_def demo_attach_def)

theorem input_flow_witness:
  "\<exists>s. runs broker_step (broker_new ''cloud'') demo_bridge s \<and>
     sent demo_session_id s 0 = [session_msg type_open demo_session_id [], session_msg type_input demo_session_id [104]] \<and>
     sent demo_session_id s 1 = []"
proof -
  obtain s c where s: "runs broker_step (broker_new ''cloud'') demo_bridge s" "bk_bctl s 2 = Some c"
      "bc_pc c = BrowsePc" and c: "bc_session c = demo_session_id" "bc_agent c = 0"
    using demo_bridged by blast
  have "inputs 2 demo_bridge = [[104]]" by (simp add: inputs_def demo_bridge_def demo_attach_def)
  moreover have "demo_session_id \<noteq> []" by (simp add: demo_id)
  ultimately show ?thesis using input_flow [OF s] s(1) demo_drawn by (auto simp: c)
qed

theorem output_flow_witness:
  "\<exists>s c. runs broker_step (broker_new ''cloud'') demo_bridge s \<and> bk_bctl s 2 = Some c \<and>
     subseq (bc_out c) (outputs demo_session_id demo_bridge)"
proof -
  obtain s c where s: "runs broker_step (broker_new ''cloud'') demo_bridge s" "bk_bctl s 2 = Some c"
      and c: "bc_pc c = BrowsePc" "bc_session c = demo_session_id"
    using demo_bridged by blast
  from output_flow [OF s, of 0] demo_only s show ?thesis by (auto simp: c)
qed

theorem foreign_agent_writes_witness:
  "\<exists>s t. runs broker_step (broker_new ''cloud'') demo_bridge s \<and> bk_sessions s demo_session_id = Some (2, 0) \<and>
     exec broker_step [AFrame 1 (marshal_msg (session_msg type_output demo_session_id [33])), AForward 1 True] s
       = Some t \<and> bout t 2 = [[33]]"
proof -
  obtain s c cb where s: "runs broker_step (broker_new ''cloud'') demo_bridge s"
      "bk_sessions s demo_session_id = Some (2, 0)" "bk_bctl s 2 = Some c" "bc_open c" "bc_out c = []"
      "bk_actl s 1 = Some cb" "ac_pc cb = ReadPc"
    using demo_bridged by blast
  have "valid_utf8 demo_session_id" by (simp add: demo_id ccode_def)
  from foreign_agent_writes [OF s(2) _ this s(6,7,3,4), of "[33]"] s(1,2,5) show ?thesis by auto
qed

end
