(* ===== verification/BrokerExit.thy ===== *)
theory BrokerExit
  imports BrokerOutput
begin

text \<open>
  How the coordinator's handlers end: once the connection of a handler has failed, the handler
  has a bounded number of steps left, whatever the others do, and leaves nothing in the tables.
  An agent's handler is then never blocked; what a browser's handler waits for is in \<open>BrokerLock\<close>.
\<close>

section \<open>Browsers\<close>

text \<open>The own steps a browser handler has left, once it is past its loop.\<close>

fun browser_left :: "browser_pc \<Rightarrow> nat option" where
  "browser_left SayClosePc = Some 3"
| "browser_left DropPc = Some 2"
| "browser_left (BHangupPc b) = Some 1"
| "browser_left BrowserDone = Some 0"
| "browser_left _ = None"

text \<open>The step a handler can take at its place, with the given outcome of the network.\<close>

fun browser_next :: "nat \<Rightarrow> bool \<Rightarrow> browser_pc \<Rightarrow> broker_event option" where
  "browser_next b net LookupPc = Some (BLookup b)"
| "browser_next b net UpgradePc = Some (BUpgrade b net [])"
| "browser_next b net InsertPc = Some (BInsert b)"
| "browser_next b net OpenPc = Some (BOpen b net)"
| "browser_next b net BrowsePc = Some (BReadErr b)"
| "browser_next b net (InputPc d) = Some (BInput b net)"
| "browser_next b net SayClosePc = Some (BSayClose b net)"
| "browser_next b net DropPc = Some (BDrop b)"
| "browser_next b net (BHangupPc b') = Some (BDrop b)"
| "browser_next b net BrowserDone = None"

lemma browser_enabled:
  "bk_bctl s b = Some c \<Longrightarrow> browser_next b net (bc_pc c) = Some e \<Longrightarrow> \<exists>t. broker_step e s = Some t \<and> mover e = Some b"
  by (cases "bc_pc c"; auto simp: browser_segments take_session_def split: prod.splits option.splits)

lemma browser_left_step:
  assumes "broker_step e s = Some t" and "bk_bctl s b = Some c" and "browser_left (bc_pc c) = Some n"
  shows "\<exists>c' n'. bk_bctl t b = Some c' \<and> browser_left (bc_pc c') = Some n' \<and>
    n' + (if mover e = Some b then 1 else 0) \<le> n"
proof (cases "mover e = Some b")
  case False
  from mover_other [OF assms(1) this] assms(2,3) show ?thesis
    using False by (cases "bk_bctl t b") (auto simp: bview_def)
next
  case True
  show ?thesis
  proof (cases e)
    case (BDrop b')
    then show ?thesis
      using assms True
      by (auto simp: browser_drop_def take_session_def split: option.splits browser_pc.splits if_splits)
  qed (use assms True in \<open>auto simp: browser_segments case_prod_beta
      split: option.splits if_splits browser_pc.splits\<close>)
qed

lemma browser_left_runs:
  assumes "runs broker_step s es t" and "bk_bctl s b = Some c" and "browser_left (bc_pc c) = Some n"
  shows "\<exists>c' n'. bk_bctl t b = Some c' \<and> browser_left (bc_pc c') = Some n' \<and>
    n' + length (List.filter (\<lambda>e. mover e = Some b) es) \<le> n"
  using assms
proof (induction rule: runs.induct)
  case (runs_more s es t e u)
  then obtain c' n' where c': "bk_bctl t b = Some c'" "browser_left (bc_pc c') = Some n'"
      "n' + length (List.filter (\<lambda>e. mover e = Some b) es) \<le> n"
    by blast
  from browser_left_step [OF runs_more.hyps(2) c'(1,2)] c'(3) show ?case by fastforce
qed simp

section \<open>Agents\<close>

fun agent_mover :: "broker_event \<Rightarrow> nat option" where
  "agent_mover (AHello a raw addr pub verdict net) = Some a"
| "agent_mover (AAttach a) = Some a"
| "agent_mover (AAdd a now) = Some a"
| "agent_mover (AConfirm a net) = Some a"
| "agent_mover (AFrame a raw) = Some a"
| "agent_mover (AForward a net) = Some a"
| "agent_mover (AReadErr a) = Some a"
| "agent_mover (ADetach a) = Some a"
| "agent_mover (ARemove a) = Some a"
| "agent_mover _ = None"

fun agent_left :: "agent_pc \<Rightarrow> nat option" where
  "agent_left DetachPc = Some 2"
| "agent_left RemovePc = Some 1"
| "agent_left AgentDone = Some 0"
| "agent_left _ = None"

fun agent_next :: "nat \<Rightarrow> bool \<Rightarrow> agent_pc \<Rightarrow> broker_event option" where
  "agent_next a net AttachPc = Some (AAttach a)"
| "agent_next a net AddPc = Some (AAdd a 0)"
| "agent_next a net ConfirmPc = Some (AConfirm a net)"
| "agent_next a net ReadPc = Some (AReadErr a)"
| "agent_next a net (WritePc b d) = Some (AForward a net)"
| "agent_next a net (AHangupPc b) = Some (AForward a net)"
| "agent_next a net DetachPc = Some (ADetach a)"
| "agent_next a net RemovePc = Some (ARemove a)"
| "agent_next a net AgentDone = None"

lemma agent_enabled:
  "bk_actl s a = Some c \<Longrightarrow> agent_next a net (ac_pc c) = Some e \<Longrightarrow> \<exists>t. broker_step e s = Some t \<and> agent_mover e = Some a"
  by (cases "ac_pc c"; auto simp: agent_segments Let_def)

definition aview :: "agent_ctl \<Rightarrow> string \<times> agent_pc" where
  "aview c = (ac_device c, ac_pc c)"

lemma aview_frame [simp]:
  "map_option aview (map_option (ac_open_update h) y) = map_option aview y"
  "map_option aview (map_option (\<lambda>c. if Q c then c\<lparr>ac_out := k c\<rparr> else c) y) = map_option aview y"
  by (cases y; simp add: aview_def)+

lemma agent_mover_other:
  assumes "broker_step e s = Some t" and "agent_mover e \<noteq> Some a"
  shows "map_option aview (bk_actl t a) = map_option aview (bk_actl s a)"
  using assms
  by (cases e;
      force simp: agent_segments browser_segments take_session_def case_prod_beta Let_def
        split: option.splits if_splits agent_pc.splits browser_pc.splits)

lemma agent_left_step:
  assumes "broker_step e s = Some t" and "bk_actl s a = Some c" and "agent_left (ac_pc c) = Some n"
  shows "\<exists>c' n'. bk_actl t a = Some c' \<and> agent_left (ac_pc c') = Some n' \<and>
    n' + (if agent_mover e = Some a then 1 else 0) \<le> n"
proof (cases "agent_mover e = Some a")
  case False
  from agent_mover_other [OF assms(1) this] assms(2,3) show ?thesis
    using False by (cases "bk_actl t a") (auto simp: aview_def)
next
  case True
  then show ?thesis
    using assms by (cases e) (auto simp: agent_segments case_prod_beta Let_def
      split: option.splits if_splits agent_pc.splits)
qed

lemma agent_left_runs:
  assumes "runs broker_step s es t" and "bk_actl s a = Some c" and "agent_left (ac_pc c) = Some n"
  shows "\<exists>c' n'. bk_actl t a = Some c' \<and> agent_left (ac_pc c') = Some n' \<and>
    n' + length (List.filter (\<lambda>e. agent_mover e = Some a) es) \<le> n"
  using assms
proof (induction rule: runs.induct)
  case (runs_more s es t e u)
  then obtain c' n' where c': "bk_actl t a = Some c'" "agent_left (ac_pc c') = Some n'"
      "n' + length (List.filter (\<lambda>e. agent_mover e = Some a) es) \<le> n"
    by blast
  from agent_left_step [OF runs_more.hyps(2) c'(1,2)] c'(3) show ?case by fastforce
qed simp

section \<open>The handlers return\<close>

lemma browser_left_pc: "browser_left pc = Some n \<Longrightarrow> n = 0 \<longleftrightarrow> pc = BrowserDone"
  by (cases pc) auto

lemma browser_nextE: "pc \<noteq> BrowserDone \<Longrightarrow> \<exists>e. browser_next b net pc = Some e"
  by (cases pc) auto

lemma agent_left_pc: "agent_left pc = Some n \<Longrightarrow> n = 0 \<longleftrightarrow> pc = AgentDone"
  by (cases pc) auto

lemma agent_nextE: "pc \<noteq> AgentDone \<Longrightarrow> \<exists>e. agent_next a net pc = Some e"
  by (cases pc) auto

text \<open>
  C18. An agent that goes away is forgotten: from the moment reading it fails, its handler takes at
  most two more steps of its own, whatever the other handlers do in between; until it has
  returned a step of it is possible; and when it has returned no device is attached to it.
\<close>

theorem agent_departs:
  assumes "runs broker_step (broker_new cloud) es s" and "broker_step (AReadErr a) s = Some t"
    and "runs broker_step t fs u"
  shows "length (List.filter (\<lambda>e. agent_mover e = Some a) fs) \<le> 2 \<and>
    (\<exists>c. bk_actl u a = Some c \<and>
       (if ac_pc c = AgentDone then \<forall>d. bk_agents u d \<noteq> Some a
        else length (List.filter (\<lambda>e. agent_mover e = Some a) fs) < 2 \<and>
          (\<forall>net. \<exists>e v. agent_next a net (ac_pc c) = Some e \<and> agent_mover e = Some a \<and> broker_step e u = Some v)))"
proof -
  obtain c0 where c0: "bk_actl t a = Some c0" "agent_left (ac_pc c0) = Some 2"
    using assms(2) by (auto simp: agent_read_error_def split: option.splits if_splits)
  obtain c n where c: "bk_actl u a = Some c" "agent_left (ac_pc c) = Some n"
      "n + length (List.filter (\<lambda>e. agent_mover e = Some a) fs) \<le> 2"
    using agent_left_runs [OF assms(3) c0] by blast
  have "runs broker_step (broker_new cloud) ((es @ [AReadErr a]) @ fs) u"
    by (rule runs_append [OF runs_more [OF assms(1,2)] assms(3)])
  then have "agents_ok (tables_of u)" using broker_reachable_ok by (auto simp: tables_ok_def)
  then have "bk_agents u d \<noteq> Some a" if "ac_pc c = AgentDone" for d
    using ok_agents [of u d a] c(1) that by auto
  moreover have "\<exists>e v. agent_next a net (ac_pc c) = Some e \<and> agent_mover e = Some a \<and> broker_step e u = Some v"
    if "ac_pc c \<noteq> AgentDone" for net
    using agent_nextE [OF that, of a net] agent_enabled [OF c(1)] by blast
  moreover have "length (List.filter (\<lambda>e. agent_mover e = Some a) fs) < 2" if "ac_pc c \<noteq> AgentDone"
    using agent_left_pc [OF c(2)] c(3) that by auto
  ultimately show ?thesis using c(1,3) by auto
qed

section \<open>A concrete departure\<close>

lemma demo_gone:
  assumes "bk_bctl s 2 = Some c" and "bc_pc c = BrowsePc" and "bk_actl s 0 = Some ca" and "ac_pc ca = ReadPc"
  shows "\<exists>t u. broker_step (BReadErr 2) s = Some t \<and> runs broker_step t [BSayClose 2 True] u"
    and "\<exists>t u. broker_step (AReadErr 0) s = Some t \<and> runs broker_step t [ADetach 0] u"
  using assms
  by (simp_all add: runs_exec browser_read_error_def browser_say_close_def agent_read_error_def agent_detach_def)

theorem agent_departs_witness:
  "\<exists>s t u c. runs broker_step (broker_new ''cloud'') demo_bridge s \<and> broker_step (AReadErr 0) s = Some t \<and>
     runs broker_step t [ADetach 0] u \<and> bk_actl u 0 = Some c"
proof -
  obtain s c ca where s: "runs broker_step (broker_new ''cloud'') demo_bridge s" "bk_bctl s 2 = Some c"
      "bc_pc c = BrowsePc" "bk_actl s 0 = Some ca" "ac_pc ca = ReadPc"
    using demo_bridged by blast
  obtain t u where t: "broker_step (AReadErr 0) s = Some t" "runs broker_step t [ADetach 0] u"
    using demo_gone(2) [OF s(2-5)] by blast
  from agent_departs [OF s(1) t] s(1) t show ?thesis by blast
qed

end
