(* ===== verification/BrokerLock.thy ===== *)
theory BrokerLock
  imports BrokerExit
begin

text \<open>
  The writes to an agent (\<open>agentConn.send\<close>): a handler takes the mutex \<open>a.mu\<close> of the connection and
  holds it until its write has returned. A write has no deadline, so how long that takes is up to the
  network, and everybody else who has something to send to this agent waits meanwhile. In
  \<open>broker_step\<close> the event of a send is the return of its write; here the time before it is a state of its own,
  and a send is possible only for the holder. Every run of this machine is one of
  \<open>broker_step\<close> with more waiting, so all invariants carry over.
\<close>

section \<open>The mutex\<close>

text \<open>The handlers that send: an agent's own, when it confirms, and a browser's.\<close>

datatype sender = Confirms nat | Relays nat

fun returns :: "broker_event \<Rightarrow> sender option" where
  "returns (AConfirm a net) = Some (Confirms a)"
| "returns (BOpen b net) = Some (Relays b)"
| "returns (BInput b net) = Some (Relays b)"
| "returns (BSayClose b net) = Some (Relays b)"
| "returns _ = None"

fun sending :: "browser_pc \<Rightarrow> bool" where
  "sending OpenPc = True"
| "sending (InputPc d) = True"
| "sending SayClosePc = True"
| "sending _ = False"

text \<open>The connection that a handler has a message to send on, where it stands.\<close>

fun sends_to :: "sender \<Rightarrow> broker \<Rightarrow> nat option" where
  "sends_to (Confirms a) s =
     (case bk_actl s a of None \<Rightarrow> None | Some c \<Rightarrow> if ac_pc c = ConfirmPc then Some a else None)"
| "sends_to (Relays b) s =
     (case bk_bctl s b of None \<Rightarrow> None | Some c \<Rightarrow> if sending (bc_pc c) then Some (bc_agent c) else None)"

record locked =
  lk_broker :: broker
  lk_holder :: "nat \<rightharpoonup> sender"

definition locked_new :: "string \<Rightarrow> locked" where
  "locked_new cloud = \<lparr>lk_broker = broker_new cloud, lk_holder = Map.empty\<rparr>"

datatype locked_event = Lock sender | Step broker_event

fun locked_step :: "locked_event \<Rightarrow> locked \<Rightarrow> locked option" where
  "locked_step (Lock p) s =
     (case sends_to p (lk_broker s) of
        None \<Rightarrow> None
      | Some a \<Rightarrow> if lk_holder s a \<noteq> None then None else Some (s\<lparr>lk_holder := (lk_holder s)(a \<mapsto> p)\<rparr>))"
| "locked_step (Step e) s =
     (case returns e of
        None \<Rightarrow> map_option (\<lambda>b. s\<lparr>lk_broker := b\<rparr>) (broker_step e (lk_broker s))
      | Some p \<Rightarrow>
          (case sends_to p (lk_broker s) of
             None \<Rightarrow> None
           | Some a \<Rightarrow>
               if lk_holder s a \<noteq> Some p then None
               else map_option (\<lambda>b. s\<lparr>lk_broker := b, lk_holder := (lk_holder s)(a := None)\<rparr>)
                 (broker_step e (lk_broker s))))"

fun step_of :: "locked_event \<Rightarrow> broker_event list" where
  "step_of (Lock p) = []"
| "step_of (Step e) = [e]"

lemma locked_step_broker:
  "locked_step ev s = Some t \<Longrightarrow> exec broker_step (step_of ev) (lk_broker s) = Some (lk_broker t)"
  by (cases ev) (auto split: option.splits if_splits)

lemma locked_runs_broker:
  "runs locked_step s es t \<Longrightarrow> runs broker_step (lk_broker s) (concat (map step_of es)) (lk_broker t)"
proof (induction rule: runs.induct)
  case (runs_more s es t e u)
  have "runs broker_step (lk_broker t) (step_of e) (lk_broker u)"
    using locked_step_broker [OF runs_more.hyps(2)] by (simp add: runs_exec)
  from runs_append [OF runs_more.IH this] show ?case by simp
qed (simp add: runs_none)

lemma locked_reachable:
  "runs locked_step (locked_new cloud) es s \<Longrightarrow> \<exists>bs. runs broker_step (broker_new cloud) bs (lk_broker s)"
  using locked_runs_broker [of "locked_new cloud" es s] by (auto simp: locked_new_def)

text \<open>And every run of the coordinator is possible with the mutex taken for each send.\<close>

definition with_locks :: "broker_event list \<Rightarrow> locked_event list" where
  "with_locks es = concat (map (\<lambda>e. case returns e of None \<Rightarrow> [Step e] | Some p \<Rightarrow> [Lock p, Step e]) es)"

lemma returns_sends_to: "broker_step e s = Some t \<Longrightarrow> returns e = Some p \<Longrightarrow> \<exists>a. sends_to p s = Some a"
  by (cases e) (auto simp: agent_segments browser_segments split: option.splits if_splits browser_pc.splits)

lemma with_locks_exec:
  assumes "exec broker_step es b = Some b'"
  shows "exec locked_step (with_locks es) \<lparr>lk_broker = b, lk_holder = Map.empty\<rparr> = Some \<lparr>lk_broker = b', lk_holder = Map.empty\<rparr>"
  using assms
proof (induction es arbitrary: b)
  case (Cons e es)
  then obtain m where m: "broker_step e b = Some m" "exec broker_step es m = Some b'"
    by (auto split: option.splits)
  show ?case
  proof (cases "returns e")
    case None
    then show ?thesis using m Cons.IH [OF m(2)] by (simp add: with_locks_def)
  next
    case (Some p)
    obtain a where "sends_to p b = Some a" using returns_sends_to [OF m(1) Some] by blast
    then show ?thesis using m Some Cons.IH [OF m(2)] by (simp add: with_locks_def)
  qed
qed (simp add: with_locks_def)

section \<open>The holder stands at its write\<close>

lemma sends_to_step:
  assumes "broker_step e s = Some t" and "sends_to p s = Some a" and "returns e \<noteq> Some p"
  shows "sends_to p t = Some a"
proof (cases p)
  case (Confirms n)
  have "agent_mover e \<noteq> Some n"
  proof
    assume "agent_mover e = Some n"
    then show False
      using assms Confirms
      by (cases e) (auto simp: agent_segments split: option.splits if_splits agent_pc.splits)
  qed
  from agent_mover_other [OF assms(1) this] show ?thesis
    using assms(2) Confirms by (cases "bk_actl t n") (auto simp: aview_def split: option.splits if_splits)
next
  case (Relays b)
  have "mover e \<noteq> Some b"
  proof
    assume "mover e = Some b"
    then show False
      using assms Relays
      by (cases e) (auto simp: browser_segments split: option.splits if_splits browser_pc.splits)
  qed
  from mover_other [OF assms(1) this] show ?thesis
    using assms(2) Relays by (cases "bk_bctl t b") (auto simp: bview_def split: option.splits if_splits)
qed

lemma StepE:
  assumes "locked_step (Step e) s = Some t"
  obtains "broker_step e (lk_broker s) = Some (lk_broker t)" "returns e = None" "lk_holder t = lk_holder s"
  | p a where "broker_step e (lk_broker s) = Some (lk_broker t)" "returns e = Some p"
      "sends_to p (lk_broker s) = Some a" "lk_holder s a = Some p" "lk_holder t = (lk_holder s)(a := None)"
  using assms by (cases "returns e") (auto split: option.splits if_splits)

definition holders_ok :: "locked \<Rightarrow> bool" where
  "holders_ok s \<longleftrightarrow> (\<forall>a p. lk_holder s a = Some p \<longrightarrow> sends_to p (lk_broker s) = Some a)"

lemma holders_ok_step:
  assumes "holders_ok s" and "locked_step ev s = Some t"
  shows "holders_ok t"
proof (cases ev)
  case (Lock p)
  then show ?thesis using assms by (auto simp: holders_ok_def split: option.splits if_splits)
next
  case (Step e)
  have "sends_to q (lk_broker t) = Some a" if q: "lk_holder t a = Some q" for a q
    using assms(2) [unfolded Step]
  proof (cases rule: StepE)
    case 1
    then have "sends_to q (lk_broker s) = Some a" using assms(1) q unfolding holders_ok_def by auto
    then show ?thesis using sends_to_step [OF 1(1)] 1(2) by simp
  next
    case (2 p a')
    then have "a \<noteq> a'" "lk_holder s a = Some q" using q by (auto split: if_splits)
    then have "sends_to q (lk_broker s) = Some a" using assms(1) unfolding holders_ok_def by blast
    moreover from this have "q \<noteq> p" using 2(3) \<open>a \<noteq> a'\<close> by auto
    ultimately show ?thesis using sends_to_step [OF 2(1)] 2(2) by simp
  qed
  then show ?thesis by (simp add: holders_ok_def)
qed

interpretation mutex: machine locked_step holders_ok
  by unfold_locales (rule holders_ok_step)

lemma holders_ok_runs: "runs locked_step (locked_new cloud) es s \<Longrightarrow> holders_ok s"
  by (erule mutex.ok_runs) (simp add: holders_ok_def locked_new_def)

section \<open>A browser that has gone\<close>

text \<open>The steps of a browser's handler: to take the mutex, and its own steps of the coordinator.\<close>

fun own :: "nat \<Rightarrow> locked_event \<Rightarrow> bool" where
  "own b (Lock p) \<longleftrightarrow> p = Relays b"
| "own b (Step e) \<longleftrightarrow> mover e = Some b"

definition own_steps :: "nat \<Rightarrow> locked_event list \<Rightarrow> nat" where
  "own_steps b es = length (List.filter (own b) es)"

text \<open>The steps it has left: one more before a send if the mutex is not its own yet.\<close>

definition steps_left :: "nat \<Rightarrow> locked \<Rightarrow> nat option" where
  "steps_left b s =
     (case bk_bctl (lk_broker s) b of
        None \<Rightarrow> None
      | Some c \<Rightarrow> map_option (\<lambda>n. if bc_pc c = SayClosePc \<and> lk_holder s (bc_agent c) \<noteq> Some (Relays b) then Suc n else n)
          (browser_left (bc_pc c)))"

lemma browser_left_sending: "browser_left pc = Some n \<Longrightarrow> sending pc \<longleftrightarrow> pc = SayClosePc"
  by (cases pc) auto

lemma mover_returns: "mover e = Some b \<Longrightarrow> returns e = None \<or> returns e = Some (Relays b)"
  by (cases e) auto

lemma returns_mover: "returns e = Some (Relays b) \<Longrightarrow> mover e = Some b"
  by (cases e) auto

lemma steps_left_step:
  assumes step: "locked_step ev s = Some t" and left: "steps_left b s = Some n"
  shows "\<exists>n'. steps_left b t = Some n' \<and> n' + (if own b ev then 1 else 0) \<le> n"
proof -
  obtain c k where c: "bk_bctl (lk_broker s) b = Some c" "browser_left (bc_pc c) = Some k"
      and n: "n = (if bc_pc c = SayClosePc \<and> lk_holder s (bc_agent c) \<noteq> Some (Relays b) then Suc k else k)"
    using left by (auto simp: steps_left_def split: option.splits if_splits)
  show ?thesis
  proof (cases ev)
    case (Lock p)
    then obtain a where a: "sends_to p (lk_broker s) = Some a" "lk_holder s a = None"
        "t = s\<lparr>lk_holder := (lk_holder s)(a \<mapsto> p)\<rparr>"
      using step by (auto split: option.splits if_splits)
    show ?thesis
    proof (cases "p = Relays b")
      case True
      then have "bc_pc c = SayClosePc" "a = bc_agent c"
        using a(1) c browser_left_sending [OF c(2)] by (auto split: if_splits)
      then show ?thesis using a(2,3) c n True Lock by (simp add: steps_left_def)
    next
      case False
      then show ?thesis using a(2,3) c n Lock by (auto simp: steps_left_def)
    qed
  next
    case (Step e)
    have b: "broker_step e (lk_broker s) = Some (lk_broker t)"
      using step [unfolded Step] by (cases rule: StepE)
    from browser_left_step [OF b c] obtain c' k' where c': "bk_bctl (lk_broker t) b = Some c'" "browser_left (bc_pc c') = Some k'"
        "k' + (if mover e = Some b then 1 else 0) \<le> k"
      by blast
    show ?thesis
    proof (cases "mover e = Some b")
      case False
      then have same: "bc_pc c' = bc_pc c" "bc_agent c' = bc_agent c"
        using mover_other [OF b False] c(1) c'(1) by (simp_all add: bview_def)
      have "lk_holder t a = Some (Relays b)" if "lk_holder s a = Some (Relays b)" for a
        using step [unfolded Step] by (cases rule: StepE) (use that returns_mover False in auto)
      then show ?thesis using c c' n same False Step by (auto simp: steps_left_def)
    next
      case True
      have "bc_pc c' \<noteq> SayClosePc" using True b c c'
        by (cases e) (auto simp: browser_segments case_prod_beta take_session_def split: option.splits if_splits browser_pc.splits)
      then show ?thesis using c c' n True Step by (auto simp: steps_left_def)
    qed
  qed
qed

lemma steps_left_runs:
  assumes "runs locked_step s es t" and "steps_left b s = Some n"
  shows "\<exists>n'. steps_left b t = Some n' \<and> n' + own_steps b es \<le> n"
  using assms
proof (induction rule: runs.induct)
  case (runs_more s es t e u)
  then obtain n' where n': "steps_left b t = Some n'" "n' + own_steps b es \<le> n" by blast
  from steps_left_step [OF runs_more.hyps(2) n'(1)] n'(2) show ?case by (fastforce simp: own_steps_def)
qed (simp add: own_steps_def)

text \<open>
  C12. A browser that goes away is forgotten, once the network lets its handler: from the moment
  reading it fails, the handler takes at most four more steps of its own (the mutex of the agent's
  connection, the closing message, the bridge, the browser's connection), whatever the others do in between. The
  only thing it can wait for is the mutex, while a handler stands at a write to this agent that has not
  returned, or the return of its own write; in every other place a step of it is possible. When it
  has returned no bridge is left to it.
\<close>

theorem browser_departs:
  assumes "runs locked_step (locked_new cloud) es s" and "locked_step (Step (BReadErr b)) s = Some t"
    and "runs locked_step t fs u"
  shows "own_steps b fs \<le> 4 \<and>
    (\<exists>c. bk_bctl (lk_broker u) b = Some c \<and>
       (if bc_pc c = BrowserDone then \<forall>i a. bk_sessions (lk_broker u) i \<noteq> Some (b, a)
        else own_steps b fs < 4 \<and>
          (if bc_pc c = SayClosePc
           then (case lk_holder u (bc_agent c) of
               None \<Rightarrow> \<exists>v. locked_step (Lock (Relays b)) u = Some v
             | Some p \<Rightarrow> sends_to p (lk_broker u) = Some (bc_agent c))
           else \<exists>v. locked_step (Step (BDrop b)) u = Some v)))"
proof -
  have run_u: "runs locked_step (locked_new cloud) ((es @ [Step (BReadErr b)]) @ fs) u"
    by (rule runs_append [OF runs_more [OF assms(1,2)] assms(3)])
  obtain ct where "bk_bctl (lk_broker t) b = Some ct" "bc_pc ct = SayClosePc"
    using assms(2) by (auto simp: browser_read_error_def split: option.splits if_splits)
  then obtain n0 where "steps_left b t = Some n0" "n0 \<le> 4" by (auto simp: steps_left_def)
  then obtain n where n: "steps_left b u = Some n" "n + own_steps b fs \<le> 4"
    using steps_left_runs [OF assms(3)] by fastforce
  then obtain c k where c: "bk_bctl (lk_broker u) b = Some c" "browser_left (bc_pc c) = Some k" "k \<le> n"
    by (auto simp: steps_left_def split: option.splits if_splits)
  obtain bs where "runs broker_step (broker_new cloud) bs (lk_broker u)" using locked_reachable [OF run_u] by blast
  then have "sessions_ok (tables_of (lk_broker u))" using broker_reachable_ok by (auto simp: tables_ok_def)
  then have gone: "bk_sessions (lk_broker u) i \<noteq> Some (b, a)" if "bc_pc c = BrowserDone" for i a
    using ok_sessions [of "lk_broker u" i b a] c(1) that by auto
  have few: "own_steps b fs < 4" if "bc_pc c \<noteq> BrowserDone"
    using browser_left_pc [OF c(2)] c(3) n(2) that by auto
  have wait: "case lk_holder u (bc_agent c) of
      None \<Rightarrow> \<exists>v. locked_step (Lock (Relays b)) u = Some v
    | Some p \<Rightarrow> sends_to p (lk_broker u) = Some (bc_agent c)" if "bc_pc c = SayClosePc"
    using holders_ok_runs [OF run_u] c(1) that by (auto simp: holders_ok_def split: option.split)
  have drop: "\<exists>v. locked_step (Step (BDrop b)) u = Some v" if "bc_pc c \<noteq> SayClosePc" "bc_pc c \<noteq> BrowserDone"
    using c(1,2) that by (cases "bc_pc c") (auto simp: browser_drop_def take_session_def split: option.split)
  show ?thesis using n(2) c(1) gone few wait drop by auto
qed

text \<open>
  C13. One agent that does not read holds up everybody who talks to it: while a write on its
  connection has not returned, no other handler gets past its own send on this connection, so a
  browser that has gone keeps its handler and its bridge, and a browser that is there is not read. The
  code sets no deadline for a write.
\<close>

theorem stalled_write_blocks:
  assumes "runs locked_step (locked_new cloud) es s" and "lk_holder s a = Some p"
    and "runs locked_step s fs u" and "\<And>e. Step e \<in> set fs \<Longrightarrow> returns e \<noteq> Some p"
  shows "lk_holder u a = Some p \<and>
    (\<forall>q. q \<noteq> p \<longrightarrow> sends_to q (lk_broker s) = Some a \<longrightarrow>
      sends_to q (lk_broker u) = Some a \<and> locked_step (Lock q) u = None \<and>
      (\<forall>e. returns e = Some q \<longrightarrow> Step e \<notin> set fs \<and> locked_step (Step e) u = None))"
  using assms(3,1,2,4)
proof (induction rule: runs.induct)
  case (runs_none s)
  then show ?case by simp
next
  case (runs_more s fs t ev u)
  then have IH: "lk_holder t a = Some p"
    "\<And>q. q \<noteq> p \<Longrightarrow> sends_to q (lk_broker s) = Some a \<Longrightarrow> sends_to q (lk_broker t) = Some a \<and>
      locked_step (Lock q) t = None \<and> (\<forall>e. returns e = Some q \<longrightarrow> Step e \<notin> set fs \<and> locked_step (Step e) t = None)"
    by auto
  have not_p: "returns e \<noteq> Some p" if "ev = Step e" for e using runs_more.prems(3) that by simp
  have held: "lk_holder u a = Some p"
  proof (cases ev)
    case (Lock q)
    then show ?thesis using runs_more.hyps(2) IH(1) by (auto split: option.splits if_splits)
  next
    case (Step e)
    show ?thesis using runs_more.hyps(2) [unfolded Step]
      by (cases rule: StepE) (use IH(1) not_p [OF Step] in auto)
  qed
  have "sends_to q (lk_broker u) = Some a" if q: "q \<noteq> p" "sends_to q (lk_broker s) = Some a" for q
  proof (cases ev)
    case (Lock r)
    then show ?thesis using runs_more.hyps(2) IH(2) [OF q] by (auto split: option.splits if_splits)
  next
    case (Step e)
    have b: "broker_step e (lk_broker t) = Some (lk_broker u)"
      using runs_more.hyps(2) [unfolded Step] by (cases rule: StepE)
    have "returns e \<noteq> Some q" using IH(2) [OF q] runs_more.hyps(2) Step by auto
    then show ?thesis using sends_to_step [OF b] IH(2) [OF q] by blast
  qed
  moreover have "ev \<noteq> Step e" if "q \<noteq> p" "sends_to q (lk_broker s) = Some a" "returns e = Some q" for q e
    using IH(2) [OF that(1,2)] that(3) runs_more.hyps(2) by auto
  ultimately show ?case using held IH(2) by auto
qed

section \<open>Concrete runs\<close>

text \<open>The bridge of the demonstration is up, its browser has gone, and its handler holds the mutex.\<close>

lemma demo_locked:
  "\<exists>s t u. runs locked_step (locked_new ''cloud'') (with_locks demo_bridge) s \<and>
     locked_step (Step (BReadErr 2)) s = Some t \<and> runs locked_step t [Lock (Relays 2)] u \<and>
     lk_holder u 0 = Some (Relays 2)"
proof -
  obtain b c ca where b: "runs broker_step (broker_new ''cloud'') demo_bridge b" "bk_bctl b 2 = Some c"
      "bc_pc c = BrowsePc" "bc_agent c = 0"
    using demo_bridged by blast
  then have "exec locked_step (with_locks demo_bridge) (locked_new ''cloud'') = Some \<lparr>lk_broker = b, lk_holder = Map.empty\<rparr>"
    using with_locks_exec [of demo_bridge "broker_new ''cloud''" b] by (simp add: runs_exec locked_new_def)
  moreover have "\<exists>t u. locked_step (Step (BReadErr 2)) \<lparr>lk_broker = b, lk_holder = Map.empty\<rparr> = Some t \<and>
      exec locked_step [Lock (Relays 2)] t = Some u \<and> lk_holder u 0 = Some (Relays 2)"
    using b(2-4) by (simp add: browser_read_error_def)
  ultimately show ?thesis unfolding runs_exec by blast
qed

theorem browser_departs_witness:
  "\<exists>s t u c. runs locked_step (locked_new ''cloud'') (with_locks demo_bridge) s \<and>
     locked_step (Step (BReadErr 2)) s = Some t \<and> runs locked_step t [Lock (Relays 2)] u \<and>
     bk_bctl (lk_broker u) 2 = Some c"
proof -
  obtain s t u where s: "runs locked_step (locked_new ''cloud'') (with_locks demo_bridge) s"
      "locked_step (Step (BReadErr 2)) s = Some t" "runs locked_step t [Lock (Relays 2)] u"
    using demo_locked by blast
  from browser_departs [OF s] s show ?thesis by blast
qed

text \<open>A second browser asks for the device, the first goes and its closing message does not get through.\<close>

definition demo_crowd :: "broker_event list" where
  "demo_crowd = demo_bridge @ [BConnect 3 ''dev'' True, BLookup 3, BUpgrade 3 True [9], BInsert 3, BReadErr 2]"

lemma demo_crowded:
  "\<exists>b c2 c3 c1. exec broker_step demo_crowd (broker_new ''cloud'') = Some b \<and>
     bk_bctl b 2 = Some c2 \<and> bc_pc c2 = SayClosePc \<and> bc_agent c2 = 0 \<and>
     bk_bctl b 3 = Some c3 \<and> bc_pc c3 = OpenPc \<and> bc_agent c3 = 0 \<and> bk_actl b 1 = Some c1 \<and> ac_pc c1 = ReadPc"
  by (simp add: demo_crowd_def demo_bridge_def demo_attach_def agent_hello_def agent_attach_def
      agent_add_def agent_confirm_def browser_connect_def browser_lookup_def browser_upgrade_def
      browser_insert_def browser_open_def browser_frame_def browser_input_def browser_read_error_def send_agent_def
      broker_new_def Let_def) (simp add: demo_register_def demo_other_def)

theorem stalled_write_blocks_witness:
  "\<exists>s u. runs locked_step (locked_new ''cloud'') (with_locks demo_crowd @ [Lock (Relays 2)]) s \<and>
     runs locked_step s [Step (AReadErr 1)] u \<and> sends_to (Relays 3) (lk_broker u) = Some 0 \<and>
     locked_step (Lock (Relays 3)) u = None \<and> locked_step (Step (BOpen 3 True)) u = None"
proof -
  obtain b c2 c3 c1 where b: "exec broker_step demo_crowd (broker_new ''cloud'') = Some b"
      "bk_bctl b 2 = Some c2" "bc_pc c2 = SayClosePc" "bc_agent c2 = 0"
      "bk_bctl b 3 = Some c3" "bc_pc c3 = OpenPc" "bc_agent c3 = 0" "bk_actl b 1 = Some c1" "ac_pc c1 = ReadPc"
    using demo_crowded by blast
  let ?s = "\<lparr>lk_broker = b, lk_holder = [0 \<mapsto> Relays 2]\<rparr>"
  have "exec locked_step (with_locks demo_crowd) (locked_new ''cloud'') = Some \<lparr>lk_broker = b, lk_holder = Map.empty\<rparr>"
    using with_locks_exec [OF b(1)] by (simp add: locked_new_def)
  then have run: "runs locked_step (locked_new ''cloud'') (with_locks demo_crowd @ [Lock (Relays 2)]) ?s"
    using b(2-4) by (simp add: runs_exec exec_append)
  obtain u where u: "runs locked_step ?s [Step (AReadErr 1)] u"
    using b(8,9) by (simp add: runs_exec agent_read_error_def)
  note w = stalled_write_blocks [OF run _ u, of 0 "Relays 2"]
  have "returns e \<noteq> Some (Relays 2)" if "Step e \<in> set [Step (AReadErr 1)]" for e using that by simp
  with w have "\<forall>q. q \<noteq> Relays 2 \<longrightarrow> sends_to q (lk_broker ?s) = Some 0 \<longrightarrow>
      sends_to q (lk_broker u) = Some 0 \<and> locked_step (Lock q) u = None \<and>
      (\<forall>e. returns e = Some q \<longrightarrow> Step e \<notin> set [Step (AReadErr 1)] \<and> locked_step (Step e) u = None)"
    by (simp only: locked.select_convs fun_upd_same) blast
  moreover have "sends_to (Relays 3) (lk_broker ?s) = Some 0" "Relays 3 \<noteq> Relays 2" using b(5-7) by simp_all
  ultimately have three: "sends_to (Relays 3) (lk_broker u) = Some 0 \<and> locked_step (Lock (Relays 3)) u = None \<and>
      (\<forall>e. returns e = Some (Relays 3) \<longrightarrow> Step e \<notin> set [Step (AReadErr 1)] \<and> locked_step (Step e) u = None)"
    by blast
  moreover have "returns (BOpen 3 True) = Some (Relays 3)" by simp
  ultimately have "locked_step (Step (BOpen 3 True)) u = None" by blast
  with three have "sends_to (Relays 3) (lk_broker u) = Some 0 \<and> locked_step (Lock (Relays 3)) u = None \<and>
      locked_step (Step (BOpen 3 True)) u = None" by blast
  then show ?thesis using run u by blast
qed

end
