(* ===== verification/BrokerSent.thy ===== *)
theory BrokerSent
  imports BrokerOutput
begin

text \<open>
  What the coordinator writes to an agent over the whole life of a session, the browser's
  departure included, and that every message it writes is well formed and carries a drawn
  session id or none.
\<close>

section \<open>Everything that is sent for a session\<close>

text \<open>
  Whatever became of the browser handler \<open>b\<close>: at most one agent has been sent anything for its
  session \<open>i\<close>, namely the opening at most once, then a prefix of the browser's input in order,
  then at most closings.
\<close>

definition sent_shape :: "nat \<Rightarrow> string \<Rightarrow> broker_event list \<Rightarrow> broker \<Rightarrow> bool" where
  "sent_shape b i es s \<longleftrightarrow>
     (\<exists>a os xs ys. sent i s = (\<lambda>_. [])(a := os @ map (session_msg type_input i) xs @ ys) \<and>
        (os = [] \<or> os = [session_msg type_open i []]) \<and> prefix xs (inputs b es) \<and>
        (\<forall>m\<in>set ys. m = session_msg type_close i []) \<and>
        (\<forall>c. bk_bctl s b = Some c \<longrightarrow> bc_session c = i \<longrightarrow> a = bc_agent c))"

definition late :: "browser_pc \<Rightarrow> bool" where
  "late pc \<longleftrightarrow> pc \<in> {SayClosePc, DropPc, BrowserDone} \<or> (\<exists>b. pc = BHangupPc b)"

lemma shape_none:
  assumes "sent i s = (\<lambda>_. [])"
  shows "sent_shape b i es s"
  unfolding sent_shape_def
  by (rule exI [where x = "case bk_bctl s b of None \<Rightarrow> 0 | Some c \<Rightarrow> bc_agent c"], rule exI [where x = "[]"],
      rule exI [where x = "[]"], rule exI [where x = "[]"]) (simp add: assms fun_eq_iff)

lemma shape_opened:
  assumes "sent i s = opened a i xs" and "prefix xs (inputs b es)" and "bk_bctl s b = Some c" and "bc_agent c = a"
  shows "sent_shape b i es s"
  unfolding sent_shape_def
  by (rule exI [where x = a], rule exI [where x = "[session_msg type_open i []]"],
      rule exI [where x = xs], rule exI [where x = "[]"]) (simp add: assms opened_def)

lemma shape_early:
  assumes "bridge_inv b i es s" and "bk_bctl s b = Some c" and "bc_session c = i" and "\<not> late (bc_pc c)"
  shows "sent_shape b i es s"
proof (cases "bc_pc c = BrowsePc \<or> (\<exists>d. bc_pc c = InputPc d)")
  case True
  then show ?thesis
    using assms shape_opened [OF _ _ assms(2) refl] by (auto simp: bridge_inv_def)
next
  case False
  then show ?thesis
    using assms by (cases "bc_pc c") (auto simp: bridge_inv_def late_def intro: shape_none)
qed

lemma shape_same:
  assumes "sent_shape b i es s" and "sent i t = sent i s"
    and "\<And>c. bk_bctl t b = Some c \<Longrightarrow> bc_session c = i \<Longrightarrow>
      \<exists>c'. bk_bctl s b = Some c' \<and> bc_session c' = i \<and> bc_agent c' = bc_agent c"
  shows "sent_shape b i (es @ [e]) t"
  using assms(1) unfolding sent_shape_def assms(2) inputs_snoc
  by (elim exE conjE) (intro exI conjI; (assumption | erule prefix_prefix | use assms(3) in force))

lemma shape_close:
  assumes "sent_shape b i es s" and "bk_bctl s b = Some c" and "bc_session c = i"
    and "sent i t = (sent i s)(bc_agent c := sent i s (bc_agent c) @ [session_msg type_close i []])"
    and "bk_bctl t b = Some c'" and "bc_agent c' = bc_agent c"
  shows "sent_shape b i (es @ [e]) t"
proof -
  obtain os xs ys where "sent i s = (\<lambda>_. [])(bc_agent c := os @ map (session_msg type_input i) xs @ ys)"
      and os: "os = [] \<or> os = [session_msg type_open i []]" "prefix xs (inputs b es)"
        "\<forall>m\<in>set ys. m = session_msg type_close i []"
    using assms(1-3) unfolding sent_shape_def by blast
  then have "sent i t = (\<lambda>_. [])(bc_agent c := os @ map (session_msg type_input i) xs @ (ys @ [session_msg type_close i []]))"
    using assms(4) by (simp add: fun_eq_iff)
  then show ?thesis
    unfolding sent_shape_def inputs_snoc using os assms(5,6) prefix_prefix [OF os(2)]
    by (intro exI [where x = "bc_agent c"] exI [where x = os] exI [where x = xs]
        exI [where x = "ys @ [session_msg type_close i []]"]) auto
qed

text \<open>How the late steps of a browser handler write.\<close>

lemma mover_late:
  assumes "broker_step e s = Some t" and "mover e = Some b" and "bk_bctl t b = Some c'" and "late (bc_pc c')"
    and "bc_session c' = i" and "i \<noteq> []"
  shows "\<exists>c. bk_bctl s b = Some c \<and> bc_session c = i \<and> bc_agent c = bc_agent c' \<and>
    (sent i t = sent i s \<or>
     sent i t = (sent i s)(bc_agent c := sent i s (bc_agent c) @ [session_msg type_close i []]))"
proof (cases e)
  case (BOpen b' net)
  then show ?thesis
    using assms
    by (auto simp: browser_open_def late_def send_agentD sent_send_agent split: option.splits if_splits prod.splits)
next
  case (BInput b' net)
  then show ?thesis
    using assms
    by (auto simp: browser_input_def late_def send_agentD sent_send_agent
          split: option.splits if_splits prod.splits browser_pc.splits)
next
  case (BSayClose b' net)
  obtain c where c: "bk_bctl s b = Some c" "bc_pc c = SayClosePc"
    using BSayClose assms by (auto simp: browser_say_close_def split: option.splits if_splits)
  obtain u ok where u: "send_agent net (bc_agent c) (session_msg type_close (bc_session c) []) s = (u, ok)"
    by fastforce
  show ?thesis
    using BSayClose assms c send_agentD [OF u] sent_send_agent [OF u] by (auto simp: browser_say_close_def u)
next
  case (BDrop b')
  then show ?thesis
    using assms by (auto simp: browser_drop_def take_session_def split: option.splits browser_pc.splits if_splits)
qed (use assms in \<open>auto simp: browser_segments late_def split: option.splits if_splits\<close>)

lemma shape_step:
  assumes shape: "sent_shape b i es s" and step: "broker_step e s = Some t" and "i \<noteq> []"
    and inv: "bridge_inv b i (es @ [e]) t"
    and other: "\<And>b' c. mover e = Some b' \<Longrightarrow> b' \<noteq> b \<Longrightarrow> bk_bctl s b' = Some c \<Longrightarrow> bc_session c \<noteq> i"
  shows "sent_shape b i (es @ [e]) t"
proof (cases "mover e = Some b")
  case False
  have same: "map_option bview (bk_bctl t b) = map_option bview (bk_bctl s b)"
    by (rule mover_other [OF step False])
  have "sent i t = sent i s" by (rule sent_other [OF step assms(3)]) (use other False in blast)
  then show ?thesis
  proof (rule shape_same [OF shape])
    fix c assume "bk_bctl t b = Some c" "bc_session c = i"
    then show "\<exists>c'. bk_bctl s b = Some c' \<and> bc_session c' = i \<and> bc_agent c' = bc_agent c"
      using same by (cases "bk_bctl s b") (auto simp: bview_def)
  qed
next
  case True
  have "\<exists>c. bk_bctl t b = Some c"
    using step True by (cases e) (auto simp: browser_segments take_session_def case_prod_beta
      split: option.splits if_splits browser_pc.splits)
  then obtain c where c: "bk_bctl t b = Some c" ..
  consider "bc_session c = i" "\<not> late (bc_pc c)" | "bc_session c = i" "late (bc_pc c)" | "bc_session c \<noteq> i" by blast
  then show ?thesis
  proof cases
    case 1
    then show ?thesis using shape_early [OF inv c] by blast
  next
    case 2
    then obtain c' where "bk_bctl s b = Some c'" "bc_session c' = i" "bc_agent c' = bc_agent c"
        "sent i t = sent i s \<or>
         sent i t = (sent i s)(bc_agent c' := sent i s (bc_agent c') @ [session_msg type_close i []])"
      using mover_late [OF step True c _ _ assms(3)] by blast
    then show ?thesis
      using shape_same [OF shape, of t e] shape_close [OF shape, of c' t c e] c by (metis option.inject)
  next
    case 3
    have "sent i t = sent i s"
    proof (cases "\<exists>d rnd. e = BUpgrade b d rnd")
      case True
      then show ?thesis using step by (auto simp: browser_upgrade_def split: option.splits if_splits)
    next
      case False
      then show ?thesis
        using 3 True c step
        by (intro sent_other [OF step assms(3)], cases e)
           (auto simp: browser_segments take_session_def case_prod_beta
            split: option.splits if_splits browser_pc.splits)
    qed
    then show ?thesis using shape_same [OF shape, of t e] 3 c by simp
  qed
qed

lemma sent_shape_runs:
  assumes "runs broker_step (broker_new cloud) es s" and "drawn_for b i es" and "i \<noteq> []"
  shows "sent_shape b i es s"
proof -
  have "runs broker_step s0 es s \<Longrightarrow> s0 = broker_new cloud \<Longrightarrow> drawn_for b i es \<Longrightarrow> sent_shape b i es s" for s0
  proof (induction rule: runs.induct)
    case (runs_none s)
    then show ?case by (intro shape_none) (simp add: broker_new_def sent_def fun_eq_iff)
  next
    case (runs_more s es t e u)
    then have run: "runs broker_step (broker_new cloud) es t" and drawn: "drawn_for b i es" and "drawn_for b i (es @ [e])"
      by (simp_all add: drawn_for_def)
    have "bridge_inv b i (es @ [e]) u"
      using bridge_inv_runs [OF _ \<open>drawn_for b i (es @ [e])\<close> assms(3)] runs_more.prems(1)
        runs.runs_more [OF run runs_more.hyps(2)] by simp
    then show ?case
      using shape_step [OF _ runs_more.hyps(2) assms(3)] session_owner [OF run drawn assms(3)]
        runs_more.IH [OF runs_more.prems(1) drawn] by blast
  qed
  then show ?thesis using assms by blast
qed

section \<open>What the coordinator writes to its agents\<close>

definition out_to :: "broker \<Rightarrow> nat \<Rightarrow> msg list" where
  "out_to s a = (case bk_actl s a of None \<Rightarrow> [] | Some c \<Rightarrow> ac_out c)"

lemma sent_out_to: "sent i s a = List.filter (\<lambda>m. msg_session m = i) (out_to s a)"
  by (simp add: sent_def out_to_def split: option.split)

lemma out_to_simps [simp]:
  "out_to (set_bctl b bc s) = out_to s" "out_to (browser_goto b q s) = out_to s"
  "out_to (close_browser b s) = out_to s" "out_to (write_browser net b d s) = out_to s"
  "out_to (close_agent a s) = out_to s" "out_to (agent_goto a pc s) = out_to s"
  "out_to (s\<lparr>bk_sessions := n\<rparr>) = out_to s" "out_to (s\<lparr>bk_agents := g\<rparr>) = out_to s"
  "out_to (s\<lparr>bk_reg := r\<rparr>) = out_to s"
  by (auto simp: out_to_def fun_eq_iff split: option.split)

lemma out_to_set [simp]: "out_to (set_actl a c s) = (out_to s)(a := ac_out c)"
  by (auto simp: out_to_def fun_eq_iff)

lemma out_to_send:
  "send_agent net a m s = (t, ok) \<Longrightarrow> out_to t = (if ok then (out_to s)(a := out_to s a @ [m]) else out_to s)"
  by (auto simp: send_agent_def out_to_def fun_eq_iff split: option.splits if_splits)

text \<open>What a step of the coordinator may write: a refusal, the confirmation, or a frame of a browser's session.\<close>

definition browser_says :: "broker \<Rightarrow> msg \<Rightarrow> bool" where
  "browser_says s m \<longleftrightarrow> (\<exists>b c ty d. bk_bctl s b = Some c \<and>
     (bc_pc c \<in> {OpenPc, SayClosePc} \<or> (\<exists>d. bc_pc c = InputPc d)) \<and>
     ty \<in> {type_open, type_input, type_close} \<and> m = session_msg ty (bc_session c) d)"

definition confirmation :: msg where
  "confirmation = zero_msg\<lparr>msg_type := type_registered\<rparr>"

lemma out_append:
  assumes "out_to t = out_to s \<or> (\<exists>b m. out_to t = (out_to s)(b := out_to s b @ [m]) \<and> P m)"
  shows "out_to t a = out_to s a \<or> (\<exists>m. out_to t a = out_to s a @ [m] \<and> P m)"
  using assms by auto

lemma browser_out:
  assumes "broker_step e s = Some t" and "mover e = Some b"
  shows "out_to t = out_to s \<or> (\<exists>a m. out_to t = (out_to s)(a := out_to s a @ [m]) \<and> browser_says s m)"
  using assms
proof (cases e)
  case (BOpen b' net)
  then show ?thesis
    using assms
    by (auto simp: browser_open_def browser_says_def dest!: out_to_send split: option.splits if_splits prod.splits) blast
next
  case (BInput b' net)
  then show ?thesis
    using assms
    by (auto simp: browser_input_def browser_says_def dest!: out_to_send
        split: option.splits if_splits prod.splits browser_pc.splits) blast
next
  case (BSayClose b' net)
  obtain c where c: "bk_bctl s b = Some c" "bc_pc c = SayClosePc"
    using BSayClose assms by (auto simp: browser_say_close_def split: option.splits if_splits)
  obtain u ok where u: "send_agent net (bc_agent c) (session_msg type_close (bc_session c) []) s = (u, ok)"
    by fastforce
  have "browser_says s (session_msg type_close (bc_session c) [])"
    using c by (auto simp: browser_says_def)
  then show ?thesis
    using BSayClose assms c out_to_send [OF u] by (auto simp: browser_say_close_def u)
next
  case (BDrop b')
  then show ?thesis
    using assms by (auto simp: browser_drop_def take_session_def split: option.splits browser_pc.splits)
qed (auto simp: browser_segments split: option.splits if_splits)

lemma agent_out:
  assumes "broker_step e s = Some t" and "mover e = None"
  shows "out_to t = out_to s \<or> (\<exists>a m. out_to t = (out_to s)(a := out_to s a @ [m]) \<and> (m = error_msg \<or> m = confirmation))"
proof (cases e)
  case (AHello a raw addr pub verdict net)
  then have "out_to s a = []" using assms by (auto simp: agent_hello_def out_to_def split: if_splits)
  then have "out_to t = out_to s \<or> out_to t = (out_to s)(a := out_to s a @ [error_msg])"
    using AHello assms by (auto simp: agent_hello_def Let_def fun_upd_idem split: option.splits if_splits)
  then show ?thesis by blast
next
  case (AConfirm a net)
  obtain u ok where u: "send_agent net a (zero_msg\<lparr>msg_type := type_registered\<rparr>) s = (u, ok)" by fastforce
  then have "out_to t = out_to s \<or> out_to t = (out_to s)(a := out_to s a @ [confirmation])"
    using AConfirm assms out_to_send [OF u] by (auto simp: agent_confirm_def confirmation_def split: option.splits if_splits)
  then show ?thesis by blast
qed (use assms in \<open>auto simp: agent_segments take_session_def case_prod_beta Let_def
       split: option.splits if_splits agent_pc.splits\<close>)

lemma out_step:
  assumes "broker_step e s = Some t"
  shows "out_to t a = out_to s a \<or>
    (\<exists>m. out_to t a = out_to s a @ [m] \<and> (m = error_msg \<or> m = confirmation \<or> browser_says s m))"
  by (rule out_append) (use browser_out [OF assms] agent_out [OF assms] in \<open>cases "mover e"; auto\<close>)

text \<open>The session ids of the browsers in a bridge were drawn, and every message carries one of them or none.\<close>

definition drawn :: "broker_event list \<Rightarrow> string \<Rightarrow> bool" where
  "drawn es i \<longleftrightarrow> (\<exists>b rnd. BUpgrade b True rnd \<in> set es \<and> i = new_id rnd)"

definition broker_msg :: "broker_event list \<Rightarrow> msg \<Rightarrow> bool" where
  "broker_msg es m \<longleftrightarrow> m = error_msg \<or> m = confirmation \<or>
     (\<exists>ty i d. ty \<in> {type_open, type_input, type_close} \<and> drawn es i \<and> m = session_msg ty i d)"

definition said_inv :: "broker_event list \<Rightarrow> broker \<Rightarrow> bool" where
  "said_inv es s \<longleftrightarrow> (\<forall>a. \<forall>m\<in>set (out_to s a). broker_msg es m) \<and>
     (\<forall>b c. bk_bctl s b = Some c \<longrightarrow> bc_pc c \<notin> {LookupPc, UpgradePc, BrowserDone} \<longrightarrow> drawn es (bc_session c))"

lemma drawn_snoc: "drawn es i \<Longrightarrow> drawn (es @ [e]) i"
  by (auto simp: drawn_def)

lemma broker_msg_snoc: "broker_msg es m \<Longrightarrow> broker_msg (es @ [e]) m"
  unfolding broker_msg_def using drawn_snoc by blast

lemma drawn_step:
  assumes "broker_step e s = Some t" and "bk_bctl t b = Some c'"
    and "bc_pc c' \<notin> {LookupPc, UpgradePc, BrowserDone}"
  shows "(\<exists>c. bk_bctl s b = Some c \<and> bc_session c = bc_session c' \<and>
      bc_pc c \<notin> {LookupPc, UpgradePc, BrowserDone}) \<or> drawn (es @ [e]) (bc_session c')"
proof (cases "mover e = Some b")
  case False
  from mover_other [OF assms(1) this] assms(2,3) show ?thesis
    by (cases "bk_bctl s b") (auto simp: bview_def)
next
  case True
  show ?thesis
  proof (cases e)
    case (BUpgrade b' ok rnd)
    then have "bc_session c' = new_id rnd \<and> ok \<and> b' = b"
      using assms True by (auto simp: browser_upgrade_def split: option.splits if_splits)
    then show ?thesis using BUpgrade by (auto simp: drawn_def)
  next
    case (BDrop b')
    then show ?thesis
      using assms True
      by (auto simp: browser_drop_def take_session_def split: option.splits browser_pc.splits if_splits)
  qed (use assms True in \<open>auto simp: browser_segments case_prod_beta
      split: option.splits if_splits browser_pc.splits\<close>)
qed

lemma said_inv_step:
  assumes "said_inv es s" and "broker_step e s = Some t"
  shows "said_inv (es @ [e]) t"
proof -
  have says: "broker_msg es m" if "browser_says s m" for m
  proof -
    obtain b c ty d where c: "bk_bctl s b = Some c" "bc_pc c \<in> {OpenPc, SayClosePc} \<or> (\<exists>d. bc_pc c = InputPc d)"
        and m: "ty \<in> {type_open, type_input, type_close}" "m = session_msg ty (bc_session c) d"
      using \<open>browser_says s m\<close> unfolding browser_says_def by blast
    have "bc_pc c \<notin> {LookupPc, UpgradePc, BrowserDone}" using c(2) by auto
    then have "drawn es (bc_session c)" using assms(1) c(1) by (simp add: said_inv_def)
    then show ?thesis using m by (auto simp: broker_msg_def)
  qed
  have "broker_msg (es @ [e]) m" if "m \<in> set (out_to t a)" for m a
  proof -
    have "m \<in> set (out_to s a) \<or> m = error_msg \<or> m = confirmation \<or> browser_says s m"
      using out_step [OF assms(2), of a] that by auto
    then have "broker_msg es m" using assms(1) says by (auto simp: said_inv_def broker_msg_def)
    then show ?thesis by (rule broker_msg_snoc)
  qed
  moreover have "drawn (es @ [e]) (bc_session c)"
    if "bk_bctl t b = Some c" "bc_pc c \<notin> {LookupPc, UpgradePc, BrowserDone}" for b c
    using drawn_step [OF assms(2) that, of es] assms(1) drawn_snoc unfolding said_inv_def by metis
  ultimately show ?thesis by (simp add: said_inv_def)
qed

lemma said_inv_runs: "runs broker_step (broker_new cloud) es s \<Longrightarrow> said_inv es s"
proof -
  have "runs broker_step s0 es s \<Longrightarrow> s0 = broker_new cloud \<Longrightarrow> said_inv es s" for s0
  proof (induction rule: runs.induct)
    case runs_none
    then show ?case by (simp add: said_inv_def out_to_def broker_new_def)
  qed (simp add: said_inv_step)
  then show "runs broker_step (broker_new cloud) es s \<Longrightarrow> said_inv es s" by blast
qed

lemma valid_utf8_new_id: "valid_utf8 (new_id rnd)"
proof -
  have "\<forall>c\<in>set hex_digits. ccode c < 128" by (simp add: hex_digits_def ccode_def)
  then show ?thesis using set_hex_encode [of rnd] by (auto simp: new_id_def intro: valid_utf8_ascii)
qed

lemma wf_broker_msg: "broker_msg es m \<Longrightarrow> wf_msg m"
  by (auto simp: broker_msg_def drawn_def wf_msg_def error_msg_def confirmation_def session_msg_def
      zero_msg_def msg_types ccode_def valid_utf8_new_id)

lemma out_wf:
  assumes "runs broker_step (broker_new cloud) es s" and "m \<in> set (out_to s a)"
  shows "unmarshal_msg (marshal_msg m) = (m, True)"
  using unmarshal_marshal wf_broker_msg said_inv_runs [OF assms(1)] assms(2) unfolding said_inv_def by blast

section \<open>Which agent a session talks to\<close>

text \<open>A drawn id stays the session of the browser handler it was drawn for.\<close>

lemma upgraded_step:
  assumes "broker_step e s = Some t" and "bk_bctl s b = Some c" and "bc_pc c \<notin> {LookupPc, UpgradePc}"
  shows "\<exists>c'. bk_bctl t b = Some c' \<and> bc_session c' = bc_session c \<and> bc_pc c' \<notin> {LookupPc, UpgradePc}"
proof (cases "mover e = Some b")
  case False
  from mover_other [OF assms(1) this] assms(2,3) show ?thesis
    by (cases "bk_bctl t b") (auto simp: bview_def)
next
  case True
  show ?thesis
  proof (cases e)
    case (BDrop b')
    then show ?thesis
      using assms True
      by (auto simp: browser_drop_def take_session_def split: option.splits browser_pc.splits if_splits)
  qed (use assms True in \<open>auto simp: browser_segments case_prod_beta
      split: option.splits if_splits browser_pc.splits\<close>)
qed

definition upgraded :: "broker_event list \<Rightarrow> broker \<Rightarrow> bool" where
  "upgraded es s \<longleftrightarrow> (\<forall>b rnd. BUpgrade b True rnd \<in> set es \<longrightarrow>
     (\<exists>c. bk_bctl s b = Some c \<and> bc_session c = new_id rnd \<and> bc_pc c \<notin> {LookupPc, UpgradePc}))"

lemma upgraded_runs: "runs broker_step (broker_new cloud) es s \<Longrightarrow> upgraded es s"
proof -
  have "runs broker_step s0 es s \<Longrightarrow> s0 = broker_new cloud \<Longrightarrow> upgraded es s" for s0
  proof (induction rule: runs.induct)
    case (runs_more s es t e u)
    have "\<exists>c. bk_bctl u b = Some c \<and> bc_session c = new_id rnd \<and> bc_pc c \<notin> {LookupPc, UpgradePc}"
      if upgrade: "BUpgrade b True rnd \<in> set (es @ [e])" for b rnd
    proof (cases "e = BUpgrade b True rnd")
      case True
      then show ?thesis using runs_more.hyps(2) by (auto simp: browser_upgrade_def split: option.splits if_splits)
    next
      case False
      then obtain c where "bk_bctl t b = Some c" "bc_session c = new_id rnd" "bc_pc c \<notin> {LookupPc, UpgradePc}"
        using runs_more.IH [OF runs_more.prems] upgrade unfolding upgraded_def by auto
      then show ?thesis using upgraded_step [OF runs_more.hyps(2)] by metis
    qed
    then show ?case by (simp add: upgraded_def)
  qed (simp add: upgraded_def)
  then show "runs broker_step (broker_new cloud) es s \<Longrightarrow> upgraded es s" by blast
qed

text \<open>Once a session id is drawn, its browser's agent registered as the device it asked for, for good.\<close>

definition routed :: "tables \<Rightarrow> bool" where
  "routed s \<longleftrightarrow> (\<forall>b d a i q. tb_b s b = Some ((d, a), i, q) \<longrightarrow>
     (i \<noteq> [] \<longrightarrow> (\<exists>p. tb_a s a = Some (d, p))) \<and> (q = Knocking \<longrightarrow> i = []))"

lemma proto_device: "proto s t \<Longrightarrow> tb_a s a = Some (d, p) \<Longrightarrow> \<exists>p. tb_a t a = Some (d, p)"
  by (erule protoE) auto

lemma proto_browser:
  "proto s t \<Longrightarrow> tb_b t b = Some ((d, a), i, q) \<Longrightarrow>
   tb_b s b = Some ((d, a), i, q) \<or> q \<noteq> Knocking \<and> (\<exists>i0. tb_b s b = Some ((d, a), i0, Upgrading)) \<or>
   (\<exists>a0. tb_b s b = Some ((d, a0), i, Knocking)) \<or> i = [] \<or> q \<noteq> Knocking \<and> (\<exists>q. tb_b s b = Some ((d, a), i, q))"
  by (erule protoE) (auto split: if_splits)

lemma proto_routed:
  assumes "proto s t" and "routes_ok s" and "routed s"
  shows "routed t"
proof -
  have "(i \<noteq> [] \<longrightarrow> (\<exists>p. tb_a t a = Some (d, p))) \<and> (q = Knocking \<longrightarrow> i = [])"
    if "tb_b t b = Some ((d, a), i, q)" for b d a i q
    using proto_browser [OF assms(1) that]
  proof (elim disjE exE conjE)
    fix i0 assume "tb_b s b = Some ((d, a), i0, Upgrading)" and q: "q \<noteq> Knocking"
    then obtain p where "tb_a s a = Some (d, p)" using assms(2) by (fastforce simp: routes_ok_def)
    then show ?thesis using proto_device [OF assms(1)] q by blast
  next
    assume "tb_b s b = Some ((d, a), i, q)"
    then show ?thesis using assms(3) proto_device [OF assms(1)] unfolding routed_def by metis
  next
    fix a0 assume "tb_b s b = Some ((d, a0), i, Knocking)"
    then show ?thesis using assms(3) unfolding routed_def by metis
  next
    fix q' assume "tb_b s b = Some ((d, a), i, q')" "q \<noteq> Knocking"
    then show ?thesis using assms(3) proto_device [OF assms(1)] unfolding routed_def by metis
  qed simp
  then show ?thesis unfolding routed_def by blast
qed

lemma routed_runs:
  assumes "runs broker_step (broker_new cloud) es s"
  shows "routed (tables_of s)"
proof -
  have "runs broker_step s0 es s \<Longrightarrow> s0 = broker_new cloud \<Longrightarrow> routed (tables_of s)" for s0
  proof (induction rule: runs.induct)
    case runs_none
    then show ?case by (simp add: routed_def broker_new_def)
  next
    case (runs_more s es t e u)
    then have "routes_ok (tables_of t)" using broker_reachable_ok by (auto simp: tables_ok_def)
    then show ?case using proto_routed broker_step_proto runs_more by blast
  qed
  then show ?thesis using assms by blast
qed

lemma session_route:
  assumes "runs broker_step (broker_new cloud) es s" and "bk_bctl s b = Some c" and "bc_session c \<noteq> []"
  shows "\<exists>ca. bk_actl s (bc_agent c) = Some ca \<and> ac_device ca = bc_device c"
  using routed_runs [OF assms(1)] assms(2,3)
  by (force simp: routed_def browser_entry_def agent_entry_def)

text \<open>A handler that was refused writes nothing but the refusal.\<close>

definition refused_ok :: "broker \<Rightarrow> bool" where
  "refused_ok s \<longleftrightarrow> (\<forall>a c. bk_actl s a = Some c \<longrightarrow> ac_device c = [] \<longrightarrow>
     ac_pc c = AgentDone \<and> \<not> ac_open c \<and> (\<forall>m\<in>set (ac_out c). m = error_msg))"

lemma refused_ok_set:
  "refused_ok s \<Longrightarrow> ac_device c \<noteq> [] \<or> ac_pc c = AgentDone \<and> \<not> ac_open c \<and> (\<forall>m\<in>set (ac_out c). m = error_msg) \<Longrightarrow>
   refused_ok (set_actl a c s)"
  by (auto simp: refused_ok_def)

lemma refused_ok_simps [simp]:
  "refused_ok (set_bctl b bc s) = refused_ok s" "refused_ok (browser_goto b q s) = refused_ok s"
  "refused_ok (close_browser b s) = refused_ok s" "refused_ok (write_browser net b d s) = refused_ok s"
  "refused_ok (s\<lparr>bk_sessions := n\<rparr>) = refused_ok s" "refused_ok (s\<lparr>bk_agents := g\<rparr>) = refused_ok s"
  "refused_ok (s\<lparr>bk_reg := r\<rparr>) = refused_ok s"
  by (simp_all add: refused_ok_def)

lemma refused_ok_agent:
  "refused_ok s \<Longrightarrow> refused_ok (close_agent a s)"
  "refused_ok s \<Longrightarrow> refused_ok (fst (send_agent net a m s))"
  "refused_ok s \<Longrightarrow> bk_actl s a = Some c \<Longrightarrow> ac_pc c \<noteq> AgentDone \<Longrightarrow> refused_ok (agent_goto a pc s)"
  unfolding refused_ok_def by (auto split: if_splits)

lemma refused_ok_send: "refused_ok s \<Longrightarrow> send_agent net a m s = (t, ok) \<Longrightarrow> refused_ok t"
  using refused_ok_agent(2) [of s net a m] by simp

lemma refused_ok_step:
  assumes "refused_ok s" and "broker_step e s = Some t"
  shows "refused_ok t"
proof (cases e)
  case (AHello a raw addr pub verdict net)
  have "msg_device m \<noteq> []" if "hello_msg raw = Some m" for m
    using that by (auto simp: hello_msg_def split: prod.splits if_splits)
  then show ?thesis
    using AHello assms by (auto simp: agent_hello_def Let_def intro!: refused_ok_set split: option.splits if_splits)
next
  case (AAttach a)
  then obtain c where c: "bk_actl s a = Some c" "ac_pc c = AttachPc"
    using assms by (auto simp: agent_attach_def split: option.splits if_splits)
  let ?u = "case bk_agents s (ac_device c) of None \<Rightarrow> s | Some old \<Rightarrow> close_agent old s"
  have "refused_ok ?u" using assms refused_ok_agent(1) by (auto split: option.split)
  moreover have "\<exists>c'. bk_actl ?u a = Some c' \<and> ac_pc c' = AttachPc" using c by (auto split: option.split)
  ultimately show ?thesis
    using AAttach assms c by (auto simp: agent_attach_def Let_def intro!: refused_ok_agent(3))
next
  case (AConfirm a net)
  then obtain c where c: "bk_actl s a = Some c" "ac_pc c = ConfirmPc"
      "t = agent_goto a ReadPc (fst (send_agent net a (zero_msg\<lparr>msg_type := type_registered\<rparr>) s))"
    using assms by (auto simp: agent_confirm_def split: option.splits if_splits)
  then show ?thesis
    unfolding c(3) using assms by (intro refused_ok_agent(2,3)) (auto split: if_splits)
next
  case (BDrop b)
  then show ?thesis using assms by (auto simp: browser_drop_def take_session_def split: option.splits browser_pc.splits)
qed (use assms in \<open>auto simp: agent_segments browser_segments take_session_def
       intro: refused_ok_agent refused_ok_send split: option.splits if_splits agent_pc.splits browser_pc.splits prod.splits\<close>)

lemma refused_runs: "runs broker_step (broker_new cloud) es s \<Longrightarrow> refused_ok s"
proof -
  have "runs broker_step s0 es s \<Longrightarrow> s0 = broker_new cloud \<Longrightarrow> refused_ok s" for s0
  proof (induction rule: runs.induct)
    case runs_none
    then show ?case by (simp add: refused_ok_def broker_new_def)
  qed (simp add: refused_ok_step)
  then show "runs broker_step (broker_new cloud) es s \<Longrightarrow> refused_ok s" by blast
qed

end
