(* ===== verification/AgentFacts.thy ===== *)
theory AgentFacts
  imports Agent
begin

text \<open>
  The correctness of the device side: no shell outlives the connection, what is typed into a
  shell is what was addressed to its session, and what a shell prints is sent in order, in
  chunks of at most 4096 bytes.
\<close>

section \<open>What the shared operations change\<close>

lemma agent_ops [simp]:
  "ag_procs (set_shell n sh s) = (ag_procs s)(n \<mapsto> sh)" "ag_shells (set_shell n sh s) = ag_shells s"
  "ag_pc (set_shell n sh s) = ag_pc s" "ag_out (set_shell n sh s) = ag_out s"
  "ag_procs (close_proc n s) = (ag_procs s)(n := map_option shell_close (ag_procs s n))"
  "ag_shells (close_proc n s) = ag_shells s" "ag_pc (close_proc n s) = ag_pc s"
  "ag_out (close_proc n s) = ag_out s"
  "ag_procs (reader_goto n q s) = (ag_procs s)(n := map_option (\<lambda>sh. sh\<lparr>sh_pc := q\<rparr>) (ag_procs s n))"
  "ag_shells (reader_goto n q s) = ag_shells s" "ag_pc (reader_goto n q s) = ag_pc s"
  "ag_out (reader_goto n q s) = ag_out s"
  "ag_procs (ag_write net m s) = ag_procs s" "ag_shells (ag_write net m s) = ag_shells s"
  "ag_pc (ag_write net m s) = ag_pc s"
  "ag_out (ag_write net m s) = (if net then ag_out s @ [m] else ag_out s)"
  by (auto simp: set_shell_def close_proc_def reader_goto_def ag_write_def fun_eq_iff split: option.split)

lemma shell_close_simps [simp]:
  "sh_open (shell_close sh) = False" "sh_session (shell_close sh) = sh_session sh"
  "sh_pc (shell_close sh) = sh_pc sh" "sh_typed (shell_close sh) = sh_typed sh"
  "sh_read (shell_close sh) = sh_read sh"
  by (simp_all add: shell_close_def)

lemma shell_start_simps [simp]:
  "sh_open (shell_start p i)" "sh_session (shell_start p i) = i" "sh_pc (shell_start p i) = RDone"
  "sh_typed (shell_start p i) = []" "sh_read (shell_start p i) = []"
  by (simp_all add: shell_start_def)

section \<open>No shell is forgotten\<close>

text \<open>The sessions for which the frames of a run opened a shell.\<close>

fun opened_of :: "agent_event \<Rightarrow> string list" where
  "opened_of (LFrame raw (Some n) net) =
     (case unmarshal_msg raw of (m, ok) \<Rightarrow> if ok \<and> msg_type m = type_open then [msg_session m] else [])"
| "opened_of _ = []"

definition opened_sessions :: "agent_event list \<Rightarrow> string list" where
  "opened_sessions es = concat (map opened_of es)"

lemma opened_sessions_snoc [simp]: "opened_sessions (es @ [e]) = opened_sessions es @ opened_of e"
  by (simp add: opened_sessions_def)

text \<open>Of a shell: its session, whether it is open, and where its reader stands.\<close>

definition sess :: "agent \<Rightarrow> nat \<Rightarrow> string option" where
  "sess s n = map_option sh_session (ag_procs s n)"

definition alive :: "agent \<Rightarrow> nat \<Rightarrow> bool" where
  "alive s n = (case ag_procs s n of None \<Rightarrow> False | Some sh \<Rightarrow> sh_open sh)"

definition rpc :: "agent \<Rightarrow> nat \<Rightarrow> reader_pc option" where
  "rpc s n = map_option sh_pc (ag_procs s n)"

lemma sess_simps [simp]:
  "sess (set_shell n sh s) = (sess s)(n \<mapsto> sh_session sh)" "sess (close_proc n s) = sess s"
  "sess (reader_goto n q s) = sess s" "sess (ag_write net m s) = sess s"
  "sess (s\<lparr>ag_pc := pc\<rparr>) = sess s" "sess (s\<lparr>ag_shells := f\<rparr>) = sess s"
  by (auto simp: sess_def fun_eq_iff option.map_comp comp_def)

lemma alive_simps [simp]:
  "alive (set_shell n sh s) = (alive s)(n := sh_open sh)" "alive (close_proc n s) = (alive s)(n := False)"
  "alive (reader_goto n q s) = alive s" "alive (ag_write net m s) = alive s"
  "alive (s\<lparr>ag_pc := pc\<rparr>) = alive s" "alive (s\<lparr>ag_shells := f\<rparr>) = alive s"
  by (auto simp: alive_def fun_eq_iff split: option.split)

lemma rpc_simps [simp]:
  "rpc (set_shell n sh s) = (rpc s)(n \<mapsto> sh_pc sh)" "rpc (close_proc n s) = rpc s"
  "rpc (reader_goto n q s) = (rpc s)(n := map_option (\<lambda>_. q) (rpc s n))" "rpc (ag_write net m s) = rpc s"
  "rpc (s\<lparr>ag_pc := pc\<rparr>) = rpc s" "rpc (s\<lparr>ag_shells := f\<rparr>) = rpc s"
  by (auto simp: rpc_def fun_eq_iff option.map_comp comp_def)

lemma view_at [simp]:
  "ag_procs s n = Some sh \<Longrightarrow> sess s n = Some (sh_session sh)"
  "ag_procs s n = Some sh \<Longrightarrow> rpc s n = Some (sh_pc sh)"
  "ag_procs s n = Some sh \<Longrightarrow> alive s n = sh_open sh"
  "ag_procs s n = None \<Longrightarrow> sess s n = None" "ag_procs s n = None \<Longrightarrow> rpc s n = None"
  "ag_procs s n = None \<Longrightarrow> \<not> alive s n"
  by (simp_all add: sess_def rpc_def alive_def)

text \<open>
  The invariant, for a run in which no session id is opened twice: the map and the loop name
  shells by their own sessions, sessions are unique, a reader only closes its own shell, and
  an open shell is in the map, on its way in, or about to be closed.
\<close>

definition keyed :: "agent \<Rightarrow> bool" where
  "keyed s \<longleftrightarrow> (\<forall>i n. ag_shells s i = Some n \<longrightarrow> sess s n = Some i)"

definition inserting :: "agent \<Rightarrow> bool" where
  "inserting s \<longleftrightarrow> (\<forall>i n. ag_pc s = LInsert i n \<longrightarrow>
     sess s n = Some i \<and> rpc s n = Some RDone \<and> ag_shells s i = None)"

definition unique :: "string set \<Rightarrow> (nat \<Rightarrow> string option) \<Rightarrow> bool" where
  "unique ids f \<longleftrightarrow> (\<forall>n i. f n = Some i \<longrightarrow> i \<in> ids \<and> (\<forall>n'. f n' = Some i \<longrightarrow> n' = n))"

definition selfish :: "agent \<Rightarrow> bool" where
  "selfish s \<longleftrightarrow> (\<forall>n m. rpc s n = Some (RHangup m) \<longrightarrow> m = n)"

fun killing :: "loop_pc \<Rightarrow> nat \<Rightarrow> bool" where
  "killing (LKill ns) n = (n \<in> ns)"
| "killing _ n = False"

definition tracked :: "agent \<Rightarrow> bool" where
  "tracked s \<longleftrightarrow> (\<forall>n i. alive s n \<longrightarrow> sess s n = Some i \<longrightarrow>
     ag_shells s i = Some n \<or> ag_pc s = LInsert i n \<or> ag_pc s = LHangup i n \<or>
     killing (ag_pc s) n \<or> rpc s n = Some (RHangup n))"

fun over :: "loop_pc \<Rightarrow> bool" where
  "over (LKill ns) = True"
| "over LDone = True"
| "over _ = False"

definition stopping :: "agent \<Rightarrow> bool" where
  "stopping s \<longleftrightarrow> (over (ag_pc s) \<longrightarrow> ag_shells s = Map.empty)"

definition agent_inv :: "string set \<Rightarrow> agent \<Rightarrow> bool" where
  "agent_inv ids s \<longleftrightarrow> keyed s \<and> inserting s \<and> unique ids (sess s) \<and> selfish s \<and> tracked s \<and>
     stopping s"

lemmas agent_inv_defs = agent_inv_def keyed_def inserting_def selfish_def tracked_def stopping_def

lemma loop_insert_inv: "loop_insert s = Some t \<Longrightarrow> agent_inv ids s \<Longrightarrow> agent_inv ids t"
  by (auto simp: loop_insert_def agent_inv_defs split: loop_pc.splits if_splits)

lemma loop_type_inv:
  assumes "loop_type w s = Some t" and "agent_inv ids s"
  shows "agent_inv ids t"
proof -
  obtain n d sh where n: "ag_pc s = LType n d" "ag_procs s n = Some sh"
    using assms(1) by (auto simp: loop_type_def split: loop_pc.splits option.splits)
  then show ?thesis
    using assms by (cases "w \<and> sh_open sh") (auto simp: loop_type_def agent_inv_defs fun_upd_idem)
qed

lemma loop_hangup_inv: "loop_hangup s = Some t \<Longrightarrow> agent_inv ids s \<Longrightarrow> agent_inv ids t"
  by (auto simp: loop_hangup_def agent_inv_defs split: loop_pc.splits if_splits)

lemma loop_say_close_inv: "loop_say_close net s = Some t \<Longrightarrow> agent_inv ids s \<Longrightarrow> agent_inv ids t"
  by (auto simp: loop_say_close_def agent_inv_defs split: loop_pc.splits)

lemma loop_read_error_inv: "loop_read_error s = Some t \<Longrightarrow> agent_inv ids s \<Longrightarrow> agent_inv ids t"
  by (auto simp: loop_read_error_def agent_inv_defs ranI split: if_splits)

lemma loop_kill_inv: "loop_kill n s = Some t \<Longrightarrow> agent_inv ids s \<Longrightarrow> agent_inv ids t"
  by (auto simp: loop_kill_def agent_inv_defs split: loop_pc.splits if_splits)

lemma loop_return_inv: "loop_return s = Some t \<Longrightarrow> agent_inv ids s \<Longrightarrow> agent_inv ids t"
  by (auto simp: loop_return_def agent_inv_defs split: if_splits)

text \<open>A reader that moves without closing a shell.\<close>

lemma goto_inv:
  assumes "agent_inv ids s" and "rpc s n = Some q0" and "q0 \<noteq> RDone" and "\<forall>m. q0 \<noteq> RHangup m"
    and "\<forall>m. q \<noteq> RHangup m"
  shows "agent_inv ids (reader_goto n q s)"
  using assms by (auto simp: agent_inv_defs split: if_splits)

lemma write_inv [simp]: "agent_inv ids (ag_write net m s) = agent_inv ids s"
  by (simp add: agent_inv_defs)

lemma reader_read_inv:
  assumes "reader_read n d rerr s = Some t" and "agent_inv ids s"
  shows "agent_inv ids t"
proof -
  obtain sh where sh: "ag_procs s n = Some sh" "sh_pc sh = RRead"
    using assms(1) by (auto simp: reader_read_def split: option.splits if_splits)
  then have goto: "agent_inv ids (reader_goto n q s)" if "\<forall>m. q \<noteq> RHangup m" for q
    using that by (intro goto_inv [OF assms(2), of n RRead]) simp_all
  show ?thesis
  proof (cases "d = []")
    case True
    then show ?thesis
      using assms sh goto [of RTake] by (auto simp: reader_read_def split: if_splits)
  next
    case False
    then have t: "t = set_shell n (sh\<lparr>sh_read := sh_read sh @ [d], sh_pc := RSend d rerr\<rparr>) s"
      using assms(1) sh by (auto simp: reader_read_def split: if_splits)
    from goto [of "RSend d rerr"] sh show ?thesis by (simp add: t agent_inv_defs fun_upd_idem)
  qed
qed

lemma reader_send_inv:
  assumes "reader_send n net s = Some t" and "agent_inv ids s"
  shows "agent_inv ids t"
proof -
  obtain sh d rerr where sh: "ag_procs s n = Some sh" "sh_pc sh = RSend d rerr"
    using assms(1) by (auto simp: reader_send_def split: option.splits reader_pc.splits)
  then have t: "t = reader_goto n (if \<not> net \<or> rerr then RTake else RRead)
      (ag_write net (output_msg (sh_session sh) d) s)"
    using assms(1) by (simp add: reader_send_def)
  show ?thesis
    unfolding t by (rule goto_inv [of _ _ _ "RSend d rerr"]) (use assms(2) sh in auto)
qed

lemma reader_take_inv:
  assumes "reader_take n s = Some t" and "agent_inv ids s"
  shows "agent_inv ids t"
proof -
  obtain sh where sh: "ag_procs s n = Some sh" "sh_pc sh = RTake"
    using assms(1) by (auto simp: reader_take_def split: option.splits if_splits)
  show ?thesis
  proof (cases "ag_shells s (sh_session sh)")
    case None
    then have "t = reader_goto n RDone s"
      using assms(1) sh by (simp add: reader_take_def take_shell_def fun_upd_idem)
    then show ?thesis using goto_inv [OF assms(2), of n RTake RDone] sh by simp
  next
    case (Some m)
    then have "sess s m = Some (sh_session sh)" using assms(2) by (simp add: agent_inv_defs)
    then have "m = n" using assms(2) sh by (auto simp: agent_inv_def unique_def)
    then have t: "t = reader_goto n (RHangup n) (s\<lparr>ag_shells := (ag_shells s)(sh_session sh := None)\<rparr>)"
      using assms(1) sh Some by (simp add: reader_take_def take_shell_def)
    then show ?thesis using assms(2) sh Some \<open>m = n\<close>
      by (auto simp: agent_inv_defs split: if_splits)
  qed
qed

lemma reader_hangup_inv:
  assumes "reader_hangup n s = Some t" and "agent_inv ids s"
  shows "agent_inv ids t"
proof -
  obtain sh m where sh: "ag_procs s n = Some sh" "sh_pc sh = RHangup m"
    using assms(1) by (auto simp: reader_hangup_def split: option.splits reader_pc.splits)
  then have "m = n" using assms(2) by (auto simp: agent_inv_defs)
  then have "t = reader_goto n RSayClose (close_proc n s)"
    using assms(1) sh by (simp add: reader_hangup_def)
  then show ?thesis using assms(2) sh by (auto simp: agent_inv_defs split: if_splits)
qed

lemma reader_say_close_inv:
  assumes "reader_say_close n net s = Some t" and "agent_inv ids s"
  shows "agent_inv ids t"
proof -
  obtain sh where sh: "ag_procs s n = Some sh" "sh_pc sh = RSayClose"
    using assms(1) by (auto simp: reader_say_close_def split: option.splits if_splits)
  then have t: "t = reader_goto n RDone (ag_write net (close_msg (sh_session sh)) s)"
    using assms(1) by (simp add: reader_say_close_def)
  show ?thesis
    unfolding t by (rule goto_inv [of _ _ _ RSayClose]) (use assms(2) sh in auto)
qed

lemma loop_frame_inv:
  assumes "loop_frame raw start net s = Some t" and "agent_inv ids s"
    and "set (opened_of (LFrame raw start net)) \<inter> ids = {}"
  shows "agent_inv (ids \<union> set (opened_of (LFrame raw start net))) t"
proof -
  obtain m ok where m: "unmarshal_msg raw = (m, ok)" by fastforce
  have pc: "ag_pc s = LRead" using assms(1) by (auto simp: loop_frame_def split: if_splits)
  show ?thesis
  proof (cases "ok \<and> msg_type m = type_open \<and> start \<noteq> None")
    case True
    then obtain n where n: "start = Some n" by blast
    then have "msg_session m \<notin> ids" "ag_procs s n = None"
      using assms(1,3) m True pc by (auto simp: loop_frame_def Let_def split: if_splits)
    moreover have "sess s n = None" "rpc s n = None" "\<not> alive s n" using calculation by simp_all
    moreover have "ag_shells s (msg_session m) = None"
      using calculation assms(2) unfolding agent_inv_def keyed_def unique_def by (metis not_Some_eq)
    ultimately show ?thesis
      using assms(1,2) m n True pc
      by (auto simp: loop_frame_def Let_def agent_inv_defs unique_def simp del: view_at split: if_splits)
  next
    case False
    then have "opened_of (LFrame raw start net) = []" using m by (cases start) auto
    then show ?thesis
      using assms(1,2) m False pc
      by (auto simp: loop_frame_def Let_def take_shell_def agent_inv_defs msg_types
            split: if_splits option.splits)
  qed
qed

lemma agent_step_inv:
  assumes "agent_step e s = Some t" and "agent_inv ids s" and "set (opened_of e) \<inter> ids = {}"
  shows "agent_inv (ids \<union> set (opened_of e)) t"
proof (cases e)
  case (LFrame raw start net)
  then show ?thesis using loop_frame_inv assms by simp
qed (use assms in \<open>simp_all add: loop_insert_inv loop_type_inv loop_hangup_inv loop_say_close_inv
  loop_read_error_inv loop_kill_inv loop_return_inv reader_read_inv reader_send_inv reader_take_inv
  reader_hangup_inv reader_say_close_inv\<close>)

lemma agent_new_inv: "agent_inv {} (agent_new cfg)"
  by (simp add: agent_inv_defs unique_def agent_new_def sess_def rpc_def alive_def)

lemma agent_runs_inv:
  assumes "runs agent_step (agent_new cfg) es s" and "distinct (opened_sessions es)"
  shows "agent_inv (set (opened_sessions es)) s"
proof -
  have "runs agent_step s0 es s \<Longrightarrow> s0 = agent_new cfg \<Longrightarrow> distinct (opened_sessions es) \<Longrightarrow>
      agent_inv (set (opened_sessions es)) s" for s0
  proof (induction rule: runs.induct)
    case runs_none
    then show ?case by (simp add: opened_sessions_def agent_new_inv)
  next
    case (runs_more s es t e u)
    then have inv: "agent_inv (set (opened_sessions es)) t"
      and fresh: "set (opened_of e) \<inter> set (opened_sessions es) = {}" by auto
    from agent_step_inv [OF runs_more.hyps(2) inv fresh] show ?case by simp
  qed
  then show ?thesis using assms by blast
qed

text \<open>
  C16. No shell outlives the connection: in every run in which the broker opens no session id
  twice, once \<open>Run\<close> has returned the map is empty and every shell that was started is closed, except
  one whose own reader has taken it off the map to close it and does so with its next step, which
  nothing can prevent.
\<close>

theorem shells_closed_on_return:
  assumes "runs agent_step (agent_new cfg) es s" and "distinct (opened_sessions es)" and "ag_pc s = LDone"
  shows "ag_shells s = Map.empty \<and>
    (\<forall>n sh. ag_procs s n = Some sh \<longrightarrow> sh_open sh \<longrightarrow>
      sh_pc sh = RHangup n \<and> (\<exists>t. agent_step (RDoHangup n) s = Some t \<and> \<not> alive t n))"
proof -
  have inv: "agent_inv (set (opened_sessions es)) s" by (rule agent_runs_inv [OF assms(1,2)])
  have "sh_pc sh = RHangup n \<and> (\<exists>t. agent_step (RDoHangup n) s = Some t \<and> \<not> alive t n)"
    if sh: "ag_procs s n = Some sh" "sh_open sh" for n sh
  proof -
    have "alive s n" "sess s n = Some (sh_session sh)" "rpc s n = Some (sh_pc sh)" using sh by simp_all
    then have "sh_pc sh = RHangup n"
      using inv assms(3) unfolding agent_inv_defs by (auto simp del: view_at)
    then show ?thesis using sh(1) by (simp add: reader_hangup_def)
  qed
  moreover have "ag_shells s = Map.empty" using inv assms(3) unfolding agent_inv_defs by simp
  ultimately show ?thesis by blast
qed

end
