(* ===== verification/AgentFlow.thy ===== *)
theory AgentFlow
  imports AgentFacts
begin

text \<open>
  What flows through the device: the input typed into a shell and the output sent for it,
  and what a session id that is opened twice does.
\<close>

section \<open>Frames\<close>

definition frame :: "string \<Rightarrow> string \<Rightarrow> bytes \<Rightarrow> bytes" where
  "frame ty i d = marshal_msg (zero_msg\<lparr>msg_type := ty, msg_session := i, msg_data := d\<rparr>)"

lemma unmarshal_frame:
  assumes "ty \<in> {type_open, type_input, type_output, type_close}" and "valid_utf8 i"
  shows "unmarshal_msg (frame ty i d) = (zero_msg\<lparr>msg_type := ty, msg_session := i, msg_data := d\<rparr>, True)"
proof -
  have "wf_msg (zero_msg\<lparr>msg_type := ty, msg_session := i, msg_data := d\<rparr>)"
    using assms by (auto simp: wf_msg_def zero_msg_def msg_types ccode_def)
  then show ?thesis by (simp add: frame_def unmarshal_marshal)
qed

section \<open>Into the shell\<close>

text \<open>The input frames of a run that carry the session id \<open>i\<close>.\<close>

fun typed_of :: "string \<Rightarrow> agent_event \<Rightarrow> bytes list" where
  "typed_of i (LFrame raw start net) =
     (case unmarshal_msg raw of (m, ok) \<Rightarrow>
        if ok \<and> msg_type m = type_input \<and> msg_session m = i then [msg_data m] else [])"
| "typed_of i _ = []"

definition addressed :: "string \<Rightarrow> agent_event list \<Rightarrow> bytes list" where
  "addressed i es = concat (map (typed_of i) es)"

lemma addressed_snoc [simp]: "addressed i (es @ [e]) = addressed i es @ typed_of i e"
  by (simp add: addressed_def)

definition typed :: "agent \<Rightarrow> nat \<Rightarrow> bytes list" where
  "typed s n = (case ag_procs s n of None \<Rightarrow> [] | Some sh \<Rightarrow> sh_typed sh)"

fun pending :: "loop_pc \<Rightarrow> nat \<Rightarrow> bytes list" where
  "pending (LType n d) n' = (if n' = n then [d] else [])"
| "pending _ n' = []"

lemma typed_simps [simp]:
  "typed (set_shell n sh s) = (typed s)(n := sh_typed sh)" "typed (close_proc n s) = typed s"
  "typed (reader_goto n q s) = typed s" "typed (ag_write net m s) = typed s"
  "typed (s\<lparr>ag_pc := pc\<rparr>) = typed s" "typed (s\<lparr>ag_shells := f\<rparr>) = typed s"
  by (auto simp: typed_def fun_eq_iff split: option.split)

lemma typed_at [simp]: "ag_procs s n = Some sh \<Longrightarrow> typed s n = sh_typed sh"
  "ag_procs s n = None \<Longrightarrow> typed s n = []"
  by (simp_all add: typed_def)

text \<open>The map and the loop name shells by their own sessions, whatever ids are opened.\<close>

definition key_inv :: "agent \<Rightarrow> bool" where
  "key_inv s \<longleftrightarrow> keyed s \<and> (\<forall>i n. ag_pc s = LInsert i n \<longrightarrow> sess s n = Some i) \<and>
     (\<forall>n d. ag_pc s = LType n d \<longrightarrow> sess s n \<noteq> None)"

lemma loop_frame_key:
  assumes "loop_frame raw start net s = Some t" and "key_inv s"
  shows "key_inv t"
proof -
  obtain m ok where m: "unmarshal_msg raw = (m, ok)" by fastforce
  have pc: "ag_pc s = LRead" using assms(1) by (auto simp: loop_frame_def split: if_splits)
  have none: "sess s n = None \<Longrightarrow> ag_shells s i \<noteq> Some n" for i n
    using assms(2) by (auto simp: key_inv_def keyed_def)
  show ?thesis
    using assms m pc none
    by (auto simp: loop_frame_def Let_def take_shell_def key_inv_def keyed_def
          split: if_splits option.splits)
qed

lemma loop_key:
  "loop_insert s = Some t \<Longrightarrow> key_inv s \<Longrightarrow> key_inv t"
  "loop_hangup s = Some t \<Longrightarrow> key_inv s \<Longrightarrow> key_inv t"
  "loop_say_close net s = Some t \<Longrightarrow> key_inv s \<Longrightarrow> key_inv t"
  "loop_read_error s = Some t \<Longrightarrow> key_inv s \<Longrightarrow> key_inv t"
  "loop_kill n s = Some t \<Longrightarrow> key_inv s \<Longrightarrow> key_inv t"
  "loop_return s = Some t \<Longrightarrow> key_inv s \<Longrightarrow> key_inv t"
  by (auto simp: loop_insert_def loop_hangup_def loop_say_close_def loop_read_error_def
        loop_kill_def loop_return_def key_inv_def keyed_def split: loop_pc.splits if_splits)

lemma loop_type_key:
  assumes "loop_type w s = Some t" and "key_inv s"
  shows "key_inv t"
proof -
  obtain n d sh where n: "ag_pc s = LType n d" "ag_procs s n = Some sh"
    using assms(1) by (auto simp: loop_type_def split: loop_pc.splits option.splits)
  then show ?thesis
    using assms by (cases "w \<and> sh_open sh") (auto simp: loop_type_def key_inv_def keyed_def fun_upd_idem)
qed

lemma reader_views:
  "reader_read n d rerr s = Some t \<Longrightarrow> sess t = sess s \<and> ag_pc t = ag_pc s \<and> ag_shells t = ag_shells s \<and> typed t = typed s"
  "reader_send n net s = Some t \<Longrightarrow> sess t = sess s \<and> ag_pc t = ag_pc s \<and> ag_shells t = ag_shells s \<and> typed t = typed s"
  "reader_hangup n s = Some t \<Longrightarrow> sess t = sess s \<and> ag_pc t = ag_pc s \<and> ag_shells t = ag_shells s \<and> typed t = typed s"
  "reader_say_close n net s = Some t \<Longrightarrow> sess t = sess s \<and> ag_pc t = ag_pc s \<and> ag_shells t = ag_shells s \<and> typed t = typed s"
  by (auto simp: reader_read_def reader_send_def reader_hangup_def reader_say_close_def fun_upd_idem
        split: option.splits if_splits reader_pc.splits)

lemma reader_take_views:
  "reader_take n s = Some t \<Longrightarrow> sess t = sess s \<and> ag_pc t = ag_pc s \<and> typed t = typed s \<and>
     (\<exists>i. ag_shells t = (ag_shells s)(i := None))"
  by (auto simp: reader_take_def take_shell_def split: option.splits if_splits)

definition typed_inv :: "agent_event list \<Rightarrow> agent \<Rightarrow> bool" where
  "typed_inv es s \<longleftrightarrow> key_inv s \<and>
     (\<forall>n i. sess s n = Some i \<longrightarrow> subseq (typed s n @ pending (ag_pc s) n) (addressed i es))"

lemma typed_invD:
  "typed_inv es s \<Longrightarrow> sess s n = Some i \<Longrightarrow> subseq (typed s n @ pending (ag_pc s) n) (addressed i es)"
  by (simp only: typed_inv_def)

lemma typed_inv_same:
  assumes "typed_inv es s" and "key_inv t" and "sess t = sess s" and "typed t = typed s"
    and "pending (ag_pc t) = pending (ag_pc s)"
  shows "typed_inv (es @ [e]) t"
  using assms by (auto simp: typed_inv_def intro: list_emb_prefix)

lemma no_pending: "\<forall>n d. pc \<noteq> LType n d \<Longrightarrow> pending pc = (\<lambda>_. [])"
  by (cases pc) auto

lemma typed_inv_frame:
  assumes inv: "typed_inv es s" and step: "loop_frame raw start net s = Some t"
  shows "typed_inv (es @ [LFrame raw start net]) t"
proof -
  obtain m ok where m: "unmarshal_msg raw = (m, ok)" by fastforce
  have pc: "ag_pc s = LRead" using step by (auto simp: loop_frame_def split: if_splits)
  have key: "key_inv t" using loop_frame_key [OF step] inv by (simp add: typed_inv_def)
  have old: "subseq (typed s n) (addressed i es)" if "sess s n = Some i" for n i
    using typed_invD [OF inv that] pc by simp
  show ?thesis
  proof (cases "ok \<and> msg_type m = type_input")
    case True
    then have "msg_type m \<noteq> type_open" "msg_type m = type_input" by (auto simp: msg_types)
    then have t: "t = (case ag_shells s (msg_session m) of None \<Rightarrow> s | Some n \<Rightarrow> s\<lparr>ag_pc := LType n (msg_data m)\<rparr>)"
      using step m True pc by (simp add: loop_frame_def Let_def)
    have out: "typed_of i (LFrame raw start net) = (if msg_session m = i then [msg_data m] else [])" for i
      using m True by simp
    have "subseq (typed t n @ pending (ag_pc t) n) (addressed i es @ typed_of i (LFrame raw start net))"
      if "sess s n = Some i" for n i
    proof (cases "ag_shells s (msg_session m) = Some n")
      case True
      then have "msg_session m = i" using inv that by (simp add: typed_inv_def key_inv_def keyed_def)
      then show ?thesis using t True old [OF that] out by (simp add: list_emb_append_mono)
    next
      case False
      then have "typed t n @ pending (ag_pc t) n = typed s n"
        using t pc by (auto split: option.splits)
      then show ?thesis using old [OF that] by (simp add: list_emb_prefix)
    qed
    moreover have "sess t = sess s" by (simp add: t split: option.split)
    ultimately show ?thesis using key by (simp add: typed_inv_def)
  next
    case False
    then have "pending (ag_pc t) = (\<lambda>_. [])"
      and kept: "\<forall>n i. sess t n = Some i \<longrightarrow> typed t n = [] \<or> sess s n = Some i \<and> typed t n = typed s n"
      using step m pc by (auto simp: loop_frame_def Let_def take_shell_def fun_eq_iff split: if_splits option.splits)
    moreover have "subseq (typed t n) (addressed i es @ typed_of i (LFrame raw start net))"
      if "sess t n = Some i" for n i
    proof -
      have "subseq (typed t n) (addressed i es)" using kept [rule_format, OF that] old [of n i] by auto
      then show ?thesis by (rule list_emb_prefix)
    qed
    ultimately show ?thesis using key by (simp add: typed_inv_def)
  qed
qed

lemma typed_inv_type:
  assumes inv: "typed_inv es s" and step: "loop_type w s = Some t"
  shows "typed_inv (es @ [LDoType w]) t"
proof -
  obtain n d sh where n: "ag_pc s = LType n d" "ag_procs s n = Some sh"
    using step by (auto simp: loop_type_def split: loop_pc.splits option.splits)
  have key: "key_inv t" using loop_type_key [OF step] inv by (simp add: typed_inv_def)
  have "sess t = sess s" "ag_pc t = LRead"
    and typed: "typed t = typed s \<or> typed t = (typed s)(n := typed s n @ [d])"
    using step n by (cases "w \<and> sh_open sh"; auto simp: loop_type_def fun_upd_idem)+
  moreover have "subseq (typed t n') (addressed i es)" if "sess s n' = Some i" for n' i
    using typed_invD [OF inv that] typed n by (auto split: if_splits dest: subseq_appendD)
  ultimately show ?thesis using key by (simp add: typed_inv_def)
qed

lemma key_inv_same: "sess t = sess s \<Longrightarrow> ag_pc t = ag_pc s \<Longrightarrow> ag_shells t = ag_shells s \<or>
    (\<exists>i. ag_shells t = (ag_shells s)(i := None)) \<Longrightarrow> key_inv s \<Longrightarrow> key_inv t"
  by (auto simp: key_inv_def keyed_def split: if_splits)

lemma loop_typed:
  "loop_insert s = Some t \<Longrightarrow> sess t = sess s \<and> typed t = typed s \<and> pending (ag_pc t) = pending (ag_pc s)"
  "loop_hangup s = Some t \<Longrightarrow> sess t = sess s \<and> typed t = typed s \<and> pending (ag_pc t) = pending (ag_pc s)"
  "loop_say_close net s = Some t \<Longrightarrow> sess t = sess s \<and> typed t = typed s \<and> pending (ag_pc t) = pending (ag_pc s)"
  "loop_read_error s = Some t \<Longrightarrow> sess t = sess s \<and> typed t = typed s \<and> pending (ag_pc t) = pending (ag_pc s)"
  "loop_kill n s = Some t \<Longrightarrow> sess t = sess s \<and> typed t = typed s \<and> pending (ag_pc t) = pending (ag_pc s)"
  "loop_return s = Some t \<Longrightarrow> sess t = sess s \<and> typed t = typed s \<and> pending (ag_pc t) = pending (ag_pc s)"
  by (auto simp: loop_insert_def loop_hangup_def loop_say_close_def loop_read_error_def
        loop_kill_def loop_return_def fun_eq_iff split: loop_pc.splits if_splits)

lemma typed_inv_step:
  assumes inv: "typed_inv es s" and step: "agent_step e s = Some t"
  shows "typed_inv (es @ [e]) t"
proof -
  have key: "key_inv s" using inv by (simp add: typed_inv_def)
  have loop: "typed_inv (es @ [e]) t"
    if "key_inv t" "sess t = sess s \<and> typed t = typed s \<and> pending (ag_pc t) = pending (ag_pc s)"
    using typed_inv_same [OF inv that(1)] that(2) by blast
  have reader: "typed_inv (es @ [e]) t"
    if "sess t = sess s" "ag_pc t = ag_pc s" "typed t = typed s"
      "ag_shells t = ag_shells s \<or> (\<exists>i. ag_shells t = (ag_shells s)(i := None))"
    using loop key_inv_same [OF that(1,2,4) key] that by simp
  show ?thesis
  proof (cases e)
    case (LFrame raw start net)
    then show ?thesis using typed_inv_frame [OF inv] step by simp
  next
    case (LDoType w)
    then show ?thesis using typed_inv_type [OF inv] step by simp
  next
    case (RDoTake n)
    then show ?thesis using reader_take_views [of n s t] reader step by auto
  next
    case (RDoRead n d rerr)
    then show ?thesis using reader_views(1) [of n d rerr s t] reader step by auto
  next
    case (RDoSend n net)
    then show ?thesis using reader_views(2) [of n net s t] reader step by auto
  next
    case (RDoHangup n)
    then show ?thesis using reader_views(3) [of n s t] reader step by auto
  next
    case (RDoSayClose n net)
    then show ?thesis using reader_views(4) [of n net s t] reader step by auto
  qed (use step loop loop_key loop_typed key in \<open>simp_all\<close>)
qed

lemma typed_inv_runs: "runs agent_step (agent_new cfg) es s \<Longrightarrow> typed_inv es s"
proof -
  have "runs agent_step s0 es s \<Longrightarrow> s0 = agent_new cfg \<Longrightarrow> typed_inv es s" for s0
  proof (induction rule: runs.induct)
    case runs_none
    then show ?case
      by (simp add: typed_inv_def key_inv_def keyed_def agent_new_def sess_def)
  qed (simp add: typed_inv_step)
  then show "runs agent_step (agent_new cfg) es s \<Longrightarrow> typed_inv es s" by blast
qed

text \<open>
  Input isolation: in every reachable state, what has been typed into a shell is a
  subsequence of the input frames that carried the shell's session id, so no keystroke of
  another session reaches it and none is reordered or repeated.
\<close>

theorem typed_flow:
  assumes "runs agent_step (agent_new cfg) es s" and "ag_procs s n = Some sh"
  shows "subseq (sh_typed sh) (addressed (sh_session sh) es)"
  using typed_invD [OF typed_inv_runs [OF assms(1)], of n "sh_session sh"] assms(2)
  by (auto dest: subseq_appendD)

section \<open>Out of the shell\<close>

definition printed :: "string \<Rightarrow> agent \<Rightarrow> msg list" where
  "printed i s = List.filter (\<lambda>m. msg_type m = type_output \<and> msg_session m = i) (ag_out s)"

lemma printed_simps [simp]:
  "printed i (set_shell n sh s) = printed i s" "printed i (close_proc n s) = printed i s"
  "printed i (reader_goto n q s) = printed i s"
  "printed i (ag_write net (close_msg j) s) = printed i s"
  "printed i (ag_write net (output_msg j d) s) =
     (if net \<and> i = j then printed i s @ [output_msg j d] else printed i s)"
  "printed i (s\<lparr>ag_pc := pc\<rparr>) = printed i s" "printed i (s\<lparr>ag_shells := f\<rparr>) = printed i s"
  by (auto simp: printed_def close_msg_def output_msg_def zero_msg_def msg_types)

text \<open>
  What the reader has read and what has been sent, by the reader's place: everything while it
  reads, all but the chunk in hand while it sends, and no more than a prefix afterwards.
\<close>

definition shell_prints :: "msg list \<Rightarrow> shell \<Rightarrow> bool" where
  "shell_prints ms sh \<longleftrightarrow>
     (\<forall>d\<in>set (sh_read sh). d \<noteq> [] \<and> length d \<le> chunk_size) \<and>
     prefix ms (map (output_msg (sh_session sh)) (sh_read sh)) \<and>
     (sh_pc sh = RRead \<longrightarrow> ms = map (output_msg (sh_session sh)) (sh_read sh)) \<and>
     (\<forall>d rerr. sh_pc sh = RSend d rerr \<longrightarrow>
        map (output_msg (sh_session sh)) (sh_read sh) = ms @ [output_msg (sh_session sh) d])"

definition pview :: "shell \<Rightarrow> string \<times> bytes list \<times> reader_pc" where
  "pview sh = (sh_session sh, sh_read sh, sh_pc sh)"

definition prints_ok :: "agent \<Rightarrow> bool" where
  "prints_ok s \<longleftrightarrow> (\<forall>n sh. ag_procs s n = Some sh \<longrightarrow> shell_prints (printed (sh_session sh) s) sh) \<and>
     (\<forall>i n sh. ag_pc s = LInsert i n \<longrightarrow> ag_procs s n = Some sh \<longrightarrow> sh_read sh = [])"

lemma pview_frame [simp]:
  "map_option pview (map_option shell_close x) = map_option pview x"
  by (cases x) (simp_all add: pview_def)

lemma shell_prints_pview: "pview sh' = pview sh \<Longrightarrow> shell_prints ms sh' = shell_prints ms sh"
  by (simp add: shell_prints_def pview_def)

lemma prints_ok_same:
  assumes "prints_ok s" and "\<And>n. map_option pview (ag_procs t n) = map_option pview (ag_procs s n)"
    and "\<And>i. printed i t = printed i s" and "\<And>i n. ag_pc t = LInsert i n \<Longrightarrow> ag_pc s = LInsert i n"
  shows "prints_ok t"
proof -
  have old: "\<exists>sh. ag_procs s n = Some sh \<and> pview sh' = pview sh" if "ag_procs t n = Some sh'" for n sh'
    using assms(2) [of n] that by (cases "ag_procs s n") auto
  have "shell_prints (printed (sh_session sh') t) sh'" if sh': "ag_procs t n = Some sh'" for n sh'
  proof -
    obtain sh where "ag_procs s n = Some sh" "pview sh' = pview sh" using old [OF sh'] by blast
    moreover from this have "shell_prints (printed (sh_session sh) s) sh" "sh_session sh' = sh_session sh"
      using assms(1) by (auto simp: prints_ok_def pview_def)
    ultimately show ?thesis using shell_prints_pview [of sh' sh] assms(3) by simp
  qed
  moreover have "sh_read sh' = []" if "ag_pc t = LInsert i n" "ag_procs t n = Some sh'" for i n sh'
    using old [OF that(2)] assms(1) assms(4) [OF that(1)] by (auto simp: prints_ok_def pview_def)
  ultimately show ?thesis by (simp add: prints_ok_def)
qed

lemma loop_prints:
  "loop_hangup s = Some t \<Longrightarrow> prints_ok s \<Longrightarrow> prints_ok t"
  "loop_say_close net s = Some t \<Longrightarrow> prints_ok s \<Longrightarrow> prints_ok t"
  "loop_read_error s = Some t \<Longrightarrow> prints_ok s \<Longrightarrow> prints_ok t"
  "loop_kill n s = Some t \<Longrightarrow> prints_ok s \<Longrightarrow> prints_ok t"
  "loop_return s = Some t \<Longrightarrow> prints_ok s \<Longrightarrow> prints_ok t"
  by (rule prints_ok_same [of s t], assumption;
      auto simp: loop_hangup_def loop_say_close_def loop_read_error_def loop_kill_def loop_return_def
        split: loop_pc.splits if_splits)+

lemma loop_type_prints: "loop_type w s = Some t \<Longrightarrow> prints_ok s \<Longrightarrow> prints_ok t"
  by (rule prints_ok_same [of s t], assumption)
     (auto simp: loop_type_def pview_def split: loop_pc.splits option.splits if_splits)

lemma prints_at:
  "prints_ok s \<Longrightarrow> ag_procs s n = Some sh \<Longrightarrow> shell_prints (printed (sh_session sh) s) sh"
  by (simp add: prints_ok_def)

lemma loop_insert_prints:
  assumes "loop_insert s = Some t" and "prints_ok s"
  shows "prints_ok t"
proof -
  obtain i n where n: "ag_pc s = LInsert i n" and t: "t = reader_goto n RRead
      (s\<lparr>ag_shells := (ag_shells s)(i \<mapsto> n), ag_pc := LRead\<rparr>)"
    using assms(1) by (auto simp: loop_insert_def split: loop_pc.splits)
  have "shell_prints (printed (sh_session sh) s) (sh\<lparr>sh_pc := RRead\<rparr>)" if "ag_procs s n = Some sh" for sh
    using prints_at [OF assms(2) that] assms(2) n that by (simp add: prints_ok_def shell_prints_def)
  then show ?thesis using assms(2) by (auto simp: t prints_ok_def split: if_splits)
qed

definition print_inv :: "string set \<Rightarrow> agent \<Rightarrow> bool" where
  "print_inv ids s \<longleftrightarrow> agent_inv ids s \<and> prints_ok s \<and> (\<forall>i. i \<notin> ids \<longrightarrow> printed i s = [])"

lemma loop_frame_prints:
  assumes "loop_frame raw start net s = Some t" and "print_inv ids s"
    and "set (opened_of (LFrame raw start net)) \<inter> ids = {}"
  shows "prints_ok t" and "printed i t = printed i s"
proof -
  obtain m ok where m: "unmarshal_msg raw = (m, ok)" by fastforce
  have pc: "ag_pc s = LRead" using assms(1) by (auto simp: loop_frame_def split: if_splits)
  show "printed i t = printed i s"
    using assms(1) m by (auto simp: loop_frame_def Let_def take_shell_def split: if_splits option.splits)
  show "prints_ok t"
  proof (cases "ok \<and> msg_type m = type_open \<and> start \<noteq> None")
    case True
    then obtain n where n: "start = Some n" by blast
    then have "printed (msg_session m) s = []" "ag_procs s n = None"
      using assms m True pc by (auto simp: print_inv_def loop_frame_def Let_def split: if_splits)
    moreover have "shell_prints [] (shell_start p i)" for p i
      by (simp add: shell_prints_def)
    ultimately show ?thesis
      using assms(1,2) m n True pc
      by (auto simp: print_inv_def prints_ok_def loop_frame_def Let_def split: if_splits)
  next
    case False
    show ?thesis
      by (rule prints_ok_same [of s])
         (use assms(1,2) m False pc in \<open>auto simp: print_inv_def loop_frame_def Let_def take_shell_def
            split: if_splits option.splits\<close>)
  qed
qed

text \<open>A step of one reader, from the chunk it reads to the chunk it has sent.\<close>

lemma prints_ok_reader:
  assumes "prints_ok s" and "ag_pc t = ag_pc s" and "ag_procs t = (ag_procs s)(n \<mapsto> sh')"
    and "shell_prints (printed (sh_session sh') t) sh'"
    and "\<And>m sh. m \<noteq> n \<Longrightarrow> ag_procs s m = Some sh \<Longrightarrow> printed (sh_session sh) t = printed (sh_session sh) s"
    and "\<And>i. ag_pc s \<noteq> LInsert i n \<or> sh_read sh' = []"
  shows "prints_ok t"
  using assms unfolding prints_ok_def by (auto split: if_splits)

lemma not_inserting:
  "agent_inv ids s \<Longrightarrow> ag_procs s n = Some sh \<Longrightarrow> sh_pc sh \<noteq> RDone \<Longrightarrow> ag_pc s \<noteq> LInsert i n"
  by (auto simp: agent_inv_def inserting_def)

lemma shell_prints_quiet:
  "shell_prints ms sh \<Longrightarrow> q \<noteq> RRead \<Longrightarrow> \<forall>d e. q \<noteq> RSend d e \<Longrightarrow> shell_prints ms (sh\<lparr>sh_pc := q\<rparr>)"
  by (simp add: shell_prints_def)

lemma reader_goto_at: "ag_procs s n = Some sh \<Longrightarrow> ag_procs (reader_goto n q s) = (ag_procs s)(n \<mapsto> sh\<lparr>sh_pc := q\<rparr>)"
  by simp

lemma quiet_prints:
  assumes "prints_ok s" and "agent_inv ids s" and "ag_procs s n = Some sh" and "sh_pc sh \<noteq> RDone"
    and "q \<noteq> RRead" and "\<forall>d e. q \<noteq> RSend d e"
  shows "prints_ok (reader_goto n q s)"
  by (rule prints_ok_reader [OF assms(1) _ reader_goto_at [OF assms(3)]])
     (use shell_prints_quiet [OF prints_at [OF assms(1,3)] assms(5,6)] not_inserting [OF assms(2-4)] in auto)

lemma reader_read_prints:
  assumes "reader_read n d rerr s = Some t" and "agent_inv ids s" and "prints_ok s"
  shows "prints_ok t \<and> printed i t = printed i s"
proof -
  obtain sh where sh: "ag_procs s n = Some sh" "sh_pc sh = RRead" "length d \<le> chunk_size"
    using assms(1) by (auto simp: reader_read_def split: option.splits if_splits)
  show ?thesis
  proof (cases "d = []")
    case True
    then show ?thesis
      using assms(1) sh quiet_prints [OF assms(3,2) sh(1), of RTake] assms(3)
      by (auto simp: reader_read_def split: if_splits)
  next
    case False
    define sh' where "sh' = sh\<lparr>sh_read := sh_read sh @ [d], sh_pc := RSend d rerr\<rparr>"
    then have t: "t = set_shell n sh' s"
      using assms(1) sh False by (simp add: reader_read_def)
    have "shell_prints (printed (sh_session sh') s) sh'"
      using prints_at [OF assms(3) sh(1)] sh False by (auto simp: sh'_def shell_prints_def)
    then have "prints_ok t"
      using not_inserting [OF assms(2) sh(1)] sh
      by (intro prints_ok_reader [OF assms(3), where n = n and sh' = sh']) (auto simp: t)
    then show ?thesis by (simp add: t)
  qed
qed

lemma reader_send_prints:
  assumes "reader_send n net s = Some t" and "agent_inv ids s" and "prints_ok s"
  shows "prints_ok t \<and> (sess s n = Some i \<or> printed i t = printed i s)"
proof -
  obtain sh d rerr where sh: "ag_procs s n = Some sh" "sh_pc sh = RSend d rerr"
    using assms(1) by (auto simp: reader_send_def split: option.splits reader_pc.splits)
  define q where "q = (if \<not> net \<or> rerr then RTake else RRead)"
  have t: "t = reader_goto n q (ag_write net (output_msg (sh_session sh) d) s)"
    using assms(1) sh by (simp add: reader_send_def q_def)
  have "shell_prints (printed (sh_session sh) t) (sh\<lparr>sh_pc := q\<rparr>)"
    using prints_at [OF assms(3) sh(1)] sh(2) by (auto simp: t q_def shell_prints_def)
  moreover have "printed (sh_session sh'') t = printed (sh_session sh'') s"
    if "m \<noteq> n" "ag_procs s m = Some sh''" for m sh''
  proof -
    have "sess s m = Some (sh_session sh'')" "sess s n = Some (sh_session sh)" using that sh by simp_all
    then have "sh_session sh'' \<noteq> sh_session sh"
      using assms(2) that(1) unfolding agent_inv_def unique_def by metis
    then show ?thesis by (simp add: t)
  qed
  ultimately have "prints_ok t"
    using not_inserting [OF assms(2) sh(1)] sh(2) sh(1)
    by (intro prints_ok_reader [OF assms(3), where n = n and sh' = "sh\<lparr>sh_pc := q\<rparr>"]) (auto simp: t)
  moreover have "sess s n = Some i \<or> printed i t = printed i s"
    using sh(1) by (auto simp: t)
  ultimately show ?thesis by blast
qed

lemma quiet_prints_at:
  assumes "agent_inv ids s" and "prints_ok s" and "ag_procs s n = Some sh" and "sh_pc sh \<noteq> RDone"
    and "q \<noteq> RRead" and "\<forall>d e. q \<noteq> RSend d e"
    and "\<And>m. map_option pview (ag_procs t m) = map_option pview (ag_procs (reader_goto n q s) m)"
    and "ag_pc t = ag_pc s" and "\<And>i. printed i t = printed i s"
  shows "prints_ok t \<and> printed i t = printed i s"
  using prints_ok_same [OF quiet_prints [OF assms(2,1) assms(3-6)], of t] assms(7-9) by simp

lemma reader_take_prints:
  assumes "reader_take n s = Some t" and "agent_inv ids s" and "prints_ok s"
  shows "prints_ok t \<and> printed i t = printed i s"
proof -
  obtain sh q where "ag_procs s n = Some sh" "sh_pc sh = RTake" "q = RDone \<or> (\<exists>m. q = RHangup m)"
      "t = reader_goto n q (s\<lparr>ag_shells := (ag_shells s)(sh_session sh := None)\<rparr>)"
    using assms(1) by (auto simp: reader_take_def take_shell_def split: option.splits if_splits)
  then show ?thesis by (intro quiet_prints_at [OF assms(2,3), of n sh q]) auto
qed

lemma reader_hangup_prints:
  assumes "reader_hangup n s = Some t" and "agent_inv ids s" and "prints_ok s"
  shows "prints_ok t \<and> printed i t = printed i s"
proof -
  obtain sh m where sh: "ag_procs s n = Some sh" "sh_pc sh = RHangup m"
      "t = reader_goto n RSayClose (close_proc m s)"
    using assms(1) by (auto simp: reader_hangup_def split: option.splits reader_pc.splits)
  then show ?thesis
    by (intro quiet_prints_at [OF assms(2,3), of n sh RSayClose]) (auto simp: pview_def)
qed

lemma reader_say_close_prints:
  assumes "reader_say_close n net s = Some t" and "agent_inv ids s" and "prints_ok s"
  shows "prints_ok t \<and> printed i t = printed i s"
proof -
  obtain sh where "ag_procs s n = Some sh" "sh_pc sh = RSayClose"
      "t = reader_goto n RDone (ag_write net (close_msg (sh_session sh)) s)"
    using assms(1) by (auto simp: reader_say_close_def split: option.splits if_splits)
  then show ?thesis by (intro quiet_prints_at [OF assms(2,3), of n sh RDone]) auto
qed

lemma loop_printed:
  "loop_insert s = Some t \<Longrightarrow> printed i t = printed i s"
  "loop_type w s = Some t \<Longrightarrow> printed i t = printed i s"
  "loop_hangup s = Some t \<Longrightarrow> printed i t = printed i s"
  "loop_say_close net s = Some t \<Longrightarrow> printed i t = printed i s"
  "loop_read_error s = Some t \<Longrightarrow> printed i t = printed i s"
  "loop_kill n s = Some t \<Longrightarrow> printed i t = printed i s"
  "loop_return s = Some t \<Longrightarrow> printed i t = printed i s"
  by (auto simp: loop_insert_def loop_type_def loop_hangup_def loop_say_close_def loop_read_error_def
        loop_kill_def loop_return_def split: loop_pc.splits if_splits option.splits)

lemma print_inv_step:
  assumes inv: "print_inv ids s" and step: "agent_step e s = Some t"
    and fresh: "set (opened_of e) \<inter> ids = {}"
  shows "print_inv (ids \<union> set (opened_of e)) t"
proof -
  have ok: "agent_inv ids s" "prints_ok s" using inv by (simp_all add: print_inv_def)
  have "prints_ok t"
    using step ok loop_frame_prints(1) [OF _ inv] fresh
    by (cases e)
       (simp_all add: loop_prints loop_type_prints loop_insert_prints reader_read_prints
          reader_send_prints reader_take_prints reader_hangup_prints reader_say_close_prints)
  moreover have "printed i t = []" if "i \<notin> ids" for i
  proof -
    have "sess s n \<noteq> Some i" for n using ok(1) that by (auto simp: agent_inv_def unique_def)
    then have "printed i t = printed i s"
      using step ok loop_frame_prints(2) [OF _ inv] fresh
      by (cases e)
         (auto simp: loop_printed dest: reader_read_prints reader_send_prints reader_take_prints
            reader_hangup_prints reader_say_close_prints)
    then show ?thesis using inv that by (simp add: print_inv_def)
  qed
  ultimately show ?thesis
    using agent_step_inv [OF step ok(1) fresh] by (simp add: print_inv_def)
qed

lemma print_inv_runs:
  assumes "runs agent_step (agent_new cfg) es s" and "distinct (opened_sessions es)"
  shows "print_inv (set (opened_sessions es)) s"
proof -
  have "runs agent_step s0 es s \<Longrightarrow> s0 = agent_new cfg \<Longrightarrow> distinct (opened_sessions es) \<Longrightarrow>
      print_inv (set (opened_sessions es)) s" for s0
  proof (induction rule: runs.induct)
    case runs_none
    then show ?case
      using agent_new_inv [of cfg]
      by (simp add: opened_sessions_def print_inv_def prints_ok_def printed_def agent_new_def)
  next
    case (runs_more s es t e u)
    then have inv: "print_inv (set (opened_sessions es)) t"
      and fresh: "set (opened_of e) \<inter> set (opened_sessions es) = {}" by auto
    from print_inv_step [OF inv runs_more.hyps(2) fresh] show ?case by simp
  qed
  then show ?thesis using assms by blast
qed

text \<open>
  C24. Output: while no session id is opened twice, every chunk read from a shell has 1 to 4096
  bytes, the output frames sent for its session are a prefix of its chunks, in order and
  each once, and while its reader is reading they are all of them.
\<close>

theorem printed_flow:
  assumes "runs agent_step (agent_new cfg) es s" and "distinct (opened_sessions es)"
    and "ag_procs s n = Some sh"
  shows "(\<forall>d\<in>set (sh_read sh). 0 < length d \<and> length d \<le> 4096) \<and>
    prefix (printed (sh_session sh) s) (map (output_msg (sh_session sh)) (sh_read sh)) \<and>
    (sh_pc sh = RRead \<longrightarrow> printed (sh_session sh) s = map (output_msg (sh_session sh)) (sh_read sh))"
  using print_inv_runs [OF assms(1,2)] assms(3) prints_at [of s n sh]
  by (auto simp: print_inv_def shell_prints_def chunk_size_def)

section \<open>The end of a connection\<close>

lemma exec_kill:
  "ag_pc s = LKill (set xs) \<Longrightarrow> distinct xs \<Longrightarrow>
   \<exists>t. exec agent_step (map LDoKill xs) s = Some t \<and> ag_pc t = LKill {} \<and>
     ag_shells t = ag_shells s \<and> ag_out t = ag_out s \<and> alive t = (\<lambda>n. n \<notin> set xs \<and> alive s n)"
proof (induction xs arbitrary: s)
  case (Cons x xs)
  let ?s = "(close_proc x s)\<lparr>ag_pc := LKill (set xs)\<rparr>"
  have "agent_step (LDoKill x) s = Some ?s"
    using Cons.prems by (simp add: loop_kill_def)
  moreover have "\<exists>t. exec agent_step (map LDoKill xs) ?s = Some t \<and> ag_pc t = LKill {} \<and>
      ag_shells t = ag_shells s \<and> ag_out t = ag_out s \<and> alive t = (\<lambda>n. n \<notin> set xs \<and> alive ?s n)"
    using Cons.IH [of ?s] Cons.prems(2) by simp
  ultimately show ?case by (auto simp: fun_eq_iff)
qed (simp add: fun_eq_iff)

text \<open>
  After a read error \<open>Run\<close> returns: in whatever order \<open>closeAll\<close> visits the map, its
  steps are possible one after the other, end with the loop done and every shell of the map
  closed, and send nothing more.
\<close>

theorem close_all_returns:
  assumes "ag_pc s = LRead" and "distinct xs" and "set xs = ran (ag_shells s)"
  shows "\<exists>t. exec agent_step (LReadErr # map LDoKill xs @ [LReturn]) s = Some t \<and> ag_pc t = LDone \<and>
    ag_shells t = Map.empty \<and> (\<forall>n\<in>ran (ag_shells s). \<not> alive t n) \<and> ag_out t = ag_out s"
proof -
  let ?s = "s\<lparr>ag_shells := Map.empty, ag_pc := LKill (set xs)\<rparr>"
  have "agent_step LReadErr s = Some ?s" using assms by (simp add: loop_read_error_def)
  moreover obtain t where "exec agent_step (map LDoKill xs) ?s = Some t" "ag_pc t = LKill {}"
      "ag_shells t = Map.empty" "ag_out t = ag_out s" "alive t = (\<lambda>n. n \<notin> set xs \<and> alive ?s n)"
    using exec_kill [of ?s xs] assms(2) by auto
  ultimately show ?thesis
    using assms(3) by (simp add: exec_append loop_return_def)
qed

section \<open>A session id opened twice\<close>

text \<open>
  Opening a session id again loses the shell it had: the entry of the map is replaced,
  nothing closes the old shell, and no entry of the map names it any more.
\<close>

theorem reopened_session_leaks:
  assumes "runs agent_step (agent_new cfg) es s" and "ag_pc s = LRead" and "ag_shells s i = Some n"
    and "ag_procs s m = None" and "valid_utf8 i"
  shows "\<exists>t. exec agent_step [LFrame (frame type_open i []) (Some m) net, LDoInsert] s = Some t \<and>
    ag_pc t = LRead \<and> ag_shells t i = Some m \<and> (\<forall>j. ag_shells t j \<noteq> Some n) \<and>
    ag_procs t n = ag_procs s n"
proof -
  have "key_inv s" using typed_inv_runs [OF assms(1)] by (simp add: typed_inv_def)
  then have keys: "ag_shells s j = Some k \<Longrightarrow> sess s k = Some j" for j k
    by (simp add: key_inv_def keyed_def)
  have "sess s n = Some i" by (rule keys [OF assms(3)])
  then have "n \<noteq> m" and "ag_shells s j \<noteq> Some n" if "j \<noteq> i" for j
    using assms(4) keys [of j n] that by auto
  moreover have "n \<noteq> m" using \<open>sess s n = Some i\<close> assms(4) by auto
  moreover have "unmarshal_msg (frame type_open i []) =
      (zero_msg\<lparr>msg_type := type_open, msg_session := i, msg_data := []\<rparr>, True)"
    using unmarshal_frame assms(5) by simp
  ultimately show ?thesis
    using assms(2,4) by (simp add: loop_frame_def Let_def loop_insert_def)
qed

section \<open>A concrete run\<close>

text \<open>The broker opens a session and types into it; the shell prints one byte.\<close>

definition demo_agent_cfg :: agent_config where
  "demo_agent_cfg = \<lparr>acf_device = ''dev'', acf_name = ''n'', acf_os = ''linux'', acf_token = ''tok'', acf_shell = []\<rparr>"

definition demo_shell_run :: "agent_event list" where
  "demo_shell_run = [LFrame (frame type_open ''s1'' []) (Some 0) True, LDoInsert,
     LFrame (frame type_input ''s1'' [108]) None True, LDoType True, RDoRead 0 [36] False, RDoSend 0 True]"

lemma demo_frames [simp]:
  "ty \<in> {type_open, type_input, type_output, type_close} \<Longrightarrow> unmarshal_msg (frame ty ''s1'' d) =
     (zero_msg\<lparr>msg_type := ty, msg_session := ''s1'', msg_data := d\<rparr>, True)"
  by (rule unmarshal_frame) (simp_all add: ccode_def)

lemma demo_shell:
  "\<exists>s sh. runs agent_step (agent_new demo_agent_cfg) demo_shell_run s \<and> ag_pc s = LRead \<and>
     ag_shells s = [''s1'' \<mapsto> 0] \<and> ag_procs s = [0 \<mapsto> sh] \<and> sh_open sh \<and> sh_session sh = ''s1'' \<and>
     sh_pc sh = RRead \<and> sh_typed sh = [[108]] \<and> sh_read sh = [[36]]"
  by (simp add: runs_exec demo_shell_run_def agent_new_def loop_frame_def Let_def loop_insert_def
      loop_type_def reader_read_def reader_send_def chunk_size_def)
     (simp add: msg_types, intro exI conjI, rule refl, simp_all)

lemma demo_opened: "opened_sessions demo_shell_run = [''s1'']"
  by (simp add: opened_sessions_def demo_shell_run_def)

theorem typed_flow_witness:
  "\<exists>s sh. runs agent_step (agent_new demo_agent_cfg) demo_shell_run s \<and> ag_procs s 0 = Some sh \<and>
     sh_typed sh = [[108]] \<and> subseq (sh_typed sh) (addressed ''s1'' demo_shell_run)"
proof -
  obtain s sh where s: "runs agent_step (agent_new demo_agent_cfg) demo_shell_run s" "ag_procs s 0 = Some sh"
      and sh: "sh_session sh = ''s1''" "sh_typed sh = [[108]]"
    using demo_shell by auto
  from typed_flow [OF s] s sh show ?thesis by auto
qed

theorem printed_flow_witness:
  "\<exists>s sh. runs agent_step (agent_new demo_agent_cfg) demo_shell_run s \<and> ag_procs s 0 = Some sh \<and>
     printed ''s1'' s = [output_msg ''s1'' [36]]"
proof -
  obtain s sh where s: "runs agent_step (agent_new demo_agent_cfg) demo_shell_run s" "ag_procs s 0 = Some sh"
      and sh: "sh_session sh = ''s1''" "sh_read sh = [[36]]" "sh_pc sh = RRead"
    using demo_shell by auto
  have "distinct (opened_sessions demo_shell_run)" by (simp add: demo_opened)
  from printed_flow [OF s(1) this s(2)] s sh show ?thesis by auto
qed

theorem close_all_returns_witness:
  "\<exists>s t. runs agent_step (agent_new demo_agent_cfg) demo_shell_run s \<and>
     exec agent_step [LReadErr, LDoKill 0, LReturn] s = Some t \<and> ag_pc t = LDone \<and> \<not> alive t 0"
proof -
  obtain s where s: "runs agent_step (agent_new demo_agent_cfg) demo_shell_run s" "ag_pc s = LRead"
      "ag_shells s = [''s1'' \<mapsto> 0]"
    using demo_shell by blast
  from close_all_returns [of s "[0]"] s show ?thesis by auto
qed

theorem reopened_session_leaks_witness:
  "\<exists>s t sh. runs agent_step (agent_new demo_agent_cfg) demo_shell_run s \<and>
     exec agent_step [LFrame (frame type_open ''s1'' []) (Some 1) True, LDoInsert] s = Some t \<and>
     ag_procs t 0 = Some sh \<and> sh_open sh \<and> (\<forall>j. ag_shells t j \<noteq> Some 0)"
proof -
  obtain s sh where s: "runs agent_step (agent_new demo_agent_cfg) demo_shell_run s" "ag_pc s = LRead"
      "ag_shells s ''s1'' = Some 0" "ag_procs s 1 = None" and sh: "ag_procs s 0 = Some sh" "sh_open sh"
    using demo_shell by auto
  have "valid_utf8 ''s1''" by (simp add: ccode_def)
  from reopened_session_leaks [OF s this, of True] s sh show ?thesis by metis
qed

text \<open>The connection drops while a reader holds its shell to close it.\<close>

lemma demo_late:
  "\<exists>s sh. runs agent_step (agent_new demo_agent_cfg)
       (demo_shell_run @ [RDoRead 0 [] True, RDoTake 0, LReadErr, LReturn]) s \<and>
     ag_pc s = LDone \<and> ag_procs s 0 = Some sh \<and> sh_open sh"
proof -
  obtain s sh where s: "runs agent_step (agent_new demo_agent_cfg) demo_shell_run s" "ag_pc s = LRead"
      "ag_shells s = [''s1'' \<mapsto> 0]" "ag_procs s = [0 \<mapsto> sh]" "sh_open sh" "sh_session sh = ''s1''"
      "sh_pc sh = RRead"
    using demo_shell by blast
  then have "\<exists>t sh'. exec agent_step [RDoRead 0 [] True, RDoTake 0, LReadErr, LReturn] s = Some t \<and>
      ag_pc t = LDone \<and> ag_procs t 0 = Some sh' \<and> sh_open sh'"
    by (simp add: reader_read_def reader_take_def take_shell_def loop_read_error_def loop_return_def)
  then show ?thesis using s(1) by (auto simp: runs_exec exec_append)
qed

theorem shells_closed_on_return_witness:
  "\<exists>s sh. ag_pc s = LDone \<and> ag_procs s 0 = Some sh \<and> sh_open sh \<and> ag_shells s = Map.empty \<and>
     sh_pc sh = RHangup 0 \<and> (\<exists>t. agent_step (RDoHangup 0) s = Some t \<and> \<not> alive t 0)"
proof -
  obtain s sh where s: "runs agent_step (agent_new demo_agent_cfg)
       (demo_shell_run @ [RDoRead 0 [] True, RDoTake 0, LReadErr, LReturn]) s"
      "ag_pc s = LDone" "ag_procs s 0 = Some sh" "sh_open sh"
    using demo_late by blast
  have "opened_sessions (demo_shell_run @ [RDoRead 0 [] True, RDoTake 0, LReadErr, LReturn]) = [''s1'']"
    using demo_opened by (simp add: opened_sessions_def)
  then have "distinct (opened_sessions (demo_shell_run @ [RDoRead 0 [] True, RDoTake 0, LReadErr, LReturn]))"
    by simp
  from shells_closed_on_return [OF s(1) this s(2)] s show ?thesis by blast
qed

end
