(* ===== verification/System.thy ===== *)
theory System
  imports BrokerSent AgentFlow
begin

text \<open>
  The coordinator and one agent at work together. The connection between them delivers the
  frames of each side to the other in order (what \<open>Transport\<close> and \<open>Secure\<close> show of it), so the
  two machines are composed into one: the frame the agent reads next is the next one the
  coordinator wrote to this agent's handler, and the other way round. The other handlers of
  the coordinator, agents and browsers, do whatever they like. The theorems follow a keystroke from
  the browser into the shell and a chunk of output from the shell to the browser.
\<close>

section \<open>The composed machine\<close>

text \<open>
  Both sides, how many messages each side has read of what the other wrote, and the events
  that each side has taken.
\<close>

record system =
  sy_broker :: broker
  sy_agent :: "agent option"
  sy_down :: nat
  sy_up :: nat
  sy_bes :: "broker_event list"
  sy_aes :: "agent_event list"

definition system_new :: "string \<Rightarrow> system" where
  "system_new cloud = \<lparr>sy_broker = broker_new cloud, sy_agent = None, sy_down = 0, sy_up = 0,
     sy_bes = [], sy_aes = []\<rparr>"

text \<open>
  The events: the coordinator reads this agent's registration or its next frame, the agent reads
  the reply to the registration or the next frame of its loop, or either side takes a step that
  reads nothing from the connection between them.
\<close>

datatype system_event =
    SHello string string bool bool
  | SAck
  | SDown "nat option" bool
  | SUp
  | SBroker broker_event
  | SAgent agent_event

fun reads_agent :: "nat \<Rightarrow> broker_event \<Rightarrow> bool" where
  "reads_agent a (AHello a' raw addr pub verdict net) = (a' = a)"
| "reads_agent a (AFrame a' raw) = (a' = a)"
| "reads_agent a _ = False"

fun reads_broker :: "agent_event \<Rightarrow> bool" where
  "reads_broker (LFrame raw start net) = True"
| "reads_broker _ = False"

definition move_broker :: "broker_event \<Rightarrow> system \<Rightarrow> system option" where
  "move_broker e s =
     map_option (\<lambda>b. s\<lparr>sy_broker := b, sy_bes := sy_bes s @ [e]\<rparr>) (broker_step e (sy_broker s))"

definition move_agent :: "agent_event \<Rightarrow> system \<Rightarrow> system option" where
  "move_agent e s =
     (case sy_agent s of
        None \<Rightarrow> None
      | Some g \<Rightarrow> map_option (\<lambda>g. s\<lparr>sy_agent := Some g, sy_aes := sy_aes s @ [e]\<rparr>) (agent_step e g))"

text \<open>\<open>a\<close> is the handler of this agent's connection, \<open>cfg\<close> the agent's configuration.\<close>

fun system_step :: "nat \<Rightarrow> agent_config \<Rightarrow> system_event \<Rightarrow> system \<Rightarrow> system option" where
  "system_step a cfg (SHello addr pub verdict net) s =
     move_broker (AHello a (marshal_msg (register_msg cfg)) addr pub verdict net) s"
| "system_step a cfg SAck s =
     (if sy_down s = 0 \<and> out_to (sy_broker s) a \<noteq> [] then
        Some (s\<lparr>sy_down := 1, sy_agent :=
          (if agent_register True True True (Some (marshal_msg (hd (out_to (sy_broker s) a)))) = None
           then Some (agent_new cfg) else None)\<rparr>)
      else None)"
| "system_step a cfg (SDown start net) s =
     (if 0 < sy_down s \<and> sy_down s < length (out_to (sy_broker s) a) then
        map_option (\<lambda>t. t\<lparr>sy_down := Suc (sy_down s)\<rparr>)
          (move_agent (LFrame (marshal_msg (out_to (sy_broker s) a ! sy_down s)) start net) s)
      else None)"
| "system_step a cfg SUp s =
     (case sy_agent s of
        None \<Rightarrow> None
      | Some g \<Rightarrow>
          if sy_up s < length (ag_out g) then
            map_option (\<lambda>t. t\<lparr>sy_up := Suc (sy_up s)\<rparr>) (move_broker (AFrame a (marshal_msg (ag_out g ! sy_up s))) s)
          else None)"
| "system_step a cfg (SBroker e) s = (if reads_agent a e then None else move_broker e s)"
| "system_step a cfg (SAgent e) s = (if reads_broker e then None else move_agent e s)"

section \<open>What each side has read\<close>

fun frame_down :: "agent_event \<Rightarrow> bytes list" where
  "frame_down (LFrame raw start net) = [raw]"
| "frame_down _ = []"

fun frame_up :: "nat \<Rightarrow> broker_event \<Rightarrow> bytes list" where
  "frame_up a (AFrame a' raw) = (if a' = a then [raw] else [])"
| "frame_up a _ = []"

definition frames_down :: "agent_event list \<Rightarrow> bytes list" where
  "frames_down es = concat (map frame_down es)"

definition frames_up :: "nat \<Rightarrow> broker_event list \<Rightarrow> bytes list" where
  "frames_up a es = concat (map (frame_up a) es)"

lemma frames_simps [simp]:
  "frames_down [] = []" "frames_up a [] = []"
  "frames_down (es @ [e]) = frames_down es @ frame_down e" "frames_up a (fs @ [f]) = frames_up a fs @ frame_up a f"
  by (simp_all add: frames_down_def frames_up_def)

lemma frame_down_none: "\<not> reads_broker e \<Longrightarrow> frame_down e = []"
  by (cases e) auto

lemma frame_up_none: "\<not> reads_agent a e \<Longrightarrow> frame_up a e = []"
  by (cases e) auto

definition agent_said :: "system \<Rightarrow> msg list" where
  "agent_said s = (case sy_agent s of None \<Rightarrow> [] | Some g \<Rightarrow> ag_out g)"

definition system_ok :: "nat \<Rightarrow> agent_config \<Rightarrow> string \<Rightarrow> system \<Rightarrow> bool" where
  "system_ok a cfg cloud s \<longleftrightarrow>
     runs broker_step (broker_new cloud) (sy_bes s) (sy_broker s) \<and>
     (case sy_agent s of None \<Rightarrow> sy_aes s = []
      | Some g \<Rightarrow> runs agent_step (agent_new cfg) (sy_aes s) g \<and> 0 < sy_down s \<and>
          agent_register True True True (Some (marshal_msg (hd (out_to (sy_broker s) a)))) = None) \<and>
     sy_down s \<le> length (out_to (sy_broker s) a) \<and> sy_up s \<le> length (agent_said s) \<and>
     frames_down (sy_aes s) = map marshal_msg (drop 1 (take (sy_down s) (out_to (sy_broker s) a))) \<and>
     frames_up a (sy_bes s) = map marshal_msg (take (sy_up s) (agent_said s)) \<and>
     (\<forall>ca. bk_actl (sy_broker s) a = Some ca \<longrightarrow> ac_device ca \<noteq> [] \<longrightarrow>
        hello_msg (marshal_msg (register_msg cfg)) \<noteq> None \<and>
        ac_device ca = msg_device (the (hello_msg (marshal_msg (register_msg cfg)))))"

lemma agent_out_step:
  "agent_step e g = Some g' \<Longrightarrow> ag_out g' = ag_out g \<or> (\<exists>m. ag_out g' = ag_out g @ [m])"
  by (cases e) (auto simp: loop_frame_def loop_insert_def loop_type_def loop_hangup_def loop_say_close_def
      loop_read_error_def loop_kill_def loop_return_def reader_read_def reader_send_def reader_take_def
      reader_hangup_def reader_say_close_def take_shell_def Let_def case_prod_beta
      split: if_splits option.splits loop_pc.splits reader_pc.splits)

text \<open>A handler's device is the one its registration named.\<close>

lemma device_step:
  assumes "broker_step e s = Some t" and "bk_actl t a = Some ca"
  shows "(\<exists>c. bk_actl s a = Some c \<and> ac_device c = ac_device ca) \<or>
    (\<exists>raw addr pub verdict net. e = AHello a raw addr pub verdict net \<and>
      (ac_device ca = [] \<or> (\<exists>m. hello_msg raw = Some m \<and> ac_device ca = msg_device m)))"
proof (cases "bk_actl s a")
  case None
  then show ?thesis
    using assms by (cases e) (auto simp: agent_segments browser_segments take_session_def case_prod_beta Let_def
        split: option.splits if_splits agent_pc.splits browser_pc.splits)
next
  case (Some c)
  have "\<exists>p. map_option agent_entry (bk_actl t a) = Some (ac_device c, p)"
    using proto_device [OF broker_step_proto [OF assms(1)], of a "ac_device c" "agent_phase_of (ac_pc c)"] Some
    by (simp add: agent_entry_def)
  then show ?thesis using assms(2) Some by (simp add: agent_entry_def)
qed

lemma move_broker_ok:
  assumes ok: "system_ok a cfg cloud s" and move: "move_broker e s = Some t"
    and k: "sy_up s + k \<le> length (agent_said s)"
    and up: "frame_up a e = map marshal_msg (take k (drop (sy_up s) (agent_said s)))"
    and hello: "\<And>raw addr pub verdict net. e = AHello a raw addr pub verdict net \<Longrightarrow>
      raw = marshal_msg (register_msg cfg)"
  shows "system_ok a cfg cloud (t\<lparr>sy_up := sy_up s + k\<rparr>)"
proof -
  obtain b where b: "broker_step e (sy_broker s) = Some b" "t = s\<lparr>sy_broker := b, sy_bes := sy_bes s @ [e]\<rparr>"
    using move by (auto simp: move_broker_def)
  have out: "out_to b a = out_to (sy_broker s) a \<or> (\<exists>m. out_to b a = out_to (sy_broker s) a @ [m])"
    using out_step [OF b(1), of a] by blast
  have run: "runs broker_step (broker_new cloud) (sy_bes s) (sy_broker s)"
    and dev: "\<And>ca. bk_actl (sy_broker s) a = Some ca \<Longrightarrow> ac_device ca \<noteq> [] \<Longrightarrow>
        hello_msg (marshal_msg (register_msg cfg)) \<noteq> None \<and>
        ac_device ca = msg_device (the (hello_msg (marshal_msg (register_msg cfg))))"
    using ok by (simp_all add: system_ok_def)
  have "hello_msg (marshal_msg (register_msg cfg)) \<noteq> None \<and>
        ac_device ca = msg_device (the (hello_msg (marshal_msg (register_msg cfg))))"
    if "bk_actl b a = Some ca" "ac_device ca \<noteq> []" for ca
    using device_step [OF b(1) that(1)] dev hello that(2) by auto
  moreover have "agent_said (t\<lparr>sy_up := sy_up s + k\<rparr>) = agent_said s"
    by (simp add: b agent_said_def)
  ultimately show ?thesis
    using ok out runs_more [OF run b(1)] k up
    by (auto simp: system_ok_def b take_add hd_append split: option.splits)
qed

lemma move_agent_ok:
  assumes ok: "system_ok a cfg cloud s" and move: "move_agent e s = Some t"
    and k: "sy_down s + k \<le> length (out_to (sy_broker s) a)"
    and down: "frame_down e = map marshal_msg (take k (drop (sy_down s) (out_to (sy_broker s) a)))"
  shows "system_ok a cfg cloud (t\<lparr>sy_down := sy_down s + k\<rparr>)"
proof -
  obtain g g' where g: "sy_agent s = Some g" "agent_step e g = Some g'"
      "t = s\<lparr>sy_agent := Some g', sy_aes := sy_aes s @ [e]\<rparr>"
    using move by (auto simp: move_agent_def split: option.splits)
  have run: "runs agent_step (agent_new cfg) (sy_aes s) g" and "0 < sy_down s"
    using ok g(1) by (simp_all add: system_ok_def)
  moreover have "agent_said t = agent_said s \<or> (\<exists>m. agent_said t = agent_said s @ [m])"
    using agent_out_step [OF g(2)] g(1,3) by (simp add: agent_said_def)
  moreover have "agent_said (t\<lparr>sy_down := sy_down s + k\<rparr>) = agent_said t" by (simp add: agent_said_def)
  ultimately show ?thesis
    using ok g runs_more [OF run g(2)] k down
    by (auto simp: system_ok_def take_add)
qed

lemma system_ok_reads: "system_ok a cfg cloud s \<Longrightarrow> sy_up s \<le> length (agent_said s) \<and>
    sy_down s \<le> length (out_to (sy_broker s) a)"
  by (simp add: system_ok_def)

lemma move_broker_idle:
  assumes "system_ok a cfg cloud s" and "move_broker e s = Some t" and "frame_up a e = []"
    and "\<And>raw addr pub verdict net. e = AHello a raw addr pub verdict net \<Longrightarrow> raw = marshal_msg (register_msg cfg)"
  shows "system_ok a cfg cloud t"
proof -
  have "t\<lparr>sy_up := sy_up s + 0\<rparr> = t" using assms(2) by (auto simp: move_broker_def)
  then show ?thesis
    using move_broker_ok [OF assms(1,2), of 0] assms(3,4) system_ok_reads [OF assms(1)] by simp
qed

lemma move_agent_idle:
  assumes "system_ok a cfg cloud s" and "move_agent e s = Some t" and "frame_down e = []"
  shows "system_ok a cfg cloud t"
proof -
  have "t\<lparr>sy_down := sy_down s + 0\<rparr> = t"
    using assms(2) by (auto simp: move_agent_def split: option.splits)
  then show ?thesis
    using move_agent_ok [OF assms(1,2), of 0] assms(3) system_ok_reads [OF assms(1)] by simp
qed

lemma take_next: "n < length xs \<Longrightarrow> take (Suc 0) (drop n xs) = [xs ! n]"
  by (simp add: take_Suc_conv_app_nth)

lemma system_step_ok:
  assumes ok: "system_ok a cfg cloud s" and step: "system_step a cfg e s = Some t"
  shows "system_ok a cfg cloud t"
proof (cases e)
  case (SHello addr pub verdict net)
  show ?thesis
    by (rule move_broker_idle [OF ok, of "AHello a (marshal_msg (register_msg cfg)) addr pub verdict net"])
       (use SHello step in simp_all)
next
  case SAck
  then have s: "sy_down s = 0" "0 < length (out_to (sy_broker s) a)"
    using step by (auto split: if_splits)
  then have "sy_agent s = None" using ok by (auto simp: system_ok_def split: option.splits)
  then show ?thesis
    using ok SAck step s by (auto simp: system_ok_def agent_said_def runs_none take_Suc Suc_le_eq)
next
  case (SDown start net)
  let ?n = "sy_down s" and ?raw = "marshal_msg (out_to (sy_broker s) a ! sy_down s)"
  obtain u where u: "?n < length (out_to (sy_broker s) a)" "move_agent (LFrame ?raw start net) s = Some u"
      "t = u\<lparr>sy_down := Suc ?n\<rparr>"
    using SDown step by (auto split: if_splits)
  then show ?thesis using move_agent_ok [OF ok u(2), of 1] by (simp add: take_next)
next
  case SUp
  obtain g where g: "sy_agent s = Some g" using SUp step by (auto split: option.splits)
  let ?n = "sy_up s" and ?raw = "marshal_msg (ag_out g ! sy_up s)"
  obtain u where u: "?n < length (ag_out g)" "move_broker (AFrame a ?raw) s = Some u" "t = u\<lparr>sy_up := Suc ?n\<rparr>"
    using SUp step g by (auto split: if_splits)
  then show ?thesis using move_broker_ok [OF ok u(2), of 1] by (simp add: take_next agent_said_def g)
next
  case (SBroker e')
  then have "move_broker e' s = Some t" "\<not> reads_agent a e'" using step by (auto split: if_splits)
  then show ?thesis by (intro move_broker_idle [OF ok]) (auto simp: frame_up_none)
next
  case (SAgent e')
  then have "move_agent e' s = Some t" "\<not> reads_broker e'" using step by (auto split: if_splits)
  then show ?thesis by (intro move_agent_idle [OF ok]) (auto simp: frame_down_none)
qed

lemma system_new_ok: "system_ok a cfg cloud (system_new cloud)"
  by (simp add: system_ok_def system_new_def runs_none agent_said_def broker_new_def)

interpretation system: machine "system_step a cfg" "system_ok a cfg cloud" for a cfg cloud
  by unfold_locales (rule system_step_ok)

lemma system_runs_ok: "runs (system_step a cfg) (system_new cloud) es s \<Longrightarrow> system_ok a cfg cloud s"
  by (erule system.ok_runs) (rule system_new_ok)

section \<open>Frames and the histories of both sides\<close>

lemma concat_frames:
  "(\<And>e. f e = concat (map h (g e))) \<Longrightarrow> concat (map f es) = concat (map h (concat (map g es)))"
  by (induction es) simp_all

definition decoded :: "(msg \<Rightarrow> bool) \<Rightarrow> (msg \<Rightarrow> 'a) \<Rightarrow> bytes \<Rightarrow> 'a list" where
  "decoded P f raw = (case unmarshal_msg raw of (m, ok) \<Rightarrow> if ok \<and> P m then [f m] else [])"

lemma decoded_frames:
  "\<forall>m\<in>set ms. unmarshal_msg (marshal_msg m) = (m, True) \<Longrightarrow>
   concat (map (decoded P f) (map marshal_msg ms)) = map f (List.filter P ms)"
  by (induction ms) (auto simp: decoded_def)

lemma addressed_frames:
  "addressed i es = concat (map (decoded (\<lambda>m. msg_type m = type_input \<and> msg_session m = i) msg_data) (frames_down es))"
proof -
  have "typed_of i e = concat (map (decoded (\<lambda>m. msg_type m = type_input \<and> msg_session m = i) msg_data) (frame_down e))" for e
    by (cases e) (auto simp: decoded_def split: prod.split)
  then show ?thesis unfolding addressed_def frames_down_def by (rule concat_frames)
qed

lemma opened_frames:
  "subseq (opened_sessions es) (concat (map (decoded (\<lambda>m. msg_type m = type_open) msg_session) (frames_down es)))"
proof (induction es rule: rev_induct)
  case (snoc e es)
  have "subseq (opened_of e) (concat (map (decoded (\<lambda>m. msg_type m = type_open) msg_session) (frame_down e)))"
  proof (cases e)
    case (LFrame raw start net)
    then show ?thesis by (cases start) (auto simp: decoded_def split: prod.split)
  qed simp_all
  then show ?case using snoc by (simp add: list_emb_append_mono)
qed (simp add: opened_sessions_def)

lemma outputs_frames:
  assumes "only_from a i es"
  shows "outputs i es = concat (map (decoded (\<lambda>m. msg_type m = type_output \<and> msg_session m = i) msg_data) (frames_up a es))"
  using assms
proof (induction es rule: rev_induct)
  case (snoc e es)
  have "output_of i e = concat (map (decoded (\<lambda>m. msg_type m = type_output \<and> msg_session m = i) msg_data) (frame_up a e))"
  proof (cases e)
    case (AFrame a' raw)
    then show ?thesis
      using snoc.prems unfolding only_from_def by (auto simp: decoded_def split: prod.split if_splits)
  qed simp_all
  then show ?case using snoc by (simp add: only_from_def)
qed (simp add: outputs_def)

section \<open>The agent answers only about sessions it was told of\<close>

definition answer :: "string set \<Rightarrow> msg \<Rightarrow> bool" where
  "answer ids m \<longleftrightarrow> (\<exists>i\<in>ids. m = close_msg i \<or> (\<exists>d. m = output_msg i d))"

fun place_ids :: "loop_pc \<Rightarrow> string set" where
  "place_ids (LInsert i n) = {i}"
| "place_ids (LHangup i n) = {i}"
| "place_ids (LSayClose i) = {i}"
| "place_ids _ = {}"

definition within :: "string set \<Rightarrow> agent \<Rightarrow> bool" where
  "within ids g \<longleftrightarrow> (\<forall>m\<in>set (ag_out g). answer ids m) \<and> (\<forall>n i. sess g n = Some i \<longrightarrow> i \<in> ids) \<and>
     place_ids (ag_pc g) \<subseteq> ids"

lemma answer_msgs [simp]: "i \<in> ids \<Longrightarrow> answer ids (close_msg i)" "i \<in> ids \<Longrightarrow> answer ids (output_msg i d)"
  by (auto simp: answer_def)

definition frames_within :: "string set \<Rightarrow> bytes list \<Rightarrow> bool" where
  "frames_within ids raws \<longleftrightarrow> (\<forall>raw\<in>set raws. \<forall>m. unmarshal_msg raw = (m, True) \<longrightarrow>
     msg_type m = type_open \<or> msg_type m = type_close \<longrightarrow> msg_session m \<in> ids)"

lemma within_session: "within ids g \<Longrightarrow> ag_procs g n = Some sh \<Longrightarrow> sh_session sh \<in> ids"
  using view_at unfolding within_def by metis

lemma within_same:
  assumes "within ids g" and "sess t = sess g" and "ag_pc t = ag_pc g \<or> ag_pc t = LRead"
    and "ag_out t = ag_out g \<or> (\<exists>m. answer ids m \<and> ag_out t = ag_out g @ [m])"
  shows "within ids t"
  using assms by (auto simp: within_def)

lemma loop_within:
  "loop_insert g = Some t \<Longrightarrow> within ids g \<Longrightarrow> within ids t"
  "loop_hangup g = Some t \<Longrightarrow> within ids g \<Longrightarrow> within ids t"
  "loop_say_close net g = Some t \<Longrightarrow> within ids g \<Longrightarrow> within ids t"
  "loop_read_error g = Some t \<Longrightarrow> within ids g \<Longrightarrow> within ids t"
  "loop_kill n g = Some t \<Longrightarrow> within ids g \<Longrightarrow> within ids t"
  "loop_return g = Some t \<Longrightarrow> within ids g \<Longrightarrow> within ids t"
  by (auto simp: loop_insert_def loop_hangup_def loop_say_close_def loop_read_error_def
        loop_kill_def loop_return_def within_def split: loop_pc.splits if_splits)

lemma type_within:
  assumes "loop_type w g = Some t" and "within ids g"
  shows "within ids t"
proof -
  obtain n d sh where "ag_pc g = LType n d" "ag_procs g n = Some sh"
    using assms(1) by (auto simp: loop_type_def split: loop_pc.splits option.splits)
  then have "sess t = sess g" "ag_pc t = LRead" "ag_out t = ag_out g"
    using assms(1) by (cases "w \<and> sh_open sh"; auto simp: loop_type_def fun_upd_idem)+
  then show ?thesis using within_same [OF assms(2)] by simp
qed

lemma reader_out:
  "reader_read n d rerr g = Some t \<Longrightarrow> ag_out t = ag_out g"
  "reader_take n g = Some t \<Longrightarrow> ag_out t = ag_out g"
  "reader_hangup n g = Some t \<Longrightarrow> ag_out t = ag_out g"
  by (auto simp: reader_read_def reader_take_def reader_hangup_def take_shell_def
      split: option.splits if_splits reader_pc.splits)

lemma reader_sends:
  "reader_send n net g = Some t \<Longrightarrow> \<exists>sh d. ag_procs g n = Some sh \<and>
     (ag_out t = ag_out g \<or> ag_out t = ag_out g @ [output_msg (sh_session sh) d])"
  "reader_say_close n net g = Some t \<Longrightarrow> \<exists>sh. ag_procs g n = Some sh \<and>
     (ag_out t = ag_out g \<or> ag_out t = ag_out g @ [close_msg (sh_session sh)])"
  by (auto simp: reader_send_def reader_say_close_def split: option.splits if_splits reader_pc.splits)

lemma reader_within:
  "reader_read n d rerr g = Some t \<Longrightarrow> within ids g \<Longrightarrow> within ids t"
  "reader_take n g = Some t \<Longrightarrow> within ids g \<Longrightarrow> within ids t"
  "reader_hangup n g = Some t \<Longrightarrow> within ids g \<Longrightarrow> within ids t"
  by (rule within_same, assumption; simp add: reader_views reader_take_views reader_out)+

lemma reader_sends_within:
  "reader_send n net g = Some t \<Longrightarrow> within ids g \<Longrightarrow> within ids t"
  "reader_say_close n net g = Some t \<Longrightarrow> within ids g \<Longrightarrow> within ids t"
proof -
  show "reader_send n net g = Some t \<Longrightarrow> within ids g \<Longrightarrow> within ids t"
    using reader_sends(1) [of n net g t] within_session [of ids g n]
    by (intro within_same [of ids g t]) (auto simp: reader_views)
  show "reader_say_close n net g = Some t \<Longrightarrow> within ids g \<Longrightarrow> within ids t"
    using reader_sends(2) [of n net g t] within_session [of ids g n]
    by (intro within_same [of ids g t]) (auto simp: reader_views)
qed

lemma frame_within:
  assumes "loop_frame raw start net g = Some t" and "within ids g" and "frames_within ids [raw]"
  shows "within ids t"
proof -
  obtain m ok where "unmarshal_msg raw = (m, ok)" by fastforce
  then show ?thesis
    using assms by (auto simp: loop_frame_def Let_def take_shell_def within_def frames_within_def
      split: if_splits option.splits)
qed

lemma within_runs:
  assumes "runs agent_step (agent_new cfg) es g" and "frames_within ids (frames_down es)"
  shows "within ids g"
proof -
  have "runs agent_step g0 es g \<Longrightarrow> g0 = agent_new cfg \<Longrightarrow> frames_within ids (frames_down es) \<Longrightarrow> within ids g" for g0
  proof (induction rule: runs.induct)
    case runs_none
    then show ?case by (simp add: within_def agent_new_def sess_def)
  next
    case (runs_more s es t e u)
    then have "within ids t" "frames_within ids (frame_down e)" by (auto simp: frames_within_def)
    then show ?case
      using runs_more.hyps(2) by (cases e) (auto intro: loop_within type_within reader_within reader_sends_within frame_within)
  qed
  then show ?thesis using assms by blast
qed

section \<open>The owner of a session\<close>

text \<open>
  The random ids do not repeat: \<open>newID\<close> drew some bytes, and no two browser handlers drew the
  same.
\<close>

definition fresh_ids :: "broker_event list \<Rightarrow> bool" where
  "fresh_ids es \<longleftrightarrow> (\<forall>b rnd. BUpgrade b True rnd \<in> set es \<longrightarrow> rnd \<noteq> []) \<and>
     (\<forall>b b' rnd. BUpgrade b True rnd \<in> set es \<longrightarrow> BUpgrade b' True rnd \<in> set es \<longrightarrow> b = b')"

lemma new_id_inject: "new_id x = new_id y \<Longrightarrow> x = y"
  unfolding new_id_def by (metis hex_decode_encode option.inject)

lemma fresh_drawn:
  assumes "fresh_ids es" and "drawn es i"
  shows "i \<noteq> [] \<and> (\<exists>b rnd. BUpgrade b True rnd \<in> set es \<and> i = new_id rnd \<and> drawn_for b i es)"
proof -
  obtain b rnd where b: "BUpgrade b True rnd \<in> set es" "i = new_id rnd"
    using assms(2) by (auto simp: drawn_def)
  moreover have "rnd \<noteq> []" using assms(1) b(1) by (auto simp: fresh_ids_def)
  then have "i \<noteq> []" using length_hex_encode [of rnd] by (auto simp: b(2) new_id_def simp del: length_hex_encode)
  moreover have "drawn_for b i es"
    using assms(1) b new_id_inject unfolding drawn_for_def fresh_ids_def by metis
  ultimately show ?thesis by blast
qed

text \<open>A frame written to agent \<open>a\<close> for a session is one of its browser's, which asked for this agent.\<close>

lemma session_owned:
  assumes "runs broker_step (broker_new cloud) es s" and "fresh_ids es"
    and "m \<in> set (out_to s a)" and "msg_type m \<in> {type_open, type_input, type_close}" and "msg_session m = i"
  shows "\<exists>b c os xs ys. bk_bctl s b = Some c \<and> bc_session c = i \<and> bc_agent c = a \<and>
    List.filter (\<lambda>m. msg_session m = i) (out_to s a) = os @ map (session_msg type_input i) xs @ ys \<and>
    (os = [] \<or> os = [session_msg type_open i []]) \<and> prefix xs (inputs b es) \<and>
    (\<forall>m\<in>set ys. m = session_msg type_close i []) \<and> i \<noteq> [] \<and> drawn_for b i es"
proof -
  have "broker_msg es m" using said_inv_runs [OF assms(1)] assms(3) by (simp add: said_inv_def)
  then have "drawn es i"
    using assms(4,5) by (auto simp: broker_msg_def session_msg_def error_msg_def confirmation_def zero_msg_def msg_types)
  then obtain b rnd where b: "BUpgrade b True rnd \<in> set es" "i = new_id rnd" "drawn_for b i es" and i: "i \<noteq> []"
    using fresh_drawn [OF assms(2)] by blast
  then obtain c where c: "bk_bctl s b = Some c" "bc_session c = i"
    using upgraded_runs [OF assms(1)] unfolding upgraded_def by blast
  have "m \<in> set (sent i s a)" using assms(3,5) by (simp add: sent_out_to)
  moreover obtain os xs ys where shape: "sent i s = (\<lambda>_. [])(bc_agent c := os @ map (session_msg type_input i) xs @ ys)"
      "os = [] \<or> os = [session_msg type_open i []]" "prefix xs (inputs b es)" "\<forall>m\<in>set ys. m = session_msg type_close i []"
    using sent_shape_runs [OF assms(1) b(3) i] c unfolding sent_shape_def by metis
  ultimately have "bc_agent c = a" by (auto split: if_splits)
  then show ?thesis using c shape i b(3) sent_out_to [of i s a] by (intro exI conjI) auto
qed

lemma filter_session_msg:
  "List.filter (\<lambda>m. msg_type m = ty) (map (session_msg ty' i) xs) = (if ty' = ty then map (session_msg ty' i) xs else [])"
  by (induction xs) (auto simp: session_msg_def)

lemma distinct_by_count:
  "(\<And>j. length (List.filter (\<lambda>x. f x = j) xs) \<le> 1) \<Longrightarrow> distinct (map f xs)"
proof (induction xs)
  case (Cons x xs)
  have "length (List.filter (\<lambda>y. f y = j) xs) \<le> 1" for j using Cons.prems [of j] by (auto split: if_splits)
  moreover have "List.filter (\<lambda>y. f y = f x) xs = []" using Cons.prems [of "f x"] by simp
  then have "f x \<notin> f ` set xs" by (auto simp: filter_empty_conv)
  ultimately show ?case using Cons.IH by simp
qed simp

lemma opened_once:
  assumes "runs broker_step (broker_new cloud) es s" and "fresh_ids es"
  shows "distinct (map msg_session (List.filter (\<lambda>m. msg_type m = type_open) (out_to s a)))"
proof (rule distinct_by_count)
  fix j
  let ?fs = "List.filter (\<lambda>m. msg_session m = j) (List.filter (\<lambda>m. msg_type m = type_open) (out_to s a))"
  have fs: "?fs = List.filter (\<lambda>m. msg_type m = type_open) (List.filter (\<lambda>m. msg_session m = j) (out_to s a))"
    by (simp add: conj_commute)
  show "length ?fs \<le> 1"
  proof (cases "?fs = []")
    case False
    then obtain m where "m \<in> set ?fs" by (meson list.set_sel(1))
    then obtain os xs ys where
        "List.filter (\<lambda>m. msg_session m = j) (out_to s a) = os @ map (session_msg type_input j) xs @ ys"
        and os: "os = [] \<or> os = [session_msg type_open j []]" and ys: "\<forall>m\<in>set ys. m = session_msg type_close j []"
      using session_owned [OF assms, of m a j] by auto
    moreover have "List.filter (\<lambda>m. msg_type m = type_open) ys = []"
      using ys by (auto simp: filter_empty_conv session_msg_def msg_types)
    ultimately show ?thesis
      unfolding fs using os by (auto simp: filter_session_msg msg_types simp del: filter_filter)
  qed simp
qed

section \<open>From the browser to the shell and back\<close>

text \<open>The messages the agent has read after the reply to its registration.\<close>

definition received :: "nat \<Rightarrow> system \<Rightarrow> msg list" where
  "received a s = drop 1 (take (sy_down s) (out_to (sy_broker s) a))"

lemma received_subseq: "subseq (received a s) (out_to (sy_broker s) a)"
proof -
  have "subseq (received a s) (take (sy_down s) (out_to (sy_broker s) a))"
    unfolding received_def by (rule suffix_imp_subseq) (rule suffix_drop)
  moreover have "subseq (take (sy_down s) (out_to (sy_broker s) a)) (out_to (sy_broker s) a)"
    by (rule prefix_imp_subseq) (rule take_is_prefix)
  ultimately show ?thesis by (rule subseq_order.order_trans)
qed

lemma system_facts:
  assumes "runs (system_step a cfg) (system_new cloud) es s" and "sy_agent s = Some g"
  shows "runs broker_step (broker_new cloud) (sy_bes s) (sy_broker s)"
    and "runs agent_step (agent_new cfg) (sy_aes s) g"
    and "frames_down (sy_aes s) = map marshal_msg (received a s)"
    and "frames_up a (sy_bes s) = map marshal_msg (take (sy_up s) (ag_out g))"
    and "m \<in> set (received a s) \<Longrightarrow> broker_msg (sy_bes s) m \<and> unmarshal_msg (marshal_msg m) = (m, True)"
proof -
  have ok: "system_ok a cfg cloud s" by (rule system_runs_ok [OF assms(1)])
  then show run: "runs broker_step (broker_new cloud) (sy_bes s) (sy_broker s)"
    and "runs agent_step (agent_new cfg) (sy_aes s) g"
    and "frames_down (sy_aes s) = map marshal_msg (received a s)"
    and "frames_up a (sy_bes s) = map marshal_msg (take (sy_up s) (ag_out g))"
    using assms(2) by (simp_all add: system_ok_def agent_said_def received_def)
  assume "m \<in> set (received a s)"
  then have m: "m \<in> set (out_to (sy_broker s) a)"
    using received_subseq [of a s] by (meson subseq_order.dual_order.trans subseq_singleton_left)
  then show "broker_msg (sy_bes s) m \<and> unmarshal_msg (marshal_msg m) = (m, True)"
    using said_inv_runs [OF run] out_wf [OF run m] by (simp add: said_inv_def)
qed

text \<open>So the agent is never told to open a session twice.\<close>

lemma system_opened_once:
  assumes "runs (system_step a cfg) (system_new cloud) es s" and "sy_agent s = Some g" and "fresh_ids (sy_bes s)"
  shows "distinct (opened_sessions (sy_aes s)) \<and>
    set (opened_sessions (sy_aes s)) \<subseteq> msg_session ` {m \<in> set (received a s). msg_type m = type_open}"
proof -
  note facts = system_facts [OF assms(1,2)]
  let ?os = "map msg_session (List.filter (\<lambda>m. msg_type m = type_open) (received a s))"
  have "concat (map (decoded (\<lambda>m. msg_type m = type_open) msg_session) (frames_down (sy_aes s))) = ?os"
    unfolding facts(3) by (rule decoded_frames) (use facts(5) in blast)
  then have sub: "subseq (opened_sessions (sy_aes s)) ?os" using opened_frames [of "sy_aes s"] by simp
  have "subseq ?os (map msg_session (List.filter (\<lambda>m. msg_type m = type_open) (out_to (sy_broker s) a)))"
    by (intro subseq_map subseq_filter received_subseq)
  from subseq_order.order_trans [OF sub this]
  have "distinct (opened_sessions (sy_aes s))"
    using opened_once [OF facts(1) assms(3)] by (auto simp: subseq_conv_nths)
  moreover have "set (opened_sessions (sy_aes s)) \<subseteq> set ?os"
    using sub by (meson subseq_order.order_trans subseq_singleton_left subsetI)
  ultimately show ?thesis by auto
qed

lemma system_device:
  assumes "runs (system_step a cfg) (system_new cloud) es s" and "wf_msg (register_msg cfg)"
    and "bk_actl (sy_broker s) a = Some ca" and "ac_device ca \<noteq> []"
  shows "ac_device ca = acf_device cfg"
proof -
  have "hello_msg (marshal_msg (register_msg cfg)) \<noteq> None"
      "ac_device ca = msg_device (the (hello_msg (marshal_msg (register_msg cfg))))"
    using system_runs_ok [OF assms(1)] assms(3,4) by (simp_all add: system_ok_def)
  moreover have "msg_device (register_msg cfg) = acf_device cfg" by (simp add: register_msg_def)
  ultimately show ?thesis
    using assms(2) by (auto simp: hello_msg_def unmarshal_marshal split: if_splits)
qed

text \<open>Every shell of the agent belongs to one browser, which asked for this device.\<close>

lemma shell_owned:
  assumes "runs (system_step a cfg) (system_new cloud) es s" and "sy_agent s = Some g"
    and "fresh_ids (sy_bes s)" and "wf_msg (register_msg cfg)" and "ag_procs g n = Some sh"
  shows "\<exists>b c os xs ys. bk_bctl (sy_broker s) b = Some c \<and> bc_session c = sh_session sh \<and>
    bc_agent c = a \<and> bc_device c = acf_device cfg \<and>
    List.filter (\<lambda>m. msg_session m = sh_session sh) (out_to (sy_broker s) a) =
      os @ map (session_msg type_input (sh_session sh)) xs @ ys \<and>
    (os = [] \<or> os = [session_msg type_open (sh_session sh) []]) \<and> prefix xs (inputs b (sy_bes s)) \<and>
    (\<forall>m\<in>set ys. m = session_msg type_close (sh_session sh) [])"
proof -
  note facts = system_facts [OF assms(1,2)]
  note once = system_opened_once [OF assms(1-3)]
  have "sh_session sh \<in> set (opened_sessions (sy_aes s))"
    using agent_runs_inv [OF facts(2) conjunct1 [OF once]] assms(5) unfolding agent_inv_def unique_def
    by (metis view_at(1))
  then obtain m where m: "m \<in> set (received a s)" "msg_type m = type_open" "msg_session m = sh_session sh"
    using once by auto
  then have out: "m \<in> set (out_to (sy_broker s) a)"
    using received_subseq [of a s] by (meson subseq_order.dual_order.trans subseq_singleton_left)
  have ty: "msg_type m \<in> {type_open, type_input, type_close}" using m(2) by simp
  from session_owned [OF facts(1) assms(3) out ty m(3)]
  obtain b c os xs ys where c: "bk_bctl (sy_broker s) b = Some c" "bc_session c = sh_session sh" "bc_agent c = a"
      "List.filter (\<lambda>m. msg_session m = sh_session sh) (out_to (sy_broker s) a) =
        os @ map (session_msg type_input (sh_session sh)) xs @ ys"
      "os = [] \<or> os = [session_msg type_open (sh_session sh) []]" "prefix xs (inputs b (sy_bes s))"
      "\<forall>m\<in>set ys. m = session_msg type_close (sh_session sh) []" "sh_session sh \<noteq> []"
    by blast
  obtain ca where ca: "bk_actl (sy_broker s) a = Some ca" "ac_device ca = bc_device c"
    using session_route [OF facts(1) c(1)] c(2,3,8) by auto
  have "m \<noteq> error_msg" using m(2) by (auto simp: error_msg_def zero_msg_def msg_types)
  then have "ac_device ca \<noteq> []"
    using refused_runs [OF facts(1)] ca(1) out by (auto simp: refused_ok_def out_to_def)
  then have "bc_device c = acf_device cfg"
    using system_device [OF assms(1,4) ca(1)] ca(2) by simp
  then show ?thesis using c by blast
qed

text \<open>What has been sent to the browser of a session came from its shell.\<close>

lemma system_answers:
  assumes "runs (system_step a cfg) (system_new cloud) es s" and "sy_agent s = Some g" and "m \<in> set (ag_out g)"
  shows "unmarshal_msg (marshal_msg m) = (m, True)"
proof -
  note facts = system_facts [OF assms(1,2)]
  have "frames_within (Collect valid_utf8) (frames_down (sy_aes s))"
    unfolding facts(3) frames_within_def
  proof (intro ballI allI impI)
    fix raw m assume "raw \<in> set (map marshal_msg (received a s))" "unmarshal_msg raw = (m, True)"
    then have "m \<in> set (received a s)" using facts(5) by auto
    then have "wf_msg m" using facts(5) wf_broker_msg by blast
    then show "msg_session m \<in> Collect valid_utf8" by (simp add: wf_msg_def)
  qed
  from within_runs [OF facts(2) this] have "answer (Collect valid_utf8) m"
    using assms(3) by (simp add: within_def)
  then have "wf_msg m"
    by (auto simp: answer_def wf_msg_def close_msg_def output_msg_def zero_msg_def msg_types ccode_def)
  then show ?thesis by (rule unmarshal_marshal)
qed

text \<open>
  C20. Well-formed frames: every message that the coordinator writes to an agent and every message
  that the agent writes, whatever it was told, survives the connection: its JSON text is
  decoded by the other side to exactly this message.
\<close>

theorem frames_well_formed:
  assumes "runs (system_step a cfg) (system_new cloud) es s" and "sy_agent s = Some g"
  shows "(\<forall>m\<in>set (out_to (sy_broker s) a). unmarshal_msg (marshal_msg m) = (m, True)) \<and>
    (\<forall>m\<in>set (ag_out g). unmarshal_msg (marshal_msg m) = (m, True))"
  using out_wf [OF system_facts(1) [OF assms]] system_answers [OF assms] by blast

lemma system_outputs:
  assumes "runs (system_step a cfg) (system_new cloud) es s" and "sy_agent s = Some g"
    and "fresh_ids (sy_bes s)" and "ag_procs g n = Some sh" and "only_from a (sh_session sh) (sy_bes s)"
  shows "prefix (outputs (sh_session sh) (sy_bes s)) (sh_read sh)"
proof -
  let ?i = "sh_session sh" and ?P = "\<lambda>m. msg_type m = type_output \<and> msg_session m = sh_session sh"
  note facts = system_facts [OF assms(1,2)]
  have "\<forall>m\<in>set (take (sy_up s) (ag_out g)). unmarshal_msg (marshal_msg m) = (m, True)"
    using system_answers [OF assms(1,2)] by (auto dest: in_set_takeD)
  then have "outputs ?i (sy_bes s) = map msg_data (List.filter ?P (take (sy_up s) (ag_out g)))"
    unfolding outputs_frames [OF assms(5)] facts(4) by (rule decoded_frames)
  moreover have "prefix (List.filter ?P (take (sy_up s) (ag_out g))) (printed ?i g)"
    unfolding printed_def by (intro filter_mono_prefix take_is_prefix)
  moreover have "prefix (printed ?i g) (map (output_msg ?i) (sh_read sh))"
    using print_inv_runs [OF facts(2) conjunct1 [OF system_opened_once [OF assms(1-3)]]] assms(4)
    by (auto simp: print_inv_def prints_ok_def shell_prints_def)
  ultimately have "prefix (outputs ?i (sy_bes s)) (map msg_data (map (output_msg ?i) (sh_read sh)))"
    by (simp only:) (intro map_mono_prefix, rule prefix_order.order_trans)
  moreover have "map msg_data (map (output_msg ?i) (sh_read sh)) = sh_read sh"
    by (simp add: output_msg_def comp_def)
  ultimately show ?thesis by simp
qed

lemma browser_gets:
  assumes "runs broker_step (broker_new cloud) es s" and "only_from a (bc_session c) es" and "bk_bctl s b = Some c"
  shows "subseq (bc_out c) (outputs (bc_session c) es)"
proof (cases "bc_out c = []")
  case False
  then have "bout s b \<noteq> []" using assms(3) by (simp add: bout_def)
  then have "live s b \<noteq> None" using output_inv_runs [OF assms(1,2)] by (simp add: output_inv_def)
  then have "browser_phase_of (bc_pc c) \<in> {Bridged, BGone}"
    using assms(3) by (simp add: live_def split: if_splits)
  then have "live s b = Some (bc_session c)" "bout s b = bc_out c" using assms(3) by (simp_all add: live_def bout_def)
  then show ?thesis
    using output_invD [OF output_inv_runs [OF assms(1,2)], of b] by (auto dest: subseq_appendD)
qed simp

text \<open>
  C1. End to end: whatever all handlers do and in whatever order, every shell on the device belongs
  to a browser that asked for this device; what has been typed into it is a subsequence of what
  that browser sent, and, unless another agent names the session, what that browser has been
  sent is a subsequence of the chunks read from this shell: nothing is invented, changed,
  repeated, reordered or taken from another session on the whole way.
\<close>

theorem terminal_end_to_end:
  assumes "runs (system_step a cfg) (system_new cloud) es s" and "sy_agent s = Some g"
    and "fresh_ids (sy_bes s)" and "wf_msg (register_msg cfg)" and "ag_procs g n = Some sh"
  shows "\<exists>b c. bk_bctl (sy_broker s) b = Some c \<and> bc_session c = sh_session sh \<and> bc_agent c = a \<and>
    bc_device c = acf_device cfg \<and> subseq (sh_typed sh) (inputs b (sy_bes s)) \<and>
    (only_from a (sh_session sh) (sy_bes s) \<longrightarrow> subseq (bc_out c) (sh_read sh))"
proof -
  let ?i = "sh_session sh" and ?P = "\<lambda>m. msg_type m = type_input \<and> msg_session m = sh_session sh"
  note facts = system_facts [OF assms(1,2)]
  obtain b c os xs ys where c: "bk_bctl (sy_broker s) b = Some c" "bc_session c = ?i" "bc_agent c = a"
      "bc_device c = acf_device cfg"
      and out: "List.filter (\<lambda>m. msg_session m = ?i) (out_to (sy_broker s) a) = os @ map (session_msg type_input ?i) xs @ ys"
      and os: "os = [] \<or> os = [session_msg type_open ?i []]" and xs: "prefix xs (inputs b (sy_bes s))"
      and ys: "\<forall>m\<in>set ys. m = session_msg type_close ?i []"
    using shell_owned [OF assms] by blast
  have "List.filter (\<lambda>m. msg_type m = type_input) ys = []" "List.filter (\<lambda>m. msg_type m = type_input) os = []"
    using ys os by (auto simp: filter_empty_conv session_msg_def msg_types)
  then have "List.filter (\<lambda>m. msg_type m = type_input) (List.filter (\<lambda>m. msg_session m = ?i) (out_to (sy_broker s) a)) =
      map (session_msg type_input ?i) xs"
    unfolding out by (simp add: filter_session_msg)
  then have P: "List.filter ?P (out_to (sy_broker s) a) = map (session_msg type_input ?i) xs"
    by (simp add: conj_commute)
  have "addressed ?i (sy_aes s) = map msg_data (List.filter ?P (received a s))"
    unfolding addressed_frames facts(3) by (rule decoded_frames) (use facts(5) in blast)
  moreover have "subseq (map msg_data (List.filter ?P (received a s))) (map msg_data (map (session_msg type_input ?i) xs))"
    unfolding P [symmetric] by (intro subseq_map subseq_filter received_subseq)
  moreover have "map msg_data (map (session_msg type_input ?i) xs) = xs" by (simp add: session_msg_def comp_def)
  ultimately have "subseq (addressed ?i (sy_aes s)) (inputs b (sy_bes s))"
    using xs prefix_imp_subseq subseq_order.order_trans by metis
  moreover have "subseq (sh_typed sh) (addressed ?i (sy_aes s))"
    using typed_invD [OF typed_inv_runs [OF facts(2)], of n ?i] assms(5) by (auto dest: subseq_appendD)
  ultimately have typed: "subseq (sh_typed sh) (inputs b (sy_bes s))" using subseq_order.order_trans by blast
  have "subseq (bc_out c) (sh_read sh)" if "only_from a ?i (sy_bes s)"
    using browser_gets [OF facts(1), of a c b] c that system_outputs [OF assms(1-3,5) that] prefix_imp_subseq
      subseq_order.order_trans by metis
  then show ?thesis using c typed by blast
qed

section \<open>A concrete run\<close>

text \<open>The agent registers, a browser opens a terminal and types one byte, the shell prints one.\<close>

definition demo_id_bytes :: bytes where
  "demo_id_bytes = [1, 2, 3, 4, 5, 6, 7, 8]"

definition demo_system_run :: "system_event list" where
  "demo_system_run = [SHello ''addr'' ''key'' True True, SBroker (AAttach 0), SBroker (AAdd 0 0),
     SBroker (AConfirm 0 True), SAck, SBroker (BConnect 2 ''dev'' True), SBroker (BLookup 2),
     SBroker (BUpgrade 2 True demo_id_bytes), SBroker (BInsert 2), SBroker (BOpen 2 True),
     SDown (Some 0) True, SAgent LDoInsert, SBroker (BFrame 2 1 [104]), SBroker (BInput 2 True),
     SDown None True, SAgent (LDoType True), SAgent (RDoRead 0 [36] False), SAgent (RDoSend 0 True),
     SUp, SBroker (AForward 0 True)]"

lemma demo_wf_register: "wf_msg (register_msg demo_agent_cfg)"
  by (simp add: wf_msg_def register_msg_def demo_agent_cfg_def zero_msg_def msg_types ccode_def)

lemma demo_system_hello [simp]: "hello_msg (marshal_msg (register_msg demo_agent_cfg)) = Some (register_msg demo_agent_cfg)"
  by (simp add: hello_msg_def unmarshal_marshal demo_wf_register)
     (simp add: register_msg_def demo_agent_cfg_def zero_msg_def)

lemma demo_confirmed [simp]:
  "agent_register True True True (Some (marshal_msg (zero_msg\<lparr>msg_type := type_registered\<rparr>))) = None"
proof -
  have "wf_msg (zero_msg\<lparr>msg_type := type_registered\<rparr>)"
    by (simp add: wf_msg_def zero_msg_def msg_types ccode_def)
  then show ?thesis by (simp add: agent_register_def unmarshal_marshal msg_types)
qed

lemma demo_session_frames [simp]:
  "unmarshal_msg (marshal_msg (session_msg type_open (new_id rnd) d)) = (session_msg type_open (new_id rnd) d, True)"
  "unmarshal_msg (marshal_msg (session_msg type_input (new_id rnd) d)) = (session_msg type_input (new_id rnd) d, True)"
  "unmarshal_msg (marshal_msg (output_msg (new_id rnd) d)) = (output_msg (new_id rnd) d, True)"
  by (rule unmarshal_marshal;
      simp add: wf_msg_def session_msg_def output_msg_def zero_msg_def msg_types ccode_def valid_utf8_new_id)+

lemma demo_session_fields [simp]:
  "msg_type (session_msg ty i d) = ty" "msg_data (session_msg ty i d) = d"
  "msg_type (output_msg i d) = type_output" "msg_session (output_msg i d) = i" "msg_data (output_msg i d) = d"
  by (simp_all add: session_msg_def output_msg_def)

lemma demo_system:
  "\<exists>s g sh c. runs (system_step 0 demo_agent_cfg) (system_new ''cloud'') demo_system_run s \<and>
     sy_agent s = Some g \<and> ag_procs g 0 = Some sh \<and> sh_session sh = new_id demo_id_bytes \<and>
     sh_typed sh = [[104]] \<and> sh_read sh = [[36]] \<and>
     bk_bctl (sy_broker s) 2 = Some c \<and> bc_session c = new_id demo_id_bytes \<and> bc_out c = [[36]] \<and>
     inputs 2 (sy_bes s) = [[104]] \<and> fresh_ids (sy_bes s) \<and> only_from 0 (new_id demo_id_bytes) (sy_bes s)"
  by (simp add: runs_exec demo_system_run_def system_new_def move_broker_def move_agent_def out_to_def
      agent_hello_def agent_attach_def agent_add_def agent_confirm_def agent_frame_def agent_forward_def
      browser_connect_def browser_lookup_def browser_upgrade_def browser_insert_def browser_open_def
      browser_frame_def browser_input_def send_agent_def broker_new_def Let_def agent_new_def
      loop_frame_def loop_insert_def loop_type_def reader_read_def reader_send_def chunk_size_def)
     (simp add: msg_types register_msg_def demo_agent_cfg_def inputs_def fresh_ids_def only_from_def
      demo_id_bytes_def)

theorem terminal_end_to_end_witness:
  "\<exists>s b c. runs (system_step 0 demo_agent_cfg) (system_new ''cloud'') demo_system_run s \<and>
     bk_bctl (sy_broker s) b = Some c \<and> bc_session c = new_id demo_id_bytes \<and> bc_device c = ''dev'' \<and>
     subseq [[104]] (inputs b (sy_bes s)) \<and> subseq (bc_out c) [[36]]"
proof -
  obtain s g sh where s: "runs (system_step 0 demo_agent_cfg) (system_new ''cloud'') demo_system_run s"
      "sy_agent s = Some g" "fresh_ids (sy_bes s)" "ag_procs g 0 = Some sh" and sh: "sh_session sh = new_id demo_id_bytes"
      "sh_typed sh = [[104]]" "sh_read sh = [[36]]" and only: "only_from 0 (new_id demo_id_bytes) (sy_bes s)"
    using demo_system by blast
  have "acf_device demo_agent_cfg = ''dev''" by (simp add: demo_agent_cfg_def)
  then show ?thesis
    using terminal_end_to_end [OF s(1-3) demo_wf_register s(4)] s(1) only unfolding sh by metis
qed

theorem frames_well_formed_witness:
  "\<exists>s g. runs (system_step 0 demo_agent_cfg) (system_new ''cloud'') demo_system_run s \<and> sy_agent s = Some g \<and>
     (\<forall>m\<in>set (ag_out g). unmarshal_msg (marshal_msg m) = (m, True))"
proof -
  obtain s g where s: "runs (system_step 0 demo_agent_cfg) (system_new ''cloud'') demo_system_run s" "sy_agent s = Some g"
    using demo_system by blast
  from frames_well_formed [OF s] s show ?thesis by blast
qed

end
