(* ===== verification/Hangup.thy ===== *)
theory Hangup
  imports System BrokerExit
begin

text \<open>
  The end of a terminal on the composed machine: when the browser's side has said that a session
  is over, the agent that has read it keeps no shell of the session; when the agent has said it,
  the coordinator that has read it keeps no bridge of the session.
\<close>

section \<open>The agent forgets\<close>

text \<open>The frames for a session end with a closing: the last of them that opens or closes it is a close.\<close>

fun talk_of :: "string \<Rightarrow> agent_event \<Rightarrow> bool list" where
  "talk_of i (LFrame raw start net) =
     (case unmarshal_msg raw of (m, ok) \<Rightarrow>
        if ok \<and> msg_session m = i \<and> (msg_type m = type_open \<or> msg_type m = type_close)
        then [msg_type m = type_open] else [])"
| "talk_of i _ = []"

definition talk :: "string \<Rightarrow> agent_event list \<Rightarrow> bool list" where
  "talk i es = concat (map (talk_of i) es)"

lemma talk_simps [simp]: "talk i [] = []" "talk i (es @ [e]) = talk i es @ talk_of i e"
  by (simp_all add: talk_def)

definition hung_up :: "string \<Rightarrow> agent_event list \<Rightarrow> bool" where
  "hung_up i es \<longleftrightarrow> talk i es \<noteq> [] \<and> \<not> last (talk i es)"

definition forgot :: "string \<Rightarrow> agent \<Rightarrow> bool" where
  "forgot i g \<longleftrightarrow> ag_shells g i = None \<and> (\<forall>n. ag_pc g \<noteq> LInsert i n)"

lemma loop_forgot:
  "loop_insert g = Some t \<Longrightarrow> forgot i g \<Longrightarrow> forgot i t"
  "loop_type w g = Some t \<Longrightarrow> forgot i g \<Longrightarrow> forgot i t"
  "loop_hangup g = Some t \<Longrightarrow> forgot i g \<Longrightarrow> forgot i t"
  "loop_say_close net g = Some t \<Longrightarrow> forgot i g \<Longrightarrow> forgot i t"
  "loop_read_error g = Some t \<Longrightarrow> forgot i g \<Longrightarrow> forgot i t"
  "loop_kill n g = Some t \<Longrightarrow> forgot i g \<Longrightarrow> forgot i t"
  "loop_return g = Some t \<Longrightarrow> forgot i g \<Longrightarrow> forgot i t"
  by (auto simp: loop_insert_def loop_type_def loop_hangup_def loop_say_close_def loop_read_error_def
        loop_kill_def loop_return_def forgot_def split: loop_pc.splits if_splits option.splits)

lemma reader_forgot:
  "reader_read n d rerr g = Some t \<Longrightarrow> forgot i g \<Longrightarrow> forgot i t"
  "reader_send n net g = Some t \<Longrightarrow> forgot i g \<Longrightarrow> forgot i t"
  "reader_take n g = Some t \<Longrightarrow> forgot i g \<Longrightarrow> forgot i t"
  "reader_hangup n g = Some t \<Longrightarrow> forgot i g \<Longrightarrow> forgot i t"
  "reader_say_close n net g = Some t \<Longrightarrow> forgot i g \<Longrightarrow> forgot i t"
  by (auto simp: reader_read_def reader_send_def reader_take_def reader_hangup_def reader_say_close_def
        take_shell_def forgot_def split: option.splits if_splits reader_pc.splits)

lemma frame_forgot:
  assumes "loop_frame raw start net g = Some t" and "forgot i g \<or> talk_of i (LFrame raw start net) = [False]"
    and "talk_of i (LFrame raw start net) \<noteq> [True]"
  shows "forgot i t"
proof -
  obtain m ok where m: "unmarshal_msg raw = (m, ok)" by fastforce
  have pc: "ag_pc g = LRead" using assms(1) by (auto simp: loop_frame_def split: if_splits)
  show ?thesis
    using assms m pc
    by (auto simp: loop_frame_def Let_def take_shell_def forgot_def msg_types split: if_splits option.splits)
qed

lemma hung_up_runs:
  assumes "runs agent_step (agent_new cfg) es g"
  shows "hung_up i es \<longrightarrow> forgot i g"
proof -
  have "runs agent_step g0 es g \<Longrightarrow> g0 = agent_new cfg \<Longrightarrow> hung_up i es \<longrightarrow> forgot i g" for g0
  proof (induction rule: runs.induct)
    case runs_none
    then show ?case by (simp add: hung_up_def)
  next
    case (runs_more s es t e u)
    then have IH: "hung_up i es \<longrightarrow> forgot i t" by blast
    show ?case
    proof (cases "talk_of i e = []")
      case True
      then show ?thesis
        using IH runs_more.hyps(2)
        by (cases e) (auto simp: hung_up_def intro: loop_forgot reader_forgot frame_forgot)
    next
      case False
      then obtain raw start net where e: "e = LFrame raw start net" by (cases e) auto
      then have "talk_of i e = [True] \<or> talk_of i e = [False]"
        using False by (auto split: prod.splits if_splits)
      then show ?thesis
        using frame_forgot [of raw start net t u i] runs_more.hyps(2) by (auto simp: hung_up_def e)
    qed
  qed
  then show ?thesis using assms by blast
qed

section \<open>The browser leaves\<close>

lemma started_confirmed:
  assumes "runs (system_step a cfg) (system_new cloud) es s" and "sy_agent s = Some g"
  shows "\<exists>ms. out_to (sy_broker s) a = confirmation # ms \<and> 0 < sy_down s"
proof -
  have ok: "system_ok a cfg cloud s" by (rule system_runs_ok [OF assms(1)])
  then have down: "0 < sy_down s" "sy_down s \<le> length (out_to (sy_broker s) a)"
    and reg: "agent_register True True True (Some (marshal_msg (hd (out_to (sy_broker s) a)))) = None"
    using assms(2) by (simp_all add: system_ok_def)
  then obtain m ms where m: "out_to (sy_broker s) a = m # ms" by (cases "out_to (sy_broker s) a") auto
  have "broker_msg (sy_bes s) m" "unmarshal_msg (marshal_msg m) = (m, True)"
    using said_inv_runs [OF system_facts(1) [OF assms]] out_wf [OF system_facts(1) [OF assms], of m a] m
    by (auto simp: said_inv_def) (metis list.set_intros(1))
  then have "m = confirmation"
    using reg by (auto simp: m broker_msg_def agent_register_def error_msg_def session_msg_def zero_msg_def msg_types
      split: if_splits)
  then show ?thesis using m down(1) by blast
qed

lemma system_talk:
  assumes "runs (system_step a cfg) (system_new cloud) es s" and "sy_agent s = Some g"
  shows "talk i (sy_aes s) = map (\<lambda>m. msg_type m = type_open)
    (List.filter (\<lambda>m. msg_session m = i \<and> (msg_type m = type_open \<or> msg_type m = type_close)) (received a s))"
proof -
  note facts = system_facts [OF assms]
  have "talk_of i e = concat (map (decoded (\<lambda>m. msg_session m = i \<and> (msg_type m = type_open \<or> msg_type m = type_close))
      (\<lambda>m. msg_type m = type_open)) (frame_down e))" for e
    by (cases e) (auto simp: decoded_def split: prod.split)
  then have "talk i (sy_aes s) = concat (map (decoded (\<lambda>m. msg_session m = i \<and> (msg_type m = type_open \<or> msg_type m = type_close))
      (\<lambda>m. msg_type m = type_open)) (frames_down (sy_aes s)))"
    unfolding talk_def frames_down_def by (rule concat_frames)
  then show ?thesis unfolding facts(3) using decoded_frames [of "received a s"] facts(5) by simp
qed

lemma last_goodbye:
  assumes "prefix zs (as @ bs)" and "as = [] \<or> as = [True]" and "\<forall>b\<in>set bs. \<not> b" and "False \<in> set zs"
  shows "zs \<noteq> [] \<and> \<not> last zs"
proof -
  have "zs \<noteq> []" using assms(4) by auto
  have "\<not> prefix zs as" using assms(2,4) by (auto simp: prefix_Cons)
  then obtain us where us: "zs = as @ us" "prefix us bs" using assms(1) by (auto simp: prefix_append)
  then have "us \<noteq> []" using \<open>\<not> prefix zs as\<close> by auto
  then have "last zs \<in> set bs" using us by (auto simp: prefix_def)
  then show ?thesis using assms(3) \<open>zs \<noteq> []\<close> by blast
qed

lemma goodbye_read:
  assumes "runs (system_step a cfg) (system_new cloud) es s" and "sy_agent s = Some g"
    and "fresh_ids (sy_bes s)" and "session_msg type_close i [] \<in> set (received a s)"
  shows "hung_up i (sy_aes s)"
proof -
  let ?out = "out_to (sy_broker s) a"
  let ?P = "\<lambda>m. msg_session m = i" and ?Q = "\<lambda>m. msg_type m = type_open \<or> msg_type m = type_close"
  note facts = system_facts [OF assms(1,2)]
  obtain ms where ms: "?out = confirmation # ms" "0 < sy_down s"
    using started_confirmed [OF assms(1,2)] by blast
  have "session_msg type_close i [] \<in> set ?out"
    using received_subseq [of a s] assms(4) by (meson subseq_order.dual_order.trans subseq_singleton_left)
  from session_owned [OF facts(1) assms(3) this]
  obtain os xs ys where out: "List.filter ?P ?out = os @ map (session_msg type_input i) xs @ ys"
      and os: "os = [] \<or> os = [session_msg type_open i []]" and ys: "\<forall>m\<in>set ys. m = session_msg type_close i []"
      and i: "i \<noteq> []"
    by (auto simp: session_msg_def)
  have "take (sy_down s) ?out = confirmation # received a s"
    using ms by (cases "sy_down s") (simp_all add: received_def)
  moreover have "msg_session confirmation \<noteq> i" using i by (simp add: confirmation_def)
  ultimately have "List.filter ?P (received a s) = List.filter ?P (take (sy_down s) ?out)" by simp
  then have "prefix (List.filter ?P (received a s)) (os @ map (session_msg type_input i) xs @ ys)"
    unfolding out [symmetric] using filter_mono_prefix [OF take_is_prefix] by metis
  then have "prefix (List.filter ?Q (List.filter ?P (received a s)))
      (List.filter ?Q (os @ map (session_msg type_input i) xs @ ys))"
    by (rule filter_mono_prefix)
  moreover have "List.filter ?Q (map (session_msg type_input i) xs) = []"
    by (auto simp: filter_empty_conv session_msg_def msg_types)
  moreover have "List.filter ?Q os = os" "List.filter ?Q ys = ys"
    using os ys by (auto simp: filter_id_conv session_msg_def)
  ultimately have "prefix (List.filter ?Q (List.filter ?P (received a s))) (os @ ys)" by simp
  then have pre: "prefix (talk i (sy_aes s)) (map (\<lambda>m. msg_type m = type_open) os @ map (\<lambda>m. msg_type m = type_open) ys)"
    unfolding system_talk [OF assms(1,2)] using map_mono_prefix by (fastforce simp: conj_commute)
  moreover have "False \<in> set (talk i (sy_aes s))"
    unfolding system_talk [OF assms(1,2)] using assms(4) by (force simp: session_msg_def msg_types image_iff)
  moreover have "\<not> msg_type m = type_open" if "m \<in> set ys" for m
  proof -
    have "m = session_msg type_close i []" using ys that by blast
    then show ?thesis by (simp add: session_msg_def msg_types)
  qed
  moreover have "map (\<lambda>m. msg_type m = type_open) os = [] \<or> map (\<lambda>m. msg_type m = type_open) os = [True]"
    using os by (auto simp: session_msg_def)
  ultimately show ?thesis
    using last_goodbye [OF pre] by (simp add: hung_up_def)
qed

text \<open>
  C14. A browser that leaves takes its shell with it: once the agent has read the closing of a
  session, its map has no shell for the session and gets none, and a shell of the session
  that is still open is just about to be closed, by the loop or by its own reader.
\<close>

theorem goodbye_closes_shell:
  assumes "runs (system_step a cfg) (system_new cloud) es s" and "sy_agent s = Some g"
    and "fresh_ids (sy_bes s)" and "session_msg type_close i [] \<in> set (received a s)"
  shows "ag_shells g i = None \<and> (\<forall>n. ag_pc g \<noteq> LInsert i n) \<and>
    (\<forall>n sh. ag_procs g n = Some sh \<longrightarrow> sh_session sh = i \<longrightarrow> sh_open sh \<longrightarrow>
      ag_pc g = LHangup i n \<or> killing (ag_pc g) n \<or> sh_pc sh = RHangup n)"
proof -
  note facts = system_facts [OF assms(1,2)]
  have "forgot i g"
    using hung_up_runs [OF facts(2)] goodbye_read [OF assms] by blast
  moreover have "tracked g"
    using agent_runs_inv [OF facts(2) conjunct1 [OF system_opened_once [OF assms(1-3)]]] by (simp add: agent_inv_def)
  then have "ag_shells g i = Some n \<or> ag_pc g = LInsert i n \<or> ag_pc g = LHangup i n \<or> killing (ag_pc g) n \<or> sh_pc sh = RHangup n"
    if "ag_procs g n = Some sh" "sh_session sh = i" "sh_open sh" for n sh
  proof -
    have "alive g n" "sess g n = Some i" "rpc g n = Some (sh_pc sh)" using that by simp_all
    then show ?thesis using \<open>tracked g\<close> unfolding tracked_def by (metis option.inject)
  qed
  ultimately show ?thesis unfolding forgot_def by fastforce
qed

section \<open>The shell ends\<close>

lemma sessions_step:
  assumes "broker_step e s = Some t" and "bk_sessions t i \<noteq> None"
  shows "bk_sessions s i \<noteq> None \<or>
    (\<exists>b c. e = BInsert b \<and> bk_bctl s b = Some c \<and> bc_pc c = InsertPc \<and> bc_session c = i)"
proof (cases e)
  case (AHello a raw addr pub verdict net)
  then show ?thesis using assms by (auto simp: agent_hello_def Let_def split: option.splits if_splits)
next
  case (AAttach a)
  then show ?thesis using assms by (auto simp: agent_attach_def Let_def split: option.splits if_splits)
next
  case (AFrame a raw)
  then show ?thesis
    using assms by (auto simp: agent_frame_def take_session_def split: option.splits if_splits prod.splits)
next
  case (AForward a net)
  then show ?thesis using assms by (auto simp: agent_forward_def split: option.splits agent_pc.splits)
next
  case (BDrop b)
  then show ?thesis
    using assms by (auto simp: browser_drop_def take_session_def split: option.splits browser_pc.splits if_splits)
next
  case (BOpen b net)
  then show ?thesis
    using assms by (auto simp: browser_open_def send_agentD split: option.splits if_splits prod.splits)
next
  case (BInput b net)
  then show ?thesis
    using assms by (auto simp: browser_input_def send_agentD split: option.splits browser_pc.splits prod.splits)
qed (use assms in \<open>auto simp: agent_add_def agent_confirm_def agent_read_error_def agent_detach_def agent_remove_def
       browser_segments split: option.splits if_splits\<close>)

text \<open>The session of a browser that has not been inserted yet is unknown to every agent.\<close>

lemma before_insert:
  assumes "runs broker_step (broker_new cloud) es s" and "fresh_ids es"
    and "bk_bctl s b = Some c" and "bc_pc c = InsertPc"
  shows "\<forall>m\<in>set (out_to s a). msg_session m \<noteq> bc_session c"
proof -
  have "drawn es (bc_session c)"
    using said_inv_runs [OF assms(1)] assms(3,4) by (simp add: said_inv_def)
  then obtain b' where b': "drawn_for b' (bc_session c) es" "bc_session c \<noteq> []"
    using fresh_drawn [OF assms(2)] by blast
  then have "b = b'" using session_owner [OF assms(1) b' assms(3)] by simp
  then have "sent (bc_session c) s = (\<lambda>_. [])"
    using bridge_inv_runs [OF assms(1) b'] assms(3,4) by (simp add: bridge_inv_def)
  then have "List.filter (\<lambda>m. msg_session m = bc_session c) (out_to s a) = []"
    using sent_out_to [of "bc_session c" s a] by simp
  then show ?thesis by (simp add: filter_empty_conv)
qed

text \<open>The agent has answered only about sessions it was told of.\<close>

lemma answers_told:
  assumes "runs (system_step a cfg) (system_new cloud) es s" and "m \<in> set (agent_said s)"
  shows "\<exists>m'\<in>set (out_to (sy_broker s) a). msg_session m' = msg_session m"
proof -
  obtain g where g: "sy_agent s = Some g" "m \<in> set (ag_out g)"
    using assms(2) by (cases "sy_agent s") (simp_all add: agent_said_def)
  note facts = system_facts [OF assms(1) g(1)]
  have "frames_within (msg_session ` set (received a s)) (frames_down (sy_aes s))"
    unfolding facts(3) frames_within_def using facts(5) by fastforce
  from within_runs [OF facts(2) this] have "answer (msg_session ` set (received a s)) m"
    using g(2) by (simp add: within_def)
  then obtain m' where m': "m' \<in> set (received a s)" "msg_session m' = msg_session m"
    by (auto simp: answer_def close_msg_def output_msg_def)
  then have "m' \<in> set (out_to (sy_broker s) a)"
    using received_subseq [of a s] by (meson subseq_order.dual_order.trans subseq_singleton_left)
  with m'(2) show ?thesis by blast
qed

definition read_up :: "system \<Rightarrow> msg list" where
  "read_up s = take (sy_up s) (agent_said s)"

definition bridges_closed :: "system \<Rightarrow> bool" where
  "bridges_closed s \<longleftrightarrow> (\<forall>m\<in>set (read_up s). msg_type m = type_close \<longrightarrow> bk_sessions (sy_broker s) (msg_session m) = None)"

lemma fresh_ids_prefix: "fresh_ids (es @ fs) \<Longrightarrow> fresh_ids es"
  by (auto simp: fresh_ids_def)

text \<open>How a step of the composed machine moves the coordinator and what it has read.\<close>

lemma system_step_view:
  assumes "system_ok a cfg cloud s" and "system_step a cfg e s = Some t"
  shows "(sy_broker t = sy_broker s \<and> sy_bes t = sy_bes s \<and> read_up t = read_up s) \<or>
    (\<exists>be. broker_step be (sy_broker s) = Some (sy_broker t) \<and> sy_bes t = sy_bes s @ [be] \<and>
      (read_up t = read_up s \<or>
       (\<exists>m. read_up t = read_up s @ [m] \<and> m \<in> set (agent_said s) \<and> be = AFrame a (marshal_msg m))))"
proof -
  note reads = system_ok_reads [OF assms(1)]
  have agent: "read_up u = read_up s" if moved: "move_agent ae s = Some u" for ae u
  proof -
    obtain g g' where "sy_agent s = Some g" "agent_step ae g = Some g'"
        "u = s\<lparr>sy_agent := Some g', sy_aes := sy_aes s @ [ae]\<rparr>"
      using moved by (auto simp: move_agent_def split: option.splits)
    then show ?thesis
      using agent_out_step [of ae g g'] reads by (auto simp: read_up_def agent_said_def)
  qed
  have broker: "broker_step be (sy_broker s) = Some (sy_broker u) \<and> sy_bes u = sy_bes s @ [be] \<and>
      read_up u = read_up s \<and> sy_up u = sy_up s \<and> agent_said u = agent_said s"
    if "move_broker be s = Some u" for be u
    using that by (auto simp: move_broker_def read_up_def agent_said_def)
  show ?thesis
  proof (cases e)
    case SUp
    then obtain g u where g: "sy_agent s = Some g" "sy_up s < length (ag_out g)"
        "move_broker (AFrame a (marshal_msg (ag_out g ! sy_up s))) s = Some u" "t = u\<lparr>sy_up := Suc (sy_up s)\<rparr>"
      using assms(2) by (auto split: option.splits if_splits)
    then have "read_up t = read_up s @ [ag_out g ! sy_up s]" "ag_out g ! sy_up s \<in> set (agent_said s)"
      using broker [OF g(3)] by (simp_all add: read_up_def agent_said_def take_Suc_conv_app_nth)
    then show ?thesis using broker [OF g(3)] g(4) by auto
  next
    case (SDown start net)
    then obtain u where u: "move_agent (LFrame (marshal_msg (out_to (sy_broker s) a ! sy_down s)) start net) s = Some u"
        "t = u\<lparr>sy_down := Suc (sy_down s)\<rparr>"
      using assms(2) by (auto split: if_splits)
    have "sy_broker u = sy_broker s \<and> sy_bes u = sy_bes s"
      using u(1) by (auto simp: move_agent_def split: option.splits)
    then show ?thesis using agent [OF u(1)] by (simp add: u(2) read_up_def agent_said_def)
  next
    case SAck
    then have "sy_agent s = None" using assms by (auto simp: system_ok_def split: option.splits if_splits)
    then have "sy_up s = 0" using reads by (simp add: agent_said_def)
    then show ?thesis using SAck assms(2) by (auto simp: read_up_def split: if_splits)
  next
    case (SHello addr pub verdict net)
    then have "move_broker (AHello a (marshal_msg (register_msg cfg)) addr pub verdict net) s = Some t"
      using assms(2) by simp
    then show ?thesis using broker by blast
  next
    case (SBroker be)
    then show ?thesis using assms(2) broker by (auto split: if_splits)
  next
    case (SAgent ae)
    then have "move_agent ae s = Some t" using assms(2) by (simp split: if_splits)
    then show ?thesis using agent by (auto simp: move_agent_def split: option.splits)
  qed
qed

lemma frame_closes:
  "agent_frame a raw s = Some t \<Longrightarrow> unmarshal_msg raw = (m, True) \<Longrightarrow> msg_type m = type_close \<Longrightarrow>
   bk_sessions t (msg_session m) = None"
  by (auto simp: agent_frame_def take_session_def msg_types split: option.splits if_splits)

lemma bridges_closed_step:
  assumes run: "runs (system_step a cfg) (system_new cloud) es s" and step: "system_step a cfg e s = Some t"
    and fresh: "fresh_ids (sy_bes t)" and closed: "bridges_closed s"
  shows "bridges_closed t"
  using system_step_view [OF system_runs_ok [OF run] step]
proof (elim disjE exE conjE)
  fix be assume be: "broker_step be (sy_broker s) = Some (sy_broker t)" "sy_bes t = sy_bes s @ [be]"
    and "read_up t = read_up s"
  have runb: "runs broker_step (broker_new cloud) (sy_bes s) (sy_broker s)"
    using system_runs_ok [OF run] by (simp add: system_ok_def)
  have "bk_sessions (sy_broker t) (msg_session m) = None"
    if m: "m \<in> set (read_up s)" "msg_type m = type_close" for m
  proof (rule ccontr)
    assume "bk_sessions (sy_broker t) (msg_session m) \<noteq> None"
    moreover have "bk_sessions (sy_broker s) (msg_session m) = None" using closed m by (simp add: bridges_closed_def)
    ultimately obtain b c where c: "bk_bctl (sy_broker s) b = Some c" "bc_pc c = InsertPc" "bc_session c = msg_session m"
      using sessions_step [OF be(1), of "msg_session m"] by blast
    have "fresh_ids (sy_bes s)" using fresh fresh_ids_prefix unfolding be(2) by blast
    from before_insert [OF runb this c(1,2)]
    have "\<forall>m'\<in>set (out_to (sy_broker s) a). msg_session m' \<noteq> msg_session m" by (simp add: c(3))
    moreover have "m \<in> set (agent_said s)" using m(1) by (auto simp: read_up_def dest: in_set_takeD)
    ultimately show False using answers_told [OF run, of m] by blast
  qed
  then show ?thesis using \<open>read_up t = read_up s\<close> by (simp add: bridges_closed_def)
next
  fix be m assume be: "broker_step be (sy_broker s) = Some (sy_broker t)" "be = AFrame a (marshal_msg m)"
    and m: "read_up t = read_up s @ [m]" "m \<in> set (agent_said s)"
  have "unmarshal_msg (marshal_msg m) = (m, True)"
    using m(2) system_answers [OF run] by (cases "sy_agent s") (simp_all add: agent_said_def)
  then have gone: "bk_sessions (sy_broker t) (msg_session m) = None" if "msg_type m = type_close"
    using frame_closes [of a "marshal_msg m" "sy_broker s" "sy_broker t" m] be that by simp
  have "be \<noteq> BInsert b" for b by (simp add: be(2))
  then have "bk_sessions (sy_broker t) i = None" if "bk_sessions (sy_broker s) i = None" for i
    using sessions_step [OF be(1), of i] that by blast
  then show ?thesis using closed gone by (auto simp: bridges_closed_def m(1))
qed (use closed in \<open>simp add: bridges_closed_def\<close>)

lemma bridges_closed_runs:
  assumes "runs (system_step a cfg) (system_new cloud) es s" and "fresh_ids (sy_bes s)"
  shows "bridges_closed s"
proof -
  have "runs (system_step a cfg) s0 es s \<Longrightarrow> s0 = system_new cloud \<Longrightarrow> fresh_ids (sy_bes s) \<Longrightarrow> bridges_closed s" for s0
  proof (induction rule: runs.induct)
    case (runs_none s)
    then show ?case by (simp add: bridges_closed_def read_up_def agent_said_def system_new_def)
  next
    case (runs_more s es t e u)
    then have run: "runs (system_step a cfg) (system_new cloud) es t" by simp
    have "fresh_ids (sy_bes t)"
      using system_step_view [OF system_runs_ok [OF run] runs_more.hyps(2)] runs_more.prems(2) fresh_ids_prefix by metis
    then show ?case using bridges_closed_step [OF run runs_more.hyps(2)] runs_more by blast
  qed
  then show ?thesis using assms by blast
qed

text \<open>
  A browser past its insertion whose bridge is gone has been closed, or is just about to be, by an
  agent's handler or by its own.
\<close>

fun inserted :: "browser_pc \<Rightarrow> bool" where
  "inserted LookupPc = False"
| "inserted UpgradePc = False"
| "inserted InsertPc = False"
| "inserted _ = True"

definition closing :: "broker \<Rightarrow> nat \<Rightarrow> bool" where
  "closing s b \<longleftrightarrow> (\<exists>a ca. bk_actl s a = Some ca \<and> ac_pc ca = AHangupPc b) \<or>
     (\<exists>c. bk_bctl s b = Some c \<and> bc_pc c = BHangupPc b)"

definition hang_ok :: "broker \<Rightarrow> bool" where
  "hang_ok s \<longleftrightarrow> (\<forall>b c. bk_bctl s b = Some c \<longrightarrow>
     (inserted (bc_pc c) \<longrightarrow> bk_sessions s (bc_session c) = None \<longrightarrow> bc_open c \<longrightarrow> closing s b) \<and>
     (\<forall>b'. bc_pc c = BHangupPc b' \<longrightarrow> b' = b))"

text \<open>An open browser past its insertion was so before, or is inserted now.\<close>

lemma inserted_step:
  assumes "broker_step e s = Some t" and "bk_bctl t b = Some c" and "inserted (bc_pc c)" and "bc_open c"
  shows "(e = BInsert b \<and> bk_sessions t (bc_session c) \<noteq> None) \<or>
    (\<exists>c0. bk_bctl s b = Some c0 \<and> inserted (bc_pc c0) \<and> bc_open c0 \<and> bc_session c0 = bc_session c)"
proof (cases e)
  case (AFrame a raw)
  then show ?thesis
    using assms by (auto simp: agent_frame_def take_session_def split: option.splits if_splits prod.splits)
next
  case (BDrop b')
  then show ?thesis
    using assms by (auto simp: browser_drop_def take_session_def close_browser_def
        split: option.splits browser_pc.splits if_splits)
next
  case (AForward a net)
  then show ?thesis
    using assms by (auto simp: agent_forward_def close_browser_def write_browser_def split: option.splits agent_pc.splits if_splits)
qed (use assms in \<open>auto simp: agent_segments browser_segments case_prod_beta Let_def
       split: option.splits if_splits agent_pc.splits browser_pc.splits\<close>)

text \<open>Who takes an entry out of the table closes its browser next.\<close>

lemma taken_step:
  assumes "broker_step e s = Some t" and "bk_sessions s i = Some (b, a)" and "bk_sessions t i = None"
  shows "(\<exists>a ca. bk_actl t a = Some ca \<and> ac_pc ca = AHangupPc b) \<or>
    (\<exists>b' c c'. bk_bctl s b' = Some c \<and> bc_session c = i \<and> inserted (bc_pc c) \<and>
       bk_bctl t b' = Some c' \<and> bc_pc c' = BHangupPc b)"
proof (cases e)
  case (AFrame a raw)
  then show ?thesis
    using assms by (auto simp: agent_frame_def take_session_def split: option.splits if_splits prod.splits)
next
  case (BDrop b')
  then obtain c where c: "bk_bctl s b' = Some c" "bc_pc c = DropPc" "bc_session c = i"
      "t = browser_goto b' (BHangupPc b) (s\<lparr>bk_sessions := (bk_sessions s)(i := None)\<rparr>)"
    using assms by (auto simp: browser_drop_def take_session_def split: option.splits browser_pc.splits if_splits)
  then show ?thesis
    by (intro disjI2 exI [where x = b'] exI [where x = c] exI [where x = "c\<lparr>bc_pc := BHangupPc b\<rparr>"]) simp
qed (use assms in \<open>auto simp: agent_segments browser_segments case_prod_beta Let_def
       split: option.splits if_splits agent_pc.splits browser_pc.splits\<close>)

lemma hangup_step:
  assumes "broker_step e s = Some t" and "bk_actl s a = Some ca" and "ac_pc ca = AHangupPc b"
  shows "(\<exists>ca. bk_actl t a = Some ca \<and> ac_pc ca = AHangupPc b) \<or> (\<forall>c. bk_bctl t b = Some c \<longrightarrow> \<not> bc_open c)"
proof (cases "agent_mover e = Some a")
  case False
  from agent_mover_other [OF assms(1) this] assms(2,3) show ?thesis
    by (cases "bk_actl t a") (auto simp: aview_def)
next
  case True
  then show ?thesis
    using assms by (cases e) (auto simp: agent_segments close_browser_def Let_def split: option.splits if_splits)
qed

lemma own_hangup_step:
  assumes "broker_step e s = Some t" and "bk_bctl s b = Some c" and "bc_pc c = BHangupPc b"
  shows "(\<exists>c. bk_bctl t b = Some c \<and> bc_pc c = BHangupPc b) \<or> (\<forall>c. bk_bctl t b = Some c \<longrightarrow> \<not> bc_open c)"
proof (cases "mover e = Some b")
  case False
  from mover_other [OF assms(1) this] assms(2,3) show ?thesis
    by (cases "bk_bctl t b") (auto simp: bview_def)
next
  case True
  then show ?thesis
    using assms by (cases e) (auto simp: browser_segments close_browser_def split: option.splits if_splits)
qed

lemma closing_step:
  assumes "broker_step e s = Some t" and "closing s b"
  shows "closing t b \<or> (\<forall>c. bk_bctl t b = Some c \<longrightarrow> \<not> bc_open c)"
  using assms(2) hangup_step [OF assms(1), of _ _ b] own_hangup_step [OF assms(1), of b]
  unfolding closing_def by metis

text \<open>A handler that is about to close a browser got there by taking its bridge.\<close>

lemma BHangup_step:
  assumes "broker_step e s = Some t" and "bk_bctl t b = Some c" and "bc_pc c = BHangupPc b'"
  shows "\<exists>c0. bk_bctl s b = Some c0 \<and> bc_session c0 = bc_session c \<and>
    (bc_pc c0 = BHangupPc b' \<or> (\<exists>a. bk_sessions s (bc_session c) = Some (b', a)) \<and> bc_pc c0 = DropPc)"
proof (cases "mover e = Some b")
  case False
  from mover_other [OF assms(1) this] assms(2,3) show ?thesis
    by (cases "bk_bctl s b") (auto simp: bview_def)
next
  case True
  then show ?thesis
    using assms by (cases e) (auto simp: browser_segments take_session_def case_prod_beta
      split: option.splits if_splits browser_pc.splits)
qed

lemma same_session:
  assumes "runs broker_step (broker_new cloud) es s" and "fresh_ids es"
    and "bk_bctl s b = Some c" and "browser_phase_of (bc_pc c) = Bridged"
    and "bk_bctl s b' = Some c'" and "bc_session c' = bc_session c"
  shows "b' = b"
proof -
  have "bc_pc c \<notin> {LookupPc, UpgradePc, BrowserDone}" using assms(4) by auto
  then have "drawn es (bc_session c)" using said_inv_runs [OF assms(1)] assms(3) by (simp add: said_inv_def)
  then obtain d where d: "drawn_for d (bc_session c) es" "bc_session c \<noteq> []" using fresh_drawn [OF assms(2)] by blast
  show ?thesis
    using session_owner [OF assms(1) d assms(3) refl] session_owner [OF assms(1) d assms(5,6)] by simp
qed

lemma hang_ok_step:
  assumes run: "runs broker_step (broker_new cloud) es s" and step: "broker_step e s = Some t"
    and fresh: "fresh_ids es" and ok: "hang_ok s"
  shows "hang_ok t"
proof -
  have "sessions_ok (tables_of s)" using broker_reachable_ok [OF run] by (simp add: tables_ok_def)
  then have owner: "d = b" if "bk_sessions s i = Some (d, a)" "bk_bctl s b = Some c" "bc_session c = i" for i d a b c
    using ok_sessions [OF _ that(1)] same_session [OF run fresh] that(2,3) by metis
  have "closing t b"
    if c: "bk_bctl t b = Some c" "inserted (bc_pc c)" "bk_sessions t (bc_session c) = None" "bc_open c" for b c
  proof -
    obtain c0 where c0: "bk_bctl s b = Some c0" "inserted (bc_pc c0)" "bc_open c0" "bc_session c0 = bc_session c"
      using inserted_step [OF step c(1,2,4)] c(3) by blast
    show ?thesis
    proof (cases "bk_sessions s (bc_session c)")
      case None
      then have "closing s b" using ok c0 unfolding hang_ok_def by metis
      then show ?thesis using closing_step [OF step] c(1,4) by blast
    next
      case (Some r)
      obtain d a where r: "r = (d, a)" by (cases r)
      have "d = b" by (rule owner [OF Some [unfolded r] c0(1,4)])
      from taken_step [OF step Some [unfolded r] c(3)] show ?thesis
      proof (elim disjE exE conjE)
        fix a ca assume "bk_actl t a = Some ca" "ac_pc ca = AHangupPc d"
        then show ?thesis using \<open>d = b\<close> unfolding closing_def by blast
      next
        fix b' c' c'' assume b': "bk_bctl s b' = Some c'" "bc_session c' = bc_session c"
          and now: "bk_bctl t b' = Some c''" "bc_pc c'' = BHangupPc d"
        have "d = b'" by (rule owner [OF Some [unfolded r] b'])
        then show ?thesis using now \<open>d = b\<close> unfolding closing_def by blast
      qed
    qed
  qed
  moreover have "b' = b" if c: "bk_bctl t b = Some c" "bc_pc c = BHangupPc b'" for b b' c
    using BHangup_step [OF step c] ok owner unfolding hang_ok_def by metis
  ultimately show ?thesis unfolding hang_ok_def by blast
qed

lemma hang_ok_runs:
  assumes "runs broker_step (broker_new cloud) es s" and "fresh_ids es"
  shows "hang_ok s"
proof -
  have "runs broker_step s0 es s \<Longrightarrow> s0 = broker_new cloud \<Longrightarrow> fresh_ids es \<Longrightarrow> hang_ok s" for s0
  proof (induction rule: runs.induct)
    case runs_none
    then show ?case by (simp add: hang_ok_def broker_new_def)
  next
    case (runs_more s es t e u)
    have "runs broker_step (broker_new cloud) es t" "fresh_ids es"
      using runs_more.hyps(1) runs_more.prems fresh_ids_prefix by blast+
    then show ?case using hang_ok_step runs_more by blast
  qed
  then show ?thesis using assms by blast
qed

text \<open>
  C15. A shell that ends takes its browser's connection with it: once the coordinator has read the
  agent's closing of a session, no bridge for the session is left and none comes back, and the
  session's browser is past its insertion; its connection is closed, or a handler, of an agent or its
  own, closes it with its next step, also when its own handler has returned. (A handler that has not
  been upgraded has no session yet.)
\<close>

theorem shell_exit_hangs_up:
  assumes "runs (system_step a cfg) (system_new cloud) es s" and "fresh_ids (sy_bes s)"
    and "m \<in> set (read_up s)" and "msg_type m = type_close"
    and "bk_bctl (sy_broker s) b = Some c" and "bc_session c = msg_session m"
  shows "bk_sessions (sy_broker s) (msg_session m) = None \<and> bc_pc c \<noteq> InsertPc \<and>
    (bc_pc c \<notin> {LookupPc, UpgradePc} \<longrightarrow> bc_open c \<longrightarrow>
      (\<exists>a' ca. bk_actl (sy_broker s) a' = Some ca \<and> ac_pc ca = AHangupPc b) \<or> bc_pc c = BHangupPc b)"
proof -
  have run: "runs broker_step (broker_new cloud) (sy_bes s) (sy_broker s)"
    using system_runs_ok [OF assms(1)] by (simp add: system_ok_def)
  have gone: "bk_sessions (sy_broker s) (msg_session m) = None"
    using bridges_closed_runs [OF assms(1,2)] assms(3,4) by (simp add: bridges_closed_def)
  have "m \<in> set (agent_said s)" using assms(3) by (auto simp: read_up_def dest: in_set_takeD)
  then have pc: "bc_pc c \<noteq> InsertPc"
    using answers_told [OF assms(1), of m] before_insert [OF run assms(2,5), of a] assms(6) by auto
  have "closing (sy_broker s) b" if "bc_pc c \<notin> {LookupPc, UpgradePc}" "bc_open c"
  proof -
    have "inserted (bc_pc c)" using that(1) pc by (cases "bc_pc c") auto
    then show ?thesis using gone hang_ok_runs [OF run assms(2)] assms(5,6) that(2) unfolding hang_ok_def by metis
  qed
  then show ?thesis using gone pc assms(5) unfolding closing_def by auto
qed

section \<open>Concrete runs\<close>

text \<open>The browser of the run above leaves, and in the other run its shell ends.\<close>

definition demo_goodbye_run :: "system_event list" where
  "demo_goodbye_run = demo_system_run @
     [SBroker (BReadErr 2), SBroker (BSayClose 2 True), SDown None True]"

definition demo_exit_run :: "system_event list" where
  "demo_exit_run = demo_system_run @
     [SAgent (RDoRead 0 [] True), SAgent (RDoTake 0), SAgent (RDoHangup 0), SAgent (RDoSayClose 0 True), SUp]"

lemma demo_close_frames [simp]:
  "unmarshal_msg (marshal_msg (session_msg type_close (new_id rnd) d)) = (session_msg type_close (new_id rnd) d, True)"
  "unmarshal_msg (marshal_msg (close_msg (new_id rnd))) = (close_msg (new_id rnd), True)"
  by (rule unmarshal_marshal;
      simp add: wf_msg_def session_msg_def close_msg_def zero_msg_def msg_types ccode_def valid_utf8_new_id)+

lemma demo_close_fields [simp]: "msg_type (close_msg i) = type_close" "msg_session (close_msg i) = i"
  by (simp_all add: close_msg_def)

lemmas demo_segments = agent_segments browser_segments take_session_def send_agent_def loop_frame_def loop_insert_def
  loop_type_def reader_read_def reader_send_def reader_take_def reader_hangup_def reader_say_close_def take_shell_def

lemma demo_goodbye:
  "\<exists>s g. runs (system_step 0 demo_agent_cfg) (system_new ''cloud'') demo_goodbye_run s \<and>
     sy_agent s = Some g \<and> fresh_ids (sy_bes s) \<and>
     session_msg type_close (new_id demo_id_bytes) [] \<in> set (received 0 s) \<and> ag_pc g = LHangup (new_id demo_id_bytes) 0"
  by (simp add: runs_exec demo_goodbye_run_def demo_system_run_def system_new_def move_broker_def move_agent_def out_to_def
      demo_segments broker_new_def Let_def agent_new_def chunk_size_def)
     (simp add: msg_types register_msg_def demo_agent_cfg_def fresh_ids_def demo_id_bytes_def received_def out_to_def)

lemma demo_exit:
  "\<exists>s c. runs (system_step 0 demo_agent_cfg) (system_new ''cloud'') demo_exit_run s \<and>
     fresh_ids (sy_bes s) \<and> close_msg (new_id demo_id_bytes) \<in> set (read_up s) \<and>
     bk_bctl (sy_broker s) 2 = Some c \<and> bc_session c = new_id demo_id_bytes \<and> bc_open c \<and> bc_pc c = BrowsePc"
  by (simp add: runs_exec demo_exit_run_def demo_system_run_def system_new_def move_broker_def move_agent_def out_to_def
      demo_segments broker_new_def Let_def agent_new_def chunk_size_def)
     (simp add: msg_types register_msg_def demo_agent_cfg_def fresh_ids_def demo_id_bytes_def read_up_def agent_said_def)

theorem goodbye_closes_shell_witness:
  "\<exists>s g. runs (system_step 0 demo_agent_cfg) (system_new ''cloud'') demo_goodbye_run s \<and> sy_agent s = Some g \<and>
     ag_shells g (new_id demo_id_bytes) = None \<and> ag_pc g = LHangup (new_id demo_id_bytes) 0"
proof -
  obtain s g where s: "runs (system_step 0 demo_agent_cfg) (system_new ''cloud'') demo_goodbye_run s" "sy_agent s = Some g"
      "fresh_ids (sy_bes s)" "session_msg type_close (new_id demo_id_bytes) [] \<in> set (received 0 s)"
      and pc: "ag_pc g = LHangup (new_id demo_id_bytes) 0"
    using demo_goodbye by blast
  from goodbye_closes_shell [OF s] s(1,2) pc show ?thesis by blast
qed

theorem shell_exit_hangs_up_witness:
  "\<exists>s a ca. runs (system_step 0 demo_agent_cfg) (system_new ''cloud'') demo_exit_run s \<and>
     bk_sessions (sy_broker s) (new_id demo_id_bytes) = None \<and> bk_actl (sy_broker s) a = Some ca \<and> ac_pc ca = AHangupPc 2"
proof -
  obtain s c where s: "runs (system_step 0 demo_agent_cfg) (system_new ''cloud'') demo_exit_run s" "fresh_ids (sy_bes s)"
      "close_msg (new_id demo_id_bytes) \<in> set (read_up s)" "bk_bctl (sy_broker s) 2 = Some c"
      and c: "bc_session c = new_id demo_id_bytes" "bc_open c" "bc_pc c = BrowsePc"
    using demo_exit by blast
  from shell_exit_hangs_up [OF s(1-3) _ s(4)] s(1) c show ?thesis by auto
qed

end
