(* ===== verification/Enrollment.thy ===== *)
theory Enrollment
  imports Hangup
begin

text \<open>
  The registration of an agent at the coordinator, under every interleaving: how far its handler
  has come, what the tables say of it, and which message is the first on its connection. That a
  browser can come first is the race of the last section.
\<close>

section \<open>The handler that sets up\<close>

fun setting_up :: "agent_pc \<Rightarrow> bool" where
  "setting_up AttachPc = True"
| "setting_up AddPc = True"
| "setting_up ConfirmPc = True"
| "setting_up _ = False"

text \<open>Where the handler has attached and not detached, and where it has listed the device and not unlisted it.\<close>

definition attached_pc :: "agent_pc \<Rightarrow> bool" where
  "attached_pc pc \<longleftrightarrow> pc \<notin> {AttachPc, RemovePc, AgentDone}"

definition listed_pc :: "agent_pc \<Rightarrow> bool" where
  "listed_pc pc \<longleftrightarrow> pc \<notin> {AttachPc, AddPc, AgentDone}"

text \<open>No other handler has ever registered as the device.\<close>

definition alone_for :: "broker \<Rightarrow> nat \<Rightarrow> string \<Rightarrow> bool" where
  "alone_for s n d \<longleftrightarrow> (\<forall>k c. bk_actl s k = Some c \<longrightarrow> ac_device c = d \<longrightarrow> k = n)"

definition device_entry :: "agent_ctl \<Rightarrow> int \<Rightarrow> device" where
  "device_entry c now = \<lparr>dev_id = ac_device c, dev_name = msg_name (ac_hello c), dev_os = msg_os (ac_hello c),
     dev_addr = ac_addr c, dev_pubkey = ac_pub c, dev_last_seen = now\<rparr>"

text \<open>Of a handler: what it does not change.\<close>

definition nameplate :: "agent_ctl \<Rightarrow> string \<times> msg \<times> string \<times> string" where
  "nameplate c = (ac_device c, ac_hello c, ac_addr c, ac_pub c)"

lemma nameplate_frame [simp]:
  "nameplate (c\<lparr>ac_open := p\<rparr>) = nameplate c" "nameplate (c\<lparr>ac_out := ms\<rparr>) = nameplate c"
  "nameplate (c\<lparr>ac_pc := pc\<rparr>) = nameplate c"
  "map_option nameplate (map_option (ac_open_update h) y) = map_option nameplate y"
  "map_option nameplate (map_option (ac_pc_update g) y) = map_option nameplate y"
  "map_option nameplate (map_option (\<lambda>c. if Q c then c\<lparr>ac_out := k c\<rparr> else c) y) = map_option nameplate y"
  by (cases y; simp add: nameplate_def)+

lemma device_entry_nameplate: "nameplate c = nameplate c' \<Longrightarrow> device_entry c = device_entry c'"
  by (simp add: nameplate_def device_entry_def fun_eq_iff)

lemma nameplate_step:
  assumes "broker_step e s = Some t" and "bk_actl s n \<noteq> None"
  shows "map_option nameplate (bk_actl t n) = map_option nameplate (bk_actl s n)"
proof (cases "\<exists>raw addr pub verdict net. e = AHello n raw addr pub verdict net")
  case True
  then show ?thesis using assms by (auto simp: agent_hello_def split: if_splits)
next
  case False
  then show ?thesis
    using assms(1)
    by (cases e;
        force simp: agent_segments browser_segments take_session_def case_prod_beta Let_def
          split: option.splits if_splits agent_pc.splits browser_pc.splits)
qed

lemma alone_back:
  assumes "broker_step e s = Some t" and "alone_for t n d"
  shows "alone_for s n d"
  unfolding alone_for_def
proof (intro allI impI)
  fix k c assume c: "bk_actl s k = Some c" "ac_device c = d"
  then have "map_option nameplate (bk_actl t k) = Some (nameplate c)"
    using nameplate_step [OF assms(1), of k] by simp
  then obtain c' where "bk_actl t k = Some c'" "ac_device c' = d"
    using c(2) by (auto simp: nameplate_def)
  then show "k = n" using assms(2) unfolding alone_for_def by blast
qed

text \<open>What the other handlers leave alone.\<close>

lemma open_frame [simp]:
  "map_option ac_open (map_option (ac_pc_update g) y) = map_option ac_open y"
  "map_option ac_open (map_option (\<lambda>c. if Q c then c\<lparr>ac_out := k c\<rparr> else c) y) = map_option ac_open y"
  by (cases y; simp)+

lemma other_keeps:
  assumes step: "broker_step e s = Some t" and other: "agent_mover e \<noteq> Some n" and alone: "alone_for s n d"
    and ok: "agents_ok (tables_of s)" and c: "bk_actl s n = Some c" "ac_device c = d"
  shows "map_option ac_open (bk_actl t n) = Some (ac_open c)" and "bk_agents t d = bk_agents s d"
    and "reg_devices (bk_reg t) d = reg_devices (bk_reg s) d"
proof -
  have foreign: "ac_device ck \<noteq> d" if "bk_actl s k = Some ck" "k \<noteq> n" for k ck
    using alone that unfolding alone_for_def by blast
  have held: "bk_agents s d' \<noteq> Some n" if "d' \<noteq> d" for d'
    using ok_agents [OF ok, of d' n] c that by auto
  have "map_option ac_open (bk_actl t n) = map_option ac_open (bk_actl s n) \<and> bk_agents t d = bk_agents s d \<and>
      reg_devices (bk_reg t) d = reg_devices (bk_reg s) d"
  proof (cases e)
    case (AAttach k)
    then obtain ck where ck: "bk_actl s k = Some ck" "k \<noteq> n"
      using step other by (auto simp: agent_attach_def split: option.splits)
    then show ?thesis
      using AAttach step c foreign [OF ck] held [OF foreign [OF ck]]
      by (auto simp: agent_attach_def Let_def split: option.splits if_splits)
  next
    case (AAdd k now)
    then obtain ck where ck: "bk_actl s k = Some ck" "k \<noteq> n"
      using step other by (auto simp: agent_add_def split: option.splits)
    then show ?thesis
      using AAdd step c foreign [OF ck] by (auto simp: agent_add_def reg_add_def split: if_splits)
  next
    case (ADetach k)
    then obtain ck where ck: "bk_actl s k = Some ck" "k \<noteq> n"
      using step other by (auto simp: agent_detach_def split: option.splits)
    then show ?thesis
      using ADetach step c foreign [OF ck] by (auto simp: agent_detach_def split: if_splits)
  next
    case (ARemove k)
    then obtain ck where ck: "bk_actl s k = Some ck" "k \<noteq> n"
      using step other by (auto simp: agent_remove_def split: option.splits)
    then show ?thesis
      using ARemove step c foreign [OF ck] by (auto simp: agent_remove_def reg_remove_def split: if_splits)
  qed (use step other in \<open>(force simp: agent_segments browser_segments take_session_def case_prod_beta Let_def
        split: option.splits if_splits agent_pc.splits browser_pc.splits)+\<close>)
  then show "map_option ac_open (bk_actl t n) = Some (ac_open c)" "bk_agents t d = bk_agents s d"
    "reg_devices (bk_reg t) d = reg_devices (bk_reg s) d" using c(1) by simp_all
qed

text \<open>How many steps of its own a handler has taken, up to the end of its set-up.\<close>

fun steps_taken :: "agent_pc \<Rightarrow> nat" where
  "steps_taken AttachPc = 0"
| "steps_taken AddPc = 1"
| "steps_taken ConfirmPc = 2"
| "steps_taken _ = 3"

definition enrolled :: "nat \<Rightarrow> agent_ctl \<Rightarrow> nat \<Rightarrow> broker \<Rightarrow> bool" where
  "enrolled n c0 k s \<longleftrightarrow> (\<exists>c. bk_actl s n = Some c \<and> nameplate c = nameplate c0 \<and>
     (if setting_up (ac_pc c) then k = steps_taken (ac_pc c) else 3 \<le> k) \<and>
     (alone_for s n (ac_device c0) \<longrightarrow> ac_open c \<and>
       (attached_pc (ac_pc c) \<longrightarrow> bk_agents s (ac_device c0) = Some n) \<and>
       (listed_pc (ac_pc c) \<longrightarrow> (\<exists>now. reg_devices (bk_reg s) (ac_device c0) = Some (device_entry c0 now)))))"

lemma enrolled_step:
  assumes ok: "agents_ok (tables_of s)" and inv: "enrolled n c0 k s" and step: "broker_step e s = Some t"
  shows "enrolled n c0 (k + (if agent_mover e = Some n then 1 else 0)) t"
proof -
  let ?d = "ac_device c0"
  obtain c where c: "bk_actl s n = Some c" "nameplate c = nameplate c0"
      "if setting_up (ac_pc c) then k = steps_taken (ac_pc c) else 3 \<le> k"
    and tables: "alone_for s n ?d \<longrightarrow> ac_open c \<and> (attached_pc (ac_pc c) \<longrightarrow> bk_agents s ?d = Some n) \<and>
      (listed_pc (ac_pc c) \<longrightarrow> (\<exists>now. reg_devices (bk_reg s) ?d = Some (device_entry c0 now)))"
    using inv unfolding enrolled_def by blast
  have d: "ac_device c = ?d" using c(2) by (simp add: nameplate_def)
  have before: "alone_for s n ?d" if "alone_for t n ?d" by (rule alone_back [OF step that])
  obtain c' where c': "bk_actl t n = Some c'" "nameplate c' = nameplate c0"
    using nameplate_step [OF step, of n] c(1,2) by auto
  show ?thesis
  proof (cases "agent_mover e = Some n")
    case False
    then have pc: "ac_pc c' = ac_pc c" using agent_mover_other [OF step False] c(1) c'(1) by (simp add: aview_def)
    have "ac_open c' = ac_open c \<and> bk_agents t ?d = bk_agents s ?d \<and>
        reg_devices (bk_reg t) ?d = reg_devices (bk_reg s) ?d" if "alone_for s n ?d"
      using other_keeps [OF step False that ok c(1) d] c'(1) by simp
    then show ?thesis using False c c' pc tables before unfolding enrolled_def by auto
  next
    case True
    have entry: "device_entry c = device_entry c0" by (rule device_entry_nameplate [OF c(2)])
    have not_old: "bk_agents s ?d \<noteq> Some n" if "ac_pc c = AttachPc"
      using ok_agents [OF ok, of ?d n] c(1) that by auto
    have "(if setting_up (ac_pc c') then k + 1 = steps_taken (ac_pc c') else 3 \<le> k + 1) \<and>
      (alone_for s n ?d \<longrightarrow> ac_open c' \<and> (attached_pc (ac_pc c') \<longrightarrow> bk_agents t ?d = Some n) \<and>
       (listed_pc (ac_pc c') \<longrightarrow> (\<exists>now. reg_devices (bk_reg t) ?d = Some (device_entry c0 now))))"
    proof (cases e)
      case (AAdd k' now)
      then have t: "t = agent_goto n ConfirmPc (s\<lparr>bk_reg := reg_add (device_entry c now) (bk_reg s)\<rparr>)" "ac_pc c = AddPc"
        using step True c(1) by (auto simp: agent_add_def device_entry_def split: if_splits)
      then show ?thesis
        using c c'(1) tables
        by (auto simp: entry reg_add_def attached_pc_def listed_pc_def device_entry_def)
    next
      case (AAttach k')
      then show ?thesis
        using step True c c'(1) d tables not_old
        by (auto simp: agent_attach_def Let_def attached_pc_def listed_pc_def split: option.splits if_splits)
    next
      case (AConfirm k' net)
      then show ?thesis
        using step True c c'(1) tables
        by (auto simp: agent_confirm_def attached_pc_def listed_pc_def split: if_splits)
    next
      case (ADetach k')
      then show ?thesis
        using step True c c'(1) d tables
        by (auto simp: agent_detach_def attached_pc_def listed_pc_def split: if_splits)
    next
      case (ARemove k')
      then show ?thesis
        using step True c c'(1) d tables
        by (auto simp: agent_remove_def attached_pc_def listed_pc_def split: if_splits)
    next
      case (AHello k' raw addr pub verdict net)
      then show ?thesis using step True c(1) by (simp add: agent_hello_def)
    next
      case (AFrame k' raw)
      then show ?thesis
        using step True c c'(1) tables
        by (auto simp: agent_frame_def take_session_def attached_pc_def listed_pc_def split: option.splits if_splits prod.splits)
    next
      case (AForward k' net)
      then show ?thesis
        using step True c c'(1) tables
        by (auto simp: agent_forward_def attached_pc_def listed_pc_def split: option.splits if_splits agent_pc.splits)
    next
      case (AReadErr k')
      then show ?thesis
        using step True c c'(1) tables
        by (auto simp: agent_read_error_def attached_pc_def listed_pc_def split: if_splits)
    qed (use True in simp_all)
    then show ?thesis using True c' before unfolding enrolled_def by auto
  qed
qed

section \<open>The first message of a connection\<close>

fun talking :: "browser_pc \<Rightarrow> bool" where
  "talking BrowsePc = True"
| "talking (InputPc d) = True"
| "talking SayClosePc = True"
| "talking _ = False"

definition opens_session :: "msg \<Rightarrow> bool" where
  "opens_session m \<longleftrightarrow> (\<exists>i. m = session_msg type_open i [])"

text \<open>
  A browser that talks to an agent has sent it something, and the first message to an agent that is
  still set up opens a session.
\<close>

definition first_ok :: "broker \<Rightarrow> bool" where
  "first_ok s \<longleftrightarrow>
     (\<forall>b c. bk_bctl s b = Some c \<longrightarrow> talking (bc_pc c) \<longrightarrow> out_to s (bc_agent c) \<noteq> []) \<and>
     (\<forall>n c. bk_actl s n = Some c \<longrightarrow> setting_up (ac_pc c) \<longrightarrow> ac_out c = [] \<or> opens_session (hd (ac_out c)))"

lemma talking_step:
  assumes "broker_step e s = Some t" and "bk_bctl t b = Some c'" and "talking (bc_pc c')"
  shows "(\<exists>c. bk_bctl s b = Some c \<and> talking (bc_pc c) \<and> bc_agent c = bc_agent c') \<or> out_to t (bc_agent c') \<noteq> []"
proof (cases "mover e = Some b")
  case False
  from mover_other [OF assms(1) this] assms(2,3) show ?thesis
    by (cases "bk_bctl s b") (auto simp: bview_def)
next
  case True
  then show ?thesis
    using assms by (cases e) (auto simp: browser_segments take_session_def case_prod_beta out_to_send [OF prod.collapse [symmetric]]
      split: option.splits if_splits browser_pc.splits)
qed

lemma setup_step:
  assumes "broker_step e s = Some t" and "bk_actl t n = Some c'" and "setting_up (ac_pc c')"
  shows "ac_out c' = [] \<or> (\<exists>c. bk_actl s n = Some c \<and> setting_up (ac_pc c) \<and>
    (ac_out c' = ac_out c \<or> (\<exists>i. ac_out c' = ac_out c @ [session_msg type_open i []]) \<or>
     (\<exists>b cb m. bk_bctl s b = Some cb \<and> talking (bc_pc cb) \<and> bc_agent cb = n \<and> ac_out c' = ac_out c @ [m])))"
proof (cases e)
  case (BOpen b net)
  then show ?thesis
    using assms by (force simp: browser_open_def case_prod_beta send_agent_def split: option.splits if_splits)
next
  case (BInput b net)
  then show ?thesis
    using assms by (force simp: browser_input_def case_prod_beta send_agent_def split: option.splits if_splits browser_pc.splits)
next
  case (BSayClose b net)
  then show ?thesis
    using assms by (force simp: browser_say_close_def case_prod_beta send_agent_def split: option.splits if_splits)
next
  case (AAttach k)
  then show ?thesis
    using assms by (auto simp: agent_attach_def Let_def split: option.splits if_splits) blast+
qed (use assms in \<open>auto simp: agent_segments browser_segments take_session_def case_prod_beta Let_def
      split: option.splits if_splits agent_pc.splits browser_pc.splits\<close>)

lemma first_ok_step:
  assumes step: "broker_step e s = Some t" and ok: "first_ok s"
  shows "first_ok t"
proof -
  have grow: "out_to s n \<noteq> [] \<Longrightarrow> out_to t n \<noteq> []" for n
    using out_step [OF step, of n] by auto
  have "out_to t (bc_agent c) \<noteq> []" if "bk_bctl t b = Some c" "talking (bc_pc c)" for b c
    using talking_step [OF step that] ok grow unfolding first_ok_def by metis
  moreover have "ac_out c' = [] \<or> opens_session (hd (ac_out c'))" if c': "bk_actl t n = Some c'" "setting_up (ac_pc c')" for n c'
    using setup_step [OF step c']
  proof (elim disjE exE conjE)
    fix c i assume c: "bk_actl s n = Some c" "setting_up (ac_pc c)" "ac_out c' = ac_out c @ [session_msg type_open i []]"
    then have "ac_out c = [] \<or> opens_session (hd (ac_out c))" using ok unfolding first_ok_def by blast
    then show ?thesis using c(3) by (cases "ac_out c") (auto simp: opens_session_def)
  next
    fix c b cb m assume c: "bk_actl s n = Some c" "setting_up (ac_pc c)" "ac_out c' = ac_out c @ [m]"
      and "bk_bctl s b = Some cb" "talking (bc_pc cb)" "bc_agent cb = n"
    then have "out_to s n \<noteq> []" using ok unfolding first_ok_def by blast
    then have "ac_out c \<noteq> []" using c(1) by (simp add: out_to_def)
    moreover have "ac_out c = [] \<or> opens_session (hd (ac_out c))" using ok c(1,2) unfolding first_ok_def by blast
    ultimately show ?thesis using c(3) by simp
  qed (use ok in \<open>simp_all add: first_ok_def\<close>)
  ultimately show ?thesis unfolding first_ok_def by blast
qed

interpretation first_message: machine broker_step first_ok
  by unfold_locales (rule first_ok_step)

lemma first_ok_runs:
  assumes "runs broker_step (broker_new cloud) es s"
  shows "first_ok s"
proof -
  have "first_ok (broker_new cloud)" by (simp add: first_ok_def broker_new_def)
  then show ?thesis by (rule first_message.ok_runs [OF assms])
qed

text \<open>What has been written first stays first.\<close>

lemma first_stays:
  "runs broker_step s es t \<Longrightarrow> out_to s n \<noteq> [] \<Longrightarrow> out_to t n \<noteq> [] \<and> hd (out_to t n) = hd (out_to s n)"
proof (induction rule: runs.induct)
  case (runs_more s es t e u)
  then have t: "out_to t n \<noteq> []" "hd (out_to t n) = hd (out_to s n)" by blast+
  from out_step [OF runs_more.hyps(2), of n] t show ?case by auto
qed simp

section \<open>A registration under every interleaving\<close>

lemma alone_back_runs: "runs broker_step s es t \<Longrightarrow> alone_for t n d \<Longrightarrow> alone_for s n d"
  by (induction rule: runs.induct) (auto intro: alone_back)

lemma enrollment_run:
  assumes run: "runs broker_step (broker_new cloud) es s"
    and hello: "broker_step (AHello n raw addr pub True net) s = Some t" "hello_msg raw = Some m"
    and fs: "runs broker_step t fs u"
  shows "enrolled n \<lparr>ac_device = msg_device m, ac_hello = m, ac_addr = addr, ac_pub = pub, ac_open = True,
    ac_out = [], ac_pc = AttachPc\<rparr> (length (List.filter (\<lambda>e. agent_mover e = Some n) fs)) u"
    (is "enrolled n ?c _ _")
proof -
  have run_t: "runs broker_step (broker_new cloud) (es @ [AHello n raw addr pub True net]) t"
    by (rule runs_more [OF run hello(1)])
  have "bk_actl t n = Some ?c" using hello by (auto simp: agent_hello_def split: if_splits)
  then have start: "enrolled n ?c 0 t" by (simp add: enrolled_def attached_pc_def listed_pc_def)
  have "runs broker_step t' fs u \<Longrightarrow> t' = t \<Longrightarrow>
      enrolled n ?c (length (List.filter (\<lambda>e. agent_mover e = Some n) fs)) u" for t'
  proof (induction rule: runs.induct)
    case (runs_none t')
    then show ?case using start by simp
  next
    case (runs_more t' fs v e w)
    then have inv: "enrolled n ?c (length (List.filter (\<lambda>e. agent_mover e = Some n) fs)) v" by blast
    have "runs broker_step (broker_new cloud) ((es @ [AHello n raw addr pub True net]) @ fs) v"
      using runs_append [OF run_t] runs_more.hyps(1) runs_more.prems by blast
    then have "agents_ok (tables_of v)" using broker_reachable_ok by (simp add: tables_ok_def)
    from enrolled_step [OF this inv runs_more.hyps(2)] show ?case
      by (cases "agent_mover e = Some n") simp_all
  qed
  then show ?thesis using fs by blast
qed

lemma register_answers:
  assumes "unmarshal_msg (marshal_msg m) = (m, True)"
  shows "opens_session m \<Longrightarrow> agent_register True True True (Some (marshal_msg m)) = Some (ErrUnexpected type_open)"
    and "m = confirmation \<Longrightarrow> agent_register True True True (Some (marshal_msg m)) = None"
  using assms by (auto simp: opens_session_def agent_register_def session_msg_def confirmation_def zero_msg_def msg_types)

text \<open>
  The first message of the connection: the confirmation, and accepted, if nothing was sent before;
  else the opening of an early browser's session, which ends the agent's \<open>Run\<close>.
\<close>

lemma first_answer:
  assumes run: "runs broker_step (broker_new cloud) es v" and ca: "bk_actl v n = Some ca" "ac_open ca"
    and step: "broker_step (AConfirm n True) v = Some w" and rest: "runs broker_step w fs u"
  shows "out_to u n \<noteq> [] \<and> agent_register True True True (Some (marshal_msg (hd (out_to u n)))) =
    (if out_to v n = [] then None else Some (ErrUnexpected type_open))"
proof -
  have pc: "ac_pc ca = ConfirmPc" using step ca by (auto simp: agent_confirm_def split: if_splits)
  have w: "out_to w n = out_to v n @ [confirmation]"
    using step ca pc by (auto simp: agent_confirm_def send_agent_def out_to_def confirmation_def split: if_splits)
  then have u: "out_to u n \<noteq> []" "hd (out_to u n) = hd (out_to v n @ [confirmation])"
    using first_stays [OF rest, of n] by auto
  have "runs broker_step (broker_new cloud) ((es @ [AConfirm n True]) @ fs) u"
    by (rule runs_append [OF runs_more [OF run step] rest])
  then have wf: "unmarshal_msg (marshal_msg (hd (out_to u n))) = (hd (out_to u n), True)"
    by (rule out_wf [where a = n]) (use u(1) in simp)
  have "out_to v n = [] \<or> opens_session (hd (out_to v n))"
    using first_ok_runs [OF run] ca pc by (auto simp: first_ok_def out_to_def)
  then show ?thesis using register_answers [OF wf] u by auto
qed

text \<open>While it sets up, a step of its own is possible.\<close>

lemma set_up_goes_on:
  assumes "bk_actl s n = Some c" and "setting_up (ac_pc c)"
  shows "steps_taken (ac_pc c) < 3 \<and> (\<exists>e t. agent_mover e = Some n \<and> broker_step e s = Some t)"
proof (cases "ac_pc c")
  case AttachPc
  then have "broker_step (AAttach n) s \<noteq> None"
    using assms by (simp add: agent_attach_def Let_def split: option.splits)
  then show ?thesis using AttachPc by (auto intro: exI [of _ "AAttach n"])
next
  case AddPc
  then have "broker_step (AAdd n 0) s \<noteq> None" using assms by (simp add: agent_add_def)
  then show ?thesis using AddPc by (auto intro: exI [of _ "AAdd n 0"])
next
  case ConfirmPc
  then have "broker_step (AConfirm n True) s \<noteq> None" using assms by (simp add: agent_confirm_def case_prod_beta Let_def)
  then show ?thesis using ConfirmPc by (auto intro: exI [of _ "AConfirm n True"])
qed (use assms(2) in simp_all)

section \<open>A browser that comes too early\<close>

text \<open>A published connection is open, and so is one that has not been published yet.\<close>

definition published_open :: "broker \<Rightarrow> bool" where
  "published_open s \<longleftrightarrow> (\<forall>n c. bk_actl s n = Some c \<longrightarrow>
     ac_pc c = AttachPc \<or> bk_agents s (ac_device c) = Some n \<longrightarrow> ac_open c)"

lemma published_open_step:
  assumes step: "broker_step e s = Some t" and ok: "agents_ok (tables_of s)" and opened: "published_open s"
  shows "published_open t"
proof -
  have table: "\<exists>c. bk_actl s n = Some c \<and> ac_device c = d \<and> ac_pc c \<noteq> AttachPc" if "bk_agents s d = Some n" for n d
    using ok_agents [OF ok that] by auto
  have "ac_open c'" if c': "bk_actl t n = Some c'" "ac_pc c' = AttachPc \<or> bk_agents t (ac_device c') = Some n" for n c'
  proof (cases e)
    case (AHello k raw addr pub verdict net)
    have "bk_agents s d \<noteq> Some k" for d using AHello step table [of d k] by (auto simp: agent_hello_def split: if_splits)
    then show ?thesis
      using AHello step c' opened
      by (auto simp: agent_hello_def Let_def published_open_def split: if_splits option.splits)
  next
    case (AAttach k)
    then obtain ck where ck: "bk_actl s k = Some ck" "ac_pc ck = AttachPc"
      using step by (auto simp: agent_attach_def split: option.splits if_splits)
    show ?thesis
      using AAttach step ck c' table opened
      by (cases "bk_agents s (ac_device ck)")
        (fastforce simp: agent_attach_def Let_def published_open_def split: if_splits)+
  next
    case (BOpen b net)
    then show ?thesis
      using step c' opened
      by (force simp: browser_open_def case_prod_beta send_agent_def published_open_def split: option.splits if_splits)
  next
    case (BInput b net)
    then show ?thesis
      using step c' opened
      by (force simp: browser_input_def case_prod_beta send_agent_def published_open_def
          split: option.splits if_splits browser_pc.splits)
  next
    case (BSayClose b net)
    then show ?thesis
      using step c' opened
      by (force simp: browser_say_close_def case_prod_beta send_agent_def published_open_def split: option.splits if_splits)
  qed (use step c' opened in \<open>(force simp: agent_segments browser_segments take_session_def case_prod_beta Let_def
        published_open_def split: option.splits if_splits agent_pc.splits browser_pc.splits)+\<close>)
  then show ?thesis unfolding published_open_def by blast
qed

lemma published_open_runs:
  assumes "runs broker_step (broker_new cloud) es s"
  shows "published_open s"
proof -
  have "runs broker_step s0 es s \<Longrightarrow> s0 = broker_new cloud \<Longrightarrow> published_open s" for s0
  proof (induction rule: runs.induct)
    case runs_none
    then show ?case by (simp add: published_open_def broker_new_def)
  next
    case (runs_more s es t e u)
    then have "agents_ok (tables_of t)" using broker_reachable_ok by (auto simp: tables_ok_def)
    then show ?case using published_open_step runs_more by blast
  qed
  then show ?thesis using assms by blast
qed

definition early_browser :: "nat \<Rightarrow> string \<Rightarrow> bytes \<Rightarrow> broker_event list" where
  "early_browser b d rnd = [BConnect b d True, BLookup b, BUpgrade b True rnd, BInsert b, BOpen b True]"

lemma early_browser_run:
  assumes "bk_actl s a = Some ca" and "ac_open ca" and "bk_agents s (ac_device ca) = Some a" and "bk_bctl s b = None"
  shows "\<exists>t. exec broker_step (early_browser b (ac_device ca) rnd) s = Some t \<and>
    bk_actl t a = Some (ca\<lparr>ac_out := ac_out ca @ [session_msg type_open (new_id rnd) []]\<rparr>)"
  using assms
  by (simp add: early_browser_def browser_connect_def browser_lookup_def browser_upgrade_def browser_insert_def
      browser_open_def send_agent_def)

lemma system_follows:
  assumes "exec broker_step es (sy_broker s) = Some v" and "\<forall>e\<in>set es. \<not> reads_agent a e"
  shows "exec (system_step a cfg) (map SBroker es) s = Some (s\<lparr>sy_broker := v, sy_bes := sy_bes s @ es\<rparr>)"
  using assms
proof (induction es arbitrary: s)
  case (Cons e es)
  then obtain w where w: "broker_step e (sy_broker s) = Some w" "exec broker_step es w = Some v"
    by (auto split: option.splits)
  from Cons.IH [of "s\<lparr>sy_broker := w, sy_bes := sy_bes s @ [e]\<rparr>"] w Cons.prems(2) show ?case
    by (simp add: move_broker_def)
qed simp

text \<open>The coordinator's half of a run of the composed machine.\<close>

lemma system_broker_runs:
  assumes "runs (system_step a cfg) (system_new cloud) es s" and "runs (system_step a cfg) s fs u"
  shows "\<exists>bs. runs broker_step (sy_broker s) bs (sy_broker u)"
  using assms(2,1)
proof (induction rule: runs.induct)
  case (runs_none s)
  then show ?case by (blast intro: runs.runs_none)
next
  case (runs_more s fs t e u)
  then obtain bs where bs: "runs broker_step (sy_broker s) bs (sy_broker t)" by blast
  have "system_ok a cfg cloud t" by (rule system_runs_ok [OF runs_append [OF runs_more.prems runs_more.hyps(1)]])
  from system_step_view [OF this runs_more.hyps(2)] bs show ?case by (auto intro: runs.runs_more)
qed

text \<open>
  C19. The race of an enrollment: the coordinator publishes an agent before it has confirmed its
  registration. From every reachable state in which an agent is published and not yet confirmed, a browser
  that asks for the device is let through; and then, whatever happens afterwards, the agent never
  starts: the first message it is sent is the opening of a session, which it takes for the answer
  to its registration and gives up on.
\<close>

theorem early_browser_breaks_enrollment:
  assumes "runs (system_step a cfg) (system_new cloud) es s"
    and "bk_actl (sy_broker s) a = Some ca" and "ac_pc ca \<in> {AddPc, ConfirmPc}"
    and "bk_agents (sy_broker s) (ac_device ca) = Some a" and "bk_bctl (sy_broker s) b = None"
  shows "\<exists>t. runs (system_step a cfg) s (map SBroker (early_browser b (ac_device ca) rnd)) t \<and>
    (\<forall>fs u. runs (system_step a cfg) t fs u \<longrightarrow> sy_agent u = None \<and> out_to (sy_broker u) a \<noteq> [] \<and>
      agent_register True True True (Some (marshal_msg (hd (out_to (sy_broker u) a)))) = Some (ErrUnexpected type_open))"
proof -
  let ?es = "early_browser b (ac_device ca) rnd"
  have run: "runs broker_step (broker_new cloud) (sy_bes s) (sy_broker s)"
    using system_runs_ok [OF assms(1)] by (simp add: system_ok_def)
  have "ac_open ca" using published_open_runs [OF run] assms(2,4) by (simp add: published_open_def)
  then obtain v where v: "exec broker_step ?es (sy_broker s) = Some v"
      "bk_actl v a = Some (ca\<lparr>ac_out := ac_out ca @ [session_msg type_open (new_id rnd) []]\<rparr>)"
    using early_browser_run [OF assms(2) _ assms(4,5)] by blast
  define t where "t = s\<lparr>sy_broker := v, sy_bes := sy_bes s @ ?es\<rparr>"
  have t: "runs (system_step a cfg) s (map SBroker ?es) t"
    unfolding runs_exec t_def by (rule system_follows [OF v(1)]) (simp add: early_browser_def)
  have run_v: "runs broker_step (broker_new cloud) (sy_bes s @ ?es) v"
    by (rule runs_append [OF run]) (simp add: runs_exec v(1))
  have "\<forall>n c. bk_actl v n = Some c \<longrightarrow> setting_up (ac_pc c) \<longrightarrow> ac_out c = [] \<or> opens_session (hd (ac_out c))"
    using first_ok_runs [OF run_v] unfolding first_ok_def by blast
  moreover have "setting_up (ac_pc ca)" using assms(3) by auto
  ultimately have "out_to v a \<noteq> []" "opens_session (hd (out_to v a))"
    using v(2) by (fastforce simp: out_to_def)+
  moreover have "sy_agent u = None \<and> out_to (sy_broker u) a \<noteq> [] \<and>
      agent_register True True True (Some (marshal_msg (hd (out_to (sy_broker u) a)))) = Some (ErrUnexpected type_open)"
    if fs: "runs (system_step a cfg) t fs u" and first: "out_to v a \<noteq> []" "opens_session (hd (out_to v a))" for fs u
  proof -
    have run_t: "runs (system_step a cfg) (system_new cloud) (es @ map SBroker ?es) t"
      by (rule runs_append [OF assms(1) t])
    have ok: "system_ok a cfg cloud u" by (rule system_runs_ok [OF runs_append [OF run_t fs]])
    obtain bs where "runs broker_step (sy_broker t) bs (sy_broker u)"
      using system_broker_runs [OF run_t fs] by blast
    then have u: "out_to (sy_broker u) a \<noteq> []" "opens_session (hd (out_to (sy_broker u) a))"
      using first_stays [of v bs "sy_broker u" a] first by (simp_all add: t_def)
    have "unmarshal_msg (marshal_msg (hd (out_to (sy_broker u) a))) = (hd (out_to (sy_broker u) a), True)"
      by (rule out_wf [where a = a]) (use ok u(1) in \<open>auto simp: system_ok_def\<close>)
    then have "agent_register True True True (Some (marshal_msg (hd (out_to (sy_broker u) a)))) = Some (ErrUnexpected type_open)"
      using register_answers(1) u(2) by blast
    then show ?thesis using ok u(1) by (auto simp: system_ok_def split: option.splits)
  qed
  ultimately show ?thesis using t by blast
qed

section \<open>Concrete runs\<close>

lemma demo_attaching:
  "\<exists>s ca. runs (system_step 0 demo_agent_cfg) (system_new ''cloud'') [SHello ''addr'' ''key'' True True, SBroker (AAttach 0)] s \<and>
     bk_actl (sy_broker s) 0 = Some ca \<and> ac_pc ca = AddPc \<and>
     bk_agents (sy_broker s) (ac_device ca) = Some 0 \<and> bk_bctl (sy_broker s) 2 = None"
  by (simp add: runs_exec system_new_def move_broker_def agent_hello_def agent_attach_def broker_new_def Let_def)

theorem early_browser_breaks_enrollment_witness:
  "\<exists>s t d. runs (system_step 0 demo_agent_cfg) (system_new ''cloud'') [SHello ''addr'' ''key'' True True, SBroker (AAttach 0)] s \<and>
     runs (system_step 0 demo_agent_cfg) s (map SBroker (early_browser 2 d demo_id_bytes)) t \<and> sy_agent t = None"
proof -
  obtain s ca where s: "runs (system_step 0 demo_agent_cfg) (system_new ''cloud'') [SHello ''addr'' ''key'' True True, SBroker (AAttach 0)] s"
      and ca: "bk_actl (sy_broker s) 0 = Some ca" "ac_pc ca = AddPc"
        "bk_agents (sy_broker s) (ac_device ca) = Some 0" "bk_bctl (sy_broker s) 2 = None"
    using demo_attaching by blast
  have "ac_pc ca \<in> {AddPc, ConfirmPc}" using ca(2) by simp
  from early_browser_breaks_enrollment [OF s ca(1) this ca(3,4), of demo_id_bytes] s show ?thesis
    using runs_none [of "system_step 0 demo_agent_cfg"] by blast
qed

end
