(* ===== verification/LegacyHub.thy ===== *)
theory LegacyHub
  imports Protocol
begin

text \<open>
  The hub of the first broker (\<open>_legacy/broker\<close>: \<open>hub.go\<close>, \<open>broker.go\<close>, \<open>client.go\<close>,
  \<open>agents.go\<close>, \<open>channels.go\<close>, \<open>devices.go\<close>; \<open>_legacy/common\<close>: \<open>http.go\<close>): HTTP handlers and
  readers that put work into the hub's queues, the loop that takes it out, the goroutine that
  validates an agent's token and the goroutine that listens for a channel. A step is one of
  those goroutines doing one piece of work; the program's globals are part of the state. A
  panic outside an HTTP handler, \<open>log.Fatal\<close> and \<open>os.Exit\<close> end the program: such a step crashes.
\<close>

section \<open>State\<close>

datatype crash =
    NilConnection
  | NilSession
  | BadAuthdata
  | BadAgentRequest
  | AuthUnreachable
  | ListenFailed int
  | DialFailed int
  | ServeEnded int
  | BadRequest
  | BodyUnread
  | StreamEnded
  | MarshalFailed
  | BadMessage
  | DataMismatch int int
  | TextMismatch string string

datatype 's outcome = Next 's | Crash crash

record legacy_agent =
  la_token :: string
  la_secret :: string
  la_pubkey :: string

record legacy_device =
  ld_token :: string
  ld_update :: int

record legacy_client =
  lc_token :: string
  lc_sid :: "32 word"
  lc_out :: "string list"

record legacy_session =
  ls_token :: string
  ls_sid :: "32 word"
  ls_client :: nat

record channel_session =
  cs_sid :: int
  cs_device :: string
  cs_ip :: string
  cs_port :: int

record hub_message =
  hm_type :: nat
  hm_data :: bytes
  hm_client :: nat
  hm_sid :: "32 word"

text \<open>
  \<open>hb_validating\<close>: the validations under way; \<open>hb_listening\<close>: the ports in use;
  \<open>hb_starting\<close>: channels whose goroutine has not listened yet. A \<open>channelIO\<close> is a fresh number.
\<close>

record hub =
  hb_agents :: "string \<rightharpoonup> legacy_agent"
  hb_devices :: "string \<rightharpoonup> legacy_device"
  hb_sids :: "32 word \<rightharpoonup> legacy_session"
  hb_register :: "legacy_agent list"
  hb_opening :: "nat set"
  hb_sessions :: "nat list"
  hb_users :: "hub_message list"
  hb_counter :: "32 word"
  hb_clients :: "nat \<rightharpoonup> legacy_client"
  hb_validating :: "nat \<rightharpoonup> legacy_agent"
  hb_channels :: "int \<rightharpoonup> nat"
  hb_next_io :: nat
  hb_sources :: "string \<rightharpoonup> int"
  hb_links :: "string \<rightharpoonup> channel_session"
  hb_finished :: "string set"
  hb_starting :: "int list"
  hb_listening :: "int set"

definition new_main_hub :: hub where
  "new_main_hub = \<lparr>hb_agents = Map.empty, hb_devices = Map.empty, hb_sids = Map.empty, hb_register = [],
     hb_opening = {}, hb_sessions = [], hb_users = [], hb_counter = 0, hb_clients = Map.empty, hb_validating = Map.empty,
     hb_channels = Map.empty, hb_next_io = 0, hb_sources = Map.empty, hb_links = Map.empty,
     hb_finished = {}, hb_starting = [], hb_listening = {}\<rparr>"

definition register_cap :: nat where "register_cap = 100"
definition sessions_cap :: nat where "sessions_cap = 100"
definition users_cap :: nat where "users_cap = 1000"

section \<open>Numbers as text\<close>

fun nat_digits :: "nat \<Rightarrow> string" where
  "nat_digits n = (if n < 10 then [char_of (48 + n)] else nat_digits (n div 10) @ [char_of (48 + n mod 10)])"

declare nat_digits.simps [simp del]

definition format_int :: "int \<Rightarrow> string" where
  "format_int i = (if i < 0 then CHR ''-'' # nat_digits (nat (- i)) else nat_digits (nat i))"

text \<open>\<open>Str2int\<close>: \<open>strconv.Atoi\<close>, whose result on an error is 0 or the nearest bound.\<close>

definition max_int :: int where "max_int = 9223372036854775807"

definition str2int :: "string \<Rightarrow> int" where
  "str2int s =
     (let (neg, d) = (case s of [] \<Rightarrow> (False, []) | c # r \<Rightarrow>
            if c = CHR ''-'' then (True, r) else if c = CHR ''+'' then (False, r) else (False, s))
      in case decimal d of
          None \<Rightarrow> 0
        | Some n \<Rightarrow> if neg then max (- max_int - 1) (- int n) else min max_int (int n))"

section \<open>Requests and replies\<close>

definition text_message :: nat where "text_message = 1"
definition binary_message :: nat where "binary_message = 2"

text \<open>A \<open>TRequest\<close> as \<open>json.Marshal\<close> writes it.\<close>

definition ack_text :: "string \<Rightarrow> (string \<times> string) option \<Rightarrow> string" where
  "ack_text ty data = render (JObj [(''Type'', JStr ty),
     (''Data'', case data of None \<Rightarrow> JNull | Some (k, v) \<Rightarrow> JObj [(k, JStr v)])])"

text \<open>\<open>json.Unmarshal\<close> into a \<open>TRequest\<close>, its error ignored: the type and the data.\<close>

definition decode_request_field ::
  "string \<times> json \<Rightarrow> string \<times> (string \<rightharpoonup> json) \<Rightarrow> string \<times> (string \<rightharpoonup> json)" where
  "decode_request_field kv req =
     (let k = fold_name (fst kv) in
      if k = ''type'' then (case snd kv of JStr s \<Rightarrow> (s, snd req) | _ \<Rightarrow> req)
      else if k = ''data'' then
        (case snd kv of
           JObj ms \<Rightarrow> (fst req, snd req ++ map_of (rev ms))
         | JNull \<Rightarrow> (fst req, Map.empty)
         | _ \<Rightarrow> req)
      else req)"

definition decode_request :: "bytes \<Rightarrow> string \<times> (string \<rightharpoonup> json)" where
  "decode_request data =
     (case parse_json (go_string data) of
        Some (JObj ms) \<Rightarrow> fold decode_request_field ms ([], Map.empty)
      | _ \<Rightarrow> ([], Map.empty))"

text \<open>The reply of \<open>mm-auth\<close>'s predecessor, decoded into a map: is its status ok?\<close>

definition reply_ok :: "string \<Rightarrow> bool" where
  "reply_ok body =
     (case parse_first body of
        Some (JObj ms) \<Rightarrow> map_of (rev ms) ''status'' = Some (JStr ''ok'')
      | _ \<Rightarrow> False)"

section \<open>Clients\<close>

definition write_client :: "nat \<Rightarrow> string \<Rightarrow> hub \<Rightarrow> hub" where
  "write_client c m s =
     (case hb_clients s c of
        None \<Rightarrow> s
      | Some k \<Rightarrow> s\<lparr>hb_clients := (hb_clients s)(c \<mapsto> k\<lparr>lc_out := lc_out k @ [m]\<rparr>)\<rparr>)"

text \<open>
  \<open>wsPeersHandler\<close>: the error of the upgrade is dropped, and the reader that is started then
  reads from a nil connection. The client then waits until the queue of the hub has room.
\<close>

definition ws_peers_handler :: "nat \<Rightarrow> string \<Rightarrow> bool \<Rightarrow> hub \<Rightarrow> hub outcome option" where
  "ws_peers_handler c token upgraded s =
     (if hb_clients s c \<noteq> None then None
      else if \<not> upgraded then Some (Crash NilConnection)
      else Some (Next (s\<lparr>hb_clients := (hb_clients s)(c \<mapsto> \<lparr>lc_token = token, lc_sid = 0, lc_out = []\<rparr>),
                         hb_opening := insert c (hb_opening s)\<rparr>)))"

definition queue_client :: "nat \<Rightarrow> hub \<Rightarrow> hub outcome option" where
  "queue_client c s =
     (if c \<notin> hb_opening s \<or> sessions_cap \<le> length (hb_sessions s) then None
      else Some (Next (s\<lparr>hb_opening := hb_opening s - {c}, hb_sessions := hb_sessions s @ [c]\<rparr>)))"

text \<open>One message of the client's reader: it is queued with the session id the client has now.\<close>

definition client_read :: "nat \<Rightarrow> nat \<Rightarrow> bytes \<Rightarrow> hub \<Rightarrow> hub outcome option" where
  "client_read c ty data s =
     (case hb_clients s c of
        None \<Rightarrow> None
      | Some k \<Rightarrow>
          if users_cap \<le> length (hb_users s) then None
          else Some (Next (s\<lparr>hb_users := hb_users s @
            [\<lparr>hm_type = ty, hm_data = data, hm_client = c, hm_sid = lc_sid k\<rparr>]\<rparr>)))"

section \<open>Agents\<close>

text \<open>
  \<open>serverHandler\<close>, after the body was read: the decoded \<open>AgentAuth\<close> as token, public key and
  device id, or None if it does not decode. The reply is the session waiting for the device.
\<close>

definition server_handler ::
  "(string \<times> string \<times> string) option \<Rightarrow> hub \<Rightarrow> (hub outcome \<times> channel_session option) option" where
  "server_handler auth s =
     (case auth of
        None \<Rightarrow> Some (Crash BadAgentRequest, None)
      | Some (token, public_key, device) \<Rightarrow>
          (case hb_links s device of
             Some cs \<Rightarrow> Some (Next s, Some cs)
           | None \<Rightarrow>
               if register_cap \<le> length (hb_register s) then None
               else Some (Next (s\<lparr>hb_register := hb_register s @
                 [\<lparr>la_token = device, la_secret = token, la_pubkey = public_key\<rparr>]\<rparr>), None)))"

text \<open>\<open>handleAgentRegistration\<close>; \<open>n\<close> numbers the goroutine it starts.\<close>

definition handle_agent_registration :: "nat \<Rightarrow> hub \<Rightarrow> hub option" where
  "handle_agent_registration n s =
     (case hb_register s of
        [] \<Rightarrow> None
      | a # q \<Rightarrow>
          (let s = s\<lparr>hb_register := q\<rparr> in
           if hb_agents s (la_token a) \<noteq> None then Some s
           else if hb_validating s n \<noteq> None then None
           else Some (s\<lparr>hb_validating := (hb_validating s)(n \<mapsto> a)\<rparr>)))"

text \<open>
  \<open>authTokenValidation\<close> with its callback. Nothing ever receives from the channel it ends on, so
  the goroutine stays; that it may still be there is invisible.
\<close>

definition auth_token_validation :: "nat \<Rightarrow> string option \<Rightarrow> int \<Rightarrow> hub \<Rightarrow> hub outcome option" where
  "auth_token_validation n reply now s =
     (case hb_validating s n of
        None \<Rightarrow> None
      | Some a \<Rightarrow>
          (case reply of
             None \<Rightarrow> Some (Crash AuthUnreachable)
           | Some body \<Rightarrow>
               (let s = s\<lparr>hb_validating := (hb_validating s)(n := None)\<rparr> in
                Some (Next (if reply_ok body
                  then s\<lparr>hb_agents := (hb_agents s)(la_token a \<mapsto> a),
                         hb_devices := (hb_devices s)(la_token a \<mapsto> \<lparr>ld_token = la_token a, ld_update = now\<rparr>)\<rparr>
                  else s)))))"

section \<open>The loop of the hub\<close>

text \<open>\<open>handleSession\<close>: the counter is a 32-bit word, and it is written in signed decimal.\<close>

definition handle_session :: "hub \<Rightarrow> hub option" where
  "handle_session s =
     (case hb_sessions s of
        [] \<Rightarrow> None
      | c # q \<Rightarrow>
          (case hb_clients s c of
             None \<Rightarrow> None
           | Some k \<Rightarrow>
               (let s = s\<lparr>hb_sessions := q\<rparr> in
                Some (case hb_agents s (lc_token k) of
                    None \<Rightarrow> write_client c (ack_text ''auth'' None) s
                  | Some _ \<Rightarrow>
                      (let sid = hb_counter s + 1 in
                       write_client c (ack_text ''auth'' (Some (''sid'', format_int (sint sid))))
                         (s\<lparr>hb_counter := sid,
                            hb_clients := (hb_clients s)(c \<mapsto> k\<lparr>lc_sid := sid\<rparr>),
                            hb_sids := (hb_sids s)(sid \<mapsto>
                              \<lparr>ls_token = lc_token k, ls_sid = sid, ls_client = c\<rparr>)\<rparr>))))))"

text \<open>
  What the two channel-creating handlers share: a fresh \<open>channelIO\<close> becomes the channel of the
  only source there is, the device gets a link, and a goroutine starts to listen.
\<close>

definition local_source :: string where "local_source = ''127.0.0.1''"

definition create_channel :: "int \<Rightarrow> channel_session \<Rightarrow> hub \<Rightarrow> hub" where
  "create_channel sid link s =
     s\<lparr>hb_sources := (hb_sources s)(local_source \<mapsto> sid),
       hb_channels := (hb_channels s)(sid \<mapsto> hb_next_io s), hb_next_io := Suc (hb_next_io s),
       hb_links := (hb_links s)(cs_device link \<mapsto> link),
       hb_finished := insert (cs_device link) (hb_finished s),
       hb_starting := hb_starting s @ [cs_port link]\<rparr>"

definition channel_port :: "int \<Rightarrow> int" where "channel_port sid = 7000 + sid"

text \<open>\<open>handleIncomingMessages\<close>; \<open>host\<close> is the configured name of the broker.\<close>

definition handle_incoming_messages :: "string \<Rightarrow> hub \<Rightarrow> hub outcome option" where
  "handle_incoming_messages host s =
     (case hb_users s of
        [] \<Rightarrow> None
      | m # q \<Rightarrow>
          (let s = s\<lparr>hb_users := q\<rparr>; (ty, data) = decode_request (hm_data m) in
           if hm_type m = binary_message then Some (Next s)
           else if ty \<noteq> ''auth'' then Some (Next s)
           else if hm_sid m = 0 then
             Some (Next (write_client (hm_client m)
               (ack_text ''auth'' (Some (''message'', ''client lost the session information''))) s))
           else case hb_sids s (hm_sid m) of
               None \<Rightarrow> Some (Crash NilSession)
             | Some session \<Rightarrow>
                 if hb_agents s (ls_token session) = None then Some (Next s)
                 else case data ''authdata'' of
                     Some (JStr authdata) \<Rightarrow>
                       if authdata = ''not_authorised_user'' then
                         Some (Next (write_client (hm_client m)
                           (ack_text ''auth'' (Some (''error'', ''not authorised''))) s))
                       else
                         (let sid = sint (hm_sid m) in
                          Some (Next (write_client (hm_client m) (ack_text ''auth'' (Some (''ack'', ''ok'')))
                            (create_channel sid \<lparr>cs_sid = 1, cs_device = ls_token session, cs_ip = host,
                               cs_port = channel_port sid\<rparr> s))))
                   | _ \<Rightarrow> Some (Crash BadAuthdata)))"

section \<open>Channels\<close>

text \<open>
  \<open>createChannel\<close>: listening fails for a port that is not one or that is in use, or for a reason
  of the system, and then ends the program; port 0 is any free port.
\<close>

definition listen_channel :: "nat \<Rightarrow> bool \<Rightarrow> hub \<Rightarrow> hub outcome option" where
  "listen_channel i free s =
     (if length (hb_starting s) \<le> i then None
      else (let port = hb_starting s ! i;
                s = s\<lparr>hb_starting := take i (hb_starting s) @ drop (Suc i) (hb_starting s)\<rparr>
            in if port < 0 \<or> 65535 < port \<or> port \<in> hb_listening s \<or> \<not> free then Some (Crash (ListenFailed port))
               else Some (Next (if port = 0 then s else s\<lparr>hb_listening := insert port (hb_listening s)\<rparr>))))"

definition ws_admin_create_channel :: "string \<Rightarrow> string \<Rightarrow> hub \<Rightarrow> hub" where
  "ws_admin_create_channel channel port s =
     create_channel 1 \<lparr>cs_sid = 1, cs_device = channel, cs_ip = ''127.0.0.1'', cs_port = str2int port\<rparr> s"

text \<open>
  \<open>wsChannelHandler\<close>: the channel a browser is connected to. The path variable it reads is not the
  one of its route and is only logged; a missing map entry reads as the session 0 and the empty channel.
\<close>

definition ws_channel :: "string \<Rightarrow> hub \<Rightarrow> nat option" where
  "ws_channel token s =
     hb_channels s (case hb_sources s local_source of None \<Rightarrow> 0 | Some sid \<Rightarrow> sid)"

section \<open>Devices\<close>

text \<open>\<open>httpDevicesHandler\<close> for the devices in the order Go visited them.\<close>

definition devices_json :: "string \<Rightarrow> legacy_device list \<Rightarrow> json" where
  "devices_json cloud ds =
     JObj [(''nodes'', JArr (JObj [(''id'', JStr cloud), (''group'', JNum ''1'')] #
              map (\<lambda>d. JObj [(''id'', JStr (ld_token d)), (''group'', JNum ''2'')]) ds)),
           (''links'', JArr (map (\<lambda>d. JObj [(''source'', JStr (ld_token d)), (''target'', JStr cloud)]) ds))]"

section \<open>Runs\<close>

datatype hub_event =
    HOpen nat string bool
  | HQueue nat
  | HClientRead nat nat bytes
  | HAgent "(string \<times> string \<times> string) option"
  | HRegister nat
  | HValidated nat "string option" int
  | HSession
  | HUser
  | HListen nat bool
  | HAdmin string string

fun hub_step :: "string \<Rightarrow> hub_event \<Rightarrow> hub \<Rightarrow> hub outcome option" where
  "hub_step host (HOpen c token upgraded) s = ws_peers_handler c token upgraded s"
| "hub_step host (HQueue c) s = queue_client c s"
| "hub_step host (HClientRead c ty data) s = client_read c ty data s"
| "hub_step host (HAgent auth) s = map_option fst (server_handler auth s)"
| "hub_step host (HRegister n) s = map_option Next (handle_agent_registration n s)"
| "hub_step host (HValidated n reply now) s = auth_token_validation n reply now s"
| "hub_step host HSession s = map_option Next (handle_session s)"
| "hub_step host HUser s = handle_incoming_messages host s"
| "hub_step host (HListen i free) s = listen_channel i free s"
| "hub_step host (HAdmin channel port) s = Some (Next (ws_admin_create_channel channel port s))"

text \<open>The steps that the program survives, as a machine.\<close>

definition hub_alive :: "string \<Rightarrow> hub_event \<Rightarrow> hub \<Rightarrow> hub option" where
  "hub_alive host e s = (case hub_step host e s of Some (Next t) \<Rightarrow> Some t | _ \<Rightarrow> None)"

definition hub_crashes :: "string \<Rightarrow> hub_event \<Rightarrow> hub \<Rightarrow> crash option" where
  "hub_crashes host e s = (case hub_step host e s of Some (Crash c) \<Rightarrow> Some c | _ \<Rightarrow> None)"

end
