(* ===== verification/LegacyFacts.thy ===== *)
theory LegacyFacts
  imports LegacyHub
begin

text \<open>
  What holds of the first broker: the sessions of its tables agree with its clients, which of a
  client's messages end the program, and which channel a browser is given.
\<close>

section \<open>The invariant\<close>

definition sid_known :: "hub \<Rightarrow> 32 word \<Rightarrow> bool" where
  "sid_known s i \<longleftrightarrow> i = 0 \<or> hb_sids s i \<noteq> None"

definition client_sid :: "hub \<Rightarrow> nat \<Rightarrow> 32 word option" where
  "client_sid s c = map_option lc_sid (hb_clients s c)"

definition session_agents :: "hub \<Rightarrow> bool" where
  "session_agents s \<longleftrightarrow> (\<forall>i x. hb_sids s i = Some x \<longrightarrow> hb_agents s (ls_token x) \<noteq> None)"

definition hub_ok :: "hub \<Rightarrow> bool" where
  "hub_ok s \<longleftrightarrow> session_agents s \<and> (\<forall>c i. client_sid s c = Some i \<longrightarrow> sid_known s i) \<and>
     (\<forall>m\<in>set (hb_users s). sid_known s (hm_sid m))"

lemma write_client_frame [simp]:
  "hb_agents (write_client c m s) = hb_agents s" "hb_sids (write_client c m s) = hb_sids s"
  "hb_users (write_client c m s) = hb_users s" "client_sid (write_client c m s) = client_sid s"
  "hb_sources (write_client c m s) = hb_sources s" "hb_channels (write_client c m s) = hb_channels s"
  "hb_next_io (write_client c m s) = hb_next_io s" "hb_starting (write_client c m s) = hb_starting s"
  "hb_listening (write_client c m s) = hb_listening s"
  by (auto simp: write_client_def client_sid_def split: option.split)

lemma create_channel_frame [simp]:
  "hb_agents (create_channel i l s) = hb_agents s" "hb_sids (create_channel i l s) = hb_sids s"
  "hb_users (create_channel i l s) = hb_users s" "client_sid (create_channel i l s) = client_sid s"
  "hb_listening (create_channel i l s) = hb_listening s"
  "hb_starting (create_channel i l s) = hb_starting s @ [cs_port l]"
  by (auto simp: create_channel_def client_sid_def)

text \<open>Growing tables keep the invariant.\<close>

lemma hub_ok_grow:
  assumes ok: "hub_ok s"
    and agents: "\<And>k. hb_agents s k \<noteq> None \<Longrightarrow> hb_agents t k \<noteq> None"
    and sids: "\<And>i x. hb_sids t i = Some x \<Longrightarrow> hb_sids s i = Some x \<or> hb_agents t (ls_token x) \<noteq> None"
    and known: "\<And>i. hb_sids s i \<noteq> None \<Longrightarrow> hb_sids t i \<noteq> None"
    and clients: "\<And>c i. client_sid t c = Some i \<Longrightarrow> client_sid s c = Some i \<or> sid_known t i"
    and users: "\<And>m. m \<in> set (hb_users t) \<Longrightarrow> m \<in> set (hb_users s) \<or> sid_known t (hm_sid m)"
  shows "hub_ok t"
proof -
  have known': "sid_known s i \<Longrightarrow> sid_known t i" for i using known by (auto simp: sid_known_def)
  have "hb_agents t (ls_token x) \<noteq> None" if "hb_sids t i = Some x" for i x
    using sids [OF that] agents ok unfolding hub_ok_def session_agents_def by blast
  moreover have "sid_known t i" if "client_sid t c = Some i" for c i
    using clients [OF that] known' ok unfolding hub_ok_def by blast
  moreover have "sid_known t (hm_sid m)" if "m \<in> set (hb_users t)" for m
    using users [OF that] known' ok unfolding hub_ok_def by blast
  ultimately show ?thesis unfolding hub_ok_def session_agents_def by blast
qed

lemma hub_ok_cong:
  "hub_ok s \<Longrightarrow> hb_agents t = hb_agents s \<Longrightarrow> hb_sids t = hb_sids s \<Longrightarrow> set (hb_users t) \<subseteq> set (hb_users s) \<Longrightarrow>
   client_sid t = client_sid s \<Longrightarrow> hub_ok t"
  by (rule hub_ok_grow [of s]) auto

lemma client_sid_update [simp]:
  "client_sid (s\<lparr>hb_clients := (hb_clients s)(c \<mapsto> k)\<rparr>) = (client_sid s)(c \<mapsto> lc_sid k)"
  by (simp add: client_sid_def fun_eq_iff)

lemma client_sid_frame [simp]:
  "client_sid (s\<lparr>hb_users := u\<rparr>) = client_sid s" "client_sid (s\<lparr>hb_sids := d\<rparr>) = client_sid s"
  "client_sid (s\<lparr>hb_sessions := q\<rparr>) = client_sid s" "client_sid (s\<lparr>hb_counter := n\<rparr>) = client_sid s"
  "client_sid (s\<lparr>hb_opening := o'\<rparr>) = client_sid s" "client_sid (s\<lparr>hb_register := r\<rparr>) = client_sid s"
  "client_sid (s\<lparr>hb_validating := v\<rparr>) = client_sid s" "client_sid (s\<lparr>hb_starting := l\<rparr>) = client_sid s"
  "client_sid (s\<lparr>hb_listening := p\<rparr>) = client_sid s" "client_sid (s\<lparr>hb_agents := g\<rparr>) = client_sid s"
  "client_sid (s\<lparr>hb_devices := e\<rparr>) = client_sid s"
  by (simp_all add: client_sid_def fun_eq_iff)

lemma client_read_ok:
  assumes "hub_ok s" and "client_read c ty d s = Some (Next t)"
  shows "hub_ok t"
proof -
  obtain k where k: "hb_clients s c = Some k" and
    t: "t = s\<lparr>hb_users := hb_users s @ [\<lparr>hm_type = ty, hm_data = d, hm_client = c, hm_sid = lc_sid k\<rparr>]\<rparr>"
    using assms(2) by (auto simp: client_read_def split: option.splits if_splits)
  have "client_sid s c = Some (lc_sid k)" using k by (simp add: client_sid_def)
  then have "sid_known s (lc_sid k)" using assms(1) unfolding hub_ok_def by blast
  then have "sid_known t (lc_sid k)" by (simp add: t sid_known_def)
  then show ?thesis by (intro hub_ok_grow [OF assms(1)]) (auto simp: t)
qed

lemma handle_session_ok:
  assumes "hub_ok s" and "handle_session s = Some t"
  shows "hub_ok t"
proof -
  obtain c q where c1: "hb_sessions s = c # q"
    using assms(2) by (cases "hb_sessions s") (simp_all add: handle_session_def)
  obtain k where c2: "hb_clients s c = Some k"
    using assms(2) by (cases "hb_clients s c") (simp_all add: handle_session_def c1)
  note c = c1 c2
  show ?thesis
  proof (cases "hb_agents s (lc_token k)")
    case None
    then have t: "t = write_client c (ack_text ''auth'' None) (s\<lparr>hb_sessions := q\<rparr>)"
      using assms(2) c by (simp add: handle_session_def)
    show ?thesis unfolding t by (rule hub_ok_cong [OF assms(1)]) simp_all
  next
    case (Some a)
    define i where "i = hb_counter s + 1"
    define x where "x = \<lparr>ls_token = lc_token k, ls_sid = i, ls_client = c\<rparr>"
    have t: "t = write_client c (ack_text ''auth'' (Some (''sid'', format_int (sint i))))
      (s\<lparr>hb_sessions := q, hb_counter := i, hb_clients := (hb_clients s)(c \<mapsto> k\<lparr>lc_sid := i\<rparr>),
         hb_sids := (hb_sids s)(i \<mapsto> x)\<rparr>)"
      using assms(2) c Some by (simp add: handle_session_def Let_def i_def x_def)
    have cs: "client_sid t = (client_sid s)(c \<mapsto> i)" by (simp add: t client_sid_def fun_eq_iff)
    have st: "hb_sids t = (hb_sids s)(i \<mapsto> x)" "hb_agents t = hb_agents s" "hb_users t = hb_users s"
      by (simp_all add: t)
    have "ls_token x = lc_token k" by (simp add: x_def)
    then show ?thesis
      by (intro hub_ok_grow [OF assms(1)]) (auto simp: cs st sid_known_def Some split: if_splits)
  qed
qed

lemma handle_incoming_frame:
  assumes "hb_users s = m # q" and "handle_incoming_messages host s = Some (Next t)"
  shows "hb_agents t = hb_agents s" "hb_sids t = hb_sids s" "hb_users t = q" "client_sid t = client_sid s"
  using assms
  by (auto simp: handle_incoming_messages_def Let_def split: prod.splits if_splits option.splits json.splits)

lemma handle_incoming_ok:
  assumes "hub_ok s" and "handle_incoming_messages host s = Some (Next t)"
  shows "hub_ok t"
proof -
  obtain m q where q: "hb_users s = m # q"
    using assms(2) by (auto simp: handle_incoming_messages_def split: list.splits)
  show ?thesis
    by (rule hub_ok_cong [OF assms(1)])
       (simp_all add: handle_incoming_frame [OF q assms(2)] q subset_insertI)
qed

lemma validation_ok:
  assumes "hub_ok s" and "auth_token_validation n reply now s = Some (Next t)"
  shows "hub_ok t"
  by (rule hub_ok_grow [OF assms(1)])
     (use assms(2) in \<open>auto simp: auth_token_validation_def Let_def split: option.splits if_splits\<close>)

lemma hub_step_ok:
  assumes "hub_ok s" and "hub_step host e s = Some (Next t)"
  shows "hub_ok t"
proof (cases e)
  case (HOpen c token up)
  with assms(2) have "t = s\<lparr>hb_clients := (hb_clients s)(c \<mapsto> \<lparr>lc_token = token, lc_sid = 0, lc_out = []\<rparr>),
      hb_opening := insert c (hb_opening s)\<rparr>"
    by (auto simp: ws_peers_handler_def split: if_splits)
  then show ?thesis
    by (intro hub_ok_grow [OF assms(1)]) (auto simp: sid_known_def split: if_splits)
next
  case (HQueue c)
  with assms(2) show ?thesis
    by (intro hub_ok_cong [OF assms(1)]) (auto simp: queue_client_def split: if_splits)
next
  case (HAgent auth)
  with assms(2) show ?thesis
    by (intro hub_ok_cong [OF assms(1)])
       (auto simp: server_handler_def split: option.splits prod.splits if_splits)
next
  case (HRegister n)
  with assms(2) show ?thesis
    by (intro hub_ok_cong [OF assms(1)])
       (auto simp: handle_agent_registration_def Let_def split: list.splits if_splits)
next
  case (HListen i free)
  with assms(2) show ?thesis
    by (intro hub_ok_cong [OF assms(1)]) (auto simp: listen_channel_def Let_def split: if_splits)
next
  case (HAdmin channel port)
  with assms(2) have "t = ws_admin_create_channel channel port s" by simp
  then show ?thesis
    by (intro hub_ok_cong [OF assms(1)]) (simp_all add: ws_admin_create_channel_def)
next
  case (HClientRead c ty d)
  with assms show ?thesis by (auto intro: client_read_ok)
next
  case (HValidated n reply now)
  with assms show ?thesis by (auto intro: validation_ok)
next
  case HSession
  with assms show ?thesis by (auto intro: handle_session_ok)
next
  case HUser
  with assms show ?thesis by (auto intro: handle_incoming_ok)
qed

interpretation legacy_hub: machine "hub_alive host" hub_ok for host
  by unfold_locales (auto simp: hub_alive_def intro: hub_step_ok split: option.splits outcome.splits)

lemma hub_ok_new: "hub_ok new_main_hub"
  by (simp add: hub_ok_def session_agents_def client_sid_def new_main_hub_def)

lemma hub_reachable: "runs (hub_alive host) new_main_hub es s \<Longrightarrow> hub_ok s"
  using legacy_hub.ok_runs hub_ok_new by blast

section \<open>What a client's message does\<close>

text \<open>An authentication that is accepted: a text message with any other authdata than the one refused.\<close>

definition auth_data :: "hub_message \<Rightarrow> string option" where
  "auth_data m = (case snd (decode_request (hm_data m)) ''authdata'' of Some (JStr a) \<Rightarrow> Some a | _ \<Rightarrow> None)"

definition is_auth :: "hub_message \<Rightarrow> bool" where
  "is_auth m \<longleftrightarrow> hm_type m \<noteq> binary_message \<and> fst (decode_request (hm_data m)) = ''auth'' \<and> hm_sid m \<noteq> 0"

definition accepted :: "hub_message \<Rightarrow> bool" where
  "accepted m \<longleftrightarrow> is_auth m \<and> auth_data m \<noteq> None \<and> auth_data m \<noteq> Some ''not_authorised_user''"

lemma head_session:
  assumes "hub_ok s" and "hb_users s = m # q" and "hm_sid m \<noteq> 0"
  shows "\<exists>x. hb_sids s (hm_sid m) = Some x \<and> hb_agents s (ls_token x) \<noteq> None"
proof -
  have "sid_known s (hm_sid m)" using assms(1,2) unfolding hub_ok_def by simp
  then obtain x where "hb_sids s (hm_sid m) = Some x" using assms(3) by (auto simp: sid_known_def)
  with assms(1) show ?thesis unfolding hub_ok_def session_agents_def by blast
qed

text \<open>
  C34. Which messages of a client end the program: in every reachable state the hub always finds
  the session a queued message names, and the message crashes it exactly if it is an
  authentication, within a session, whose authdata is missing or is not a string.
\<close>

theorem legacy_message_crash:
  assumes "runs (hub_alive host) new_main_hub es s" and "hb_users s = m # q"
  shows "hub_crashes host HUser s = (if is_auth m \<and> auth_data m = None then Some BadAuthdata else None)"
proof (cases "is_auth m")
  case True
  then obtain x where "hb_sids s (hm_sid m) = Some x" "hb_agents s (ls_token x) \<noteq> None"
    using head_session [OF hub_reachable [OF assms(1)] assms(2)] unfolding is_auth_def by blast
  with True assms(2) show ?thesis
    by (auto simp: hub_crashes_def handle_incoming_messages_def is_auth_def auth_data_def Let_def
        split: prod.splits option.splits json.splits)
next
  case False
  with assms(2) show ?thesis
    by (auto simp: hub_crashes_def handle_incoming_messages_def is_auth_def Let_def split: prod.splits)
qed

text \<open>The step of an accepted authentication.\<close>

lemma accepted_step:
  assumes "hub_ok s" and "hb_users s = m # q" and "accepted m"
  shows "\<exists>x t. hb_sids s (hm_sid m) = Some x \<and> hub_alive host HUser s = Some t \<and>
    hb_starting t = hb_starting s @ [7000 + sint (hm_sid m)] \<and> hb_listening t = hb_listening s \<and>
    hb_sources t local_source = Some (sint (hm_sid m)) \<and> hb_channels t (sint (hm_sid m)) = Some (hb_next_io s) \<and>
    hb_next_io t = Suc (hb_next_io s)"
proof -
  obtain x where x: "hb_sids s (hm_sid m) = Some x" "hb_agents s (ls_token x) \<noteq> None"
    using head_session [OF assms(1,2)] assms(3) unfolding accepted_def is_auth_def by blast
  obtain a where a: "snd (decode_request (hm_data m)) ''authdata'' = Some (JStr a)" "a \<noteq> ''not_authorised_user''"
    using assms(3) by (auto simp: accepted_def auth_data_def split: option.splits json.splits)
  have "hm_type m \<noteq> binary_message" "fst (decode_request (hm_data m)) = ''auth''" "hm_sid m \<noteq> 0"
    using assms(3) by (simp_all add: accepted_def is_auth_def)
  with x a assms(2) show ?thesis
    by (auto simp: hub_alive_def handle_incoming_messages_def Let_def split_beta create_channel_def
        write_client_def channel_port_def split: option.split)
qed

text \<open>
  C35. The port of a session: an accepted authentication in session number \<open>i\<close> starts a channel on
  port 7000 + \<open>i\<close>, and when its goroutine comes to listen the program survives exactly if this
  is a port, nothing listens on it yet and the system allows it. So an authentication repeated
  in a session that is listening, and any from session 58536 on, or after the counter has
  turned negative below -7000, ends the broker.
\<close>

theorem legacy_port_bound:
  assumes "runs (hub_alive host) new_main_hub es s" and "hb_users s = m # q" and "accepted m"
  shows "\<exists>t. hub_alive host HUser s = Some t \<and>
    hub_crashes host (HListen (length (hb_starting s)) free) t =
      (if -7000 \<le> sint (hm_sid m) \<and> sint (hm_sid m) \<le> 58535 \<and> 7000 + sint (hm_sid m) \<notin> hb_listening s \<and> free
       then None else Some (ListenFailed (7000 + sint (hm_sid m))))"
proof -
  obtain t where t: "hub_alive host HUser s = Some t" "hb_starting t = hb_starting s @ [7000 + sint (hm_sid m)]"
      "hb_listening t = hb_listening s"
    using accepted_step [OF hub_reachable [OF assms(1)] assms(2,3)] by blast
  show ?thesis
    by (rule exI [of _ t]) (auto simp: t hub_crashes_def listen_channel_def Let_def)
qed

section \<open>Which channel a browser gets\<close>

text \<open>The channel a step makes, and the client it is made for; the admin endpoint makes one for nobody.\<close>

fun made_channel :: "hub_event \<Rightarrow> hub \<Rightarrow> (nat option \<times> nat) list" where
  "made_channel HUser s =
     (case hb_users s of [] \<Rightarrow> [] | m # q \<Rightarrow> if accepted m then [(Some (hm_client m), hb_next_io s)] else [])"
| "made_channel (HAdmin channel port) s = [(None, hb_next_io s)]"
| "made_channel _ s = []"

definition channels_made :: "string \<Rightarrow> hub_event list \<Rightarrow> (nat option \<times> nat) list" where
  "channels_made host es = along (hub_alive host) made_channel es new_main_hub"

lemma refused_keeps_channels:
  assumes "handle_incoming_messages host s = Some (Next t)" and "hb_users s = m # q" and "\<not> accepted m"
  shows "hb_sources t = hb_sources s \<and> hb_channels t = hb_channels s \<and> hb_next_io t = hb_next_io s"
  using assms
  by (auto simp: handle_incoming_messages_def accepted_def is_auth_def auth_data_def Let_def
      split: prod.splits option.splits if_splits json.splits)

lemma other_events_keep_channels:
  assumes "hub_alive host e s = Some t" and "made_channel e s = []"
  shows "hb_sources t = hb_sources s \<and> hb_channels t = hb_channels s \<and> hb_next_io t = hb_next_io s"
proof (cases e)
  case HSession
  with assms show ?thesis
    by (cases "hb_sessions s"; cases "hb_clients s (hd (hb_sessions s))")
       (auto simp: hub_alive_def handle_session_def Let_def split: option.splits)
next
  case HUser
  then have "handle_incoming_messages host s = Some (Next t)"
    using assms(1) by (auto simp: hub_alive_def split: option.splits outcome.splits)
  moreover from this obtain m q where "hb_users s = m # q"
    by (cases "hb_users s") (auto simp: handle_incoming_messages_def)
  ultimately show ?thesis
    using refused_keeps_channels assms(2) HUser by (auto split: if_splits)
qed (use assms in \<open>auto simp: hub_alive_def ws_peers_handler_def queue_client_def client_read_def server_handler_def
  handle_agent_registration_def auth_token_validation_def listen_channel_def Let_def
  split: if_splits option.splits outcome.splits list.splits prod.splits\<close>)

lemma made_channel_step:
  assumes "hub_ok s" and "hub_alive host e s = Some t" and "made_channel e s \<noteq> []"
  shows "\<exists>who. made_channel e s = [(who, hb_next_io s)]" and "ws_channel token t = Some (hb_next_io s)"
    and "hb_next_io t = Suc (hb_next_io s)"
proof -
  show "\<exists>who. made_channel e s = [(who, hb_next_io s)]"
    using assms(3) by (cases e) (auto split: list.splits if_splits)
  have "ws_channel token t = Some (hb_next_io s) \<and> hb_next_io t = Suc (hb_next_io s)"
  proof (cases e)
    case HUser
    then obtain m q where m: "hb_users s = m # q" "accepted m"
      using assms(3) by (auto split: list.splits if_splits)
    from accepted_step [OF assms(1) this, of host] assms(2) HUser show ?thesis by (simp add: ws_channel_def)
  qed (use assms in \<open>auto simp: hub_alive_def ws_admin_create_channel_def create_channel_def ws_channel_def\<close>)
  then show "ws_channel token t = Some (hb_next_io s)" "hb_next_io t = Suc (hb_next_io s)" by simp_all
qed

lemma last_channel:
  assumes "runs (hub_alive host) new_main_hub es s"
  shows "map snd (channels_made host es) = [0..<hb_next_io s] \<and>
    ws_channel token s = (if hb_next_io s = 0 then None else Some (hb_next_io s - 1))"
proof -
  have "runs (hub_alive host) s0 es s \<Longrightarrow> s0 = new_main_hub \<Longrightarrow>
      map snd (channels_made host es) = [0..<hb_next_io s] \<and>
      ws_channel token s = (if hb_next_io s = 0 then None else Some (hb_next_io s - 1))" for s0
  proof (induction rule: runs.induct)
    case (runs_none s)
    then show ?case by (simp add: channels_made_def new_main_hub_def ws_channel_def)
  next
    case (runs_more s es t e u)
    then have IH: "map snd (channels_made host es) = [0..<hb_next_io t]"
        "ws_channel token t = (if hb_next_io t = 0 then None else Some (hb_next_io t - 1))" by blast+
    have ok: "hub_ok t" using hub_reachable runs_more.hyps(1) runs_more.prems by blast
    have made: "channels_made host (es @ [e]) = channels_made host es @ made_channel e t"
      using along_snoc [where step = "hub_alive host" and f = made_channel, OF _ runs_more.hyps(2)] runs_more.hyps(1) runs_more.prems
      by (simp add: channels_made_def runs_exec)
    show ?case
    proof (cases "made_channel e t = []")
      case True
      then show ?thesis
        using other_events_keep_channels [OF runs_more.hyps(2)] IH made by (simp add: ws_channel_def)
    next
      case False
      then show ?thesis using made_channel_step [OF ok runs_more.hyps(2) False] IH made by auto
    qed
  qed
  then show ?thesis using assms by blast
qed

text \<open>
  C36. Channels are not bound to browsers: at any time every browser that connects to a channel,
  whatever device or token its path names and whether or not it ever authenticated, is given the
  channel that was made last, for whichever client it was made or by the admin endpoint; and each
  accepted authentication makes a channel of its own.
\<close>

theorem legacy_channel_hijack:
  assumes "runs (hub_alive host) new_main_hub es s"
  shows "ws_channel token s =
      (if channels_made host es = [] then None else Some (snd (last (channels_made host es)))) \<and>
    distinct (map snd (channels_made host es))"
proof (cases "channels_made host es" rule: rev_cases)
  case Nil
  then have "[0..<hb_next_io s] = []" using last_channel [OF assms] by simp
  then have "hb_next_io s = 0" by simp
  then show ?thesis using Nil last_channel [OF assms, of token] by simp
next
  case (snoc cs c)
  have numbers: "map snd cs @ [snd c] = [0..<hb_next_io s]" using last_channel [OF assms] snoc by simp
  then have "0 < hb_next_io s" by (cases "hb_next_io s") simp_all
  then have "[0..<hb_next_io s] = [0..<hb_next_io s - 1] @ [hb_next_io s - 1]"
    by (metis Suc_pred' upt_Suc_append zero_le)
  then have "snd c = hb_next_io s - 1" using numbers by simp
  moreover have "distinct (map snd cs @ [snd c])" unfolding numbers by simp
  ultimately show ?thesis using last_channel [OF assms, of token] snoc \<open>0 < hb_next_io s\<close> by simp
qed

section \<open>The properties at work\<close>

definition auth_text :: "json \<Rightarrow> bytes" where
  "auth_text v = go_bytes (render (JObj [(''Type'', JStr ''auth''), (''Data'', JObj [(''authdata'', v)])]))"

lemma fold_name_request [simp]: "fold_name ''Type'' = ''type''" "fold_name ''Data'' = ''data''"
  by (simp_all add: ccode_def char_of_def bit_0)

lemma decode_auth_text:
  "v = JNull \<or> v = JStr ''me'' \<Longrightarrow> decode_request (auth_text v) = (''auth'', [''authdata'' \<mapsto> v])"
  unfolding decode_request_def auth_text_def go_string_bytes
  by (subst parse_render) (auto simp: max_nesting_def decode_request_field_def ccode_def simp del: fold_name.simps)

text \<open>An agent is registered and validated, a client opens a session for it and sends a message.\<close>

definition demo_agent :: legacy_agent where
  "demo_agent = \<lparr>la_token = ''dev'', la_secret = ''t'', la_pubkey = ''k''\<rparr>"

definition demo_events :: "bytes \<Rightarrow> hub_event list" where
  "demo_events d = [HAgent (Some (''t'', ''k'', ''dev'')), HRegister 0,
     HValidated 0 (Some (render (JObj [(''status'', JStr ''ok'')]))) 5, HOpen 1 ''dev'' True, HQueue 1, HSession,
     HClientRead 1 text_message d]"

definition demo_hub :: "bytes \<Rightarrow> hub" where
  "demo_hub d = new_main_hub\<lparr>hb_agents := [''dev'' \<mapsto> demo_agent],
     hb_devices := [''dev'' \<mapsto> \<lparr>ld_token = ''dev'', ld_update = 5\<rparr>],
     hb_sids := [1 \<mapsto> \<lparr>ls_token = ''dev'', ls_sid = 1, ls_client = 1\<rparr>], hb_counter := 1,
     hb_clients := [1 \<mapsto> \<lparr>lc_token = ''dev'', lc_sid = 1,
       lc_out = [ack_text ''auth'' (Some (''sid'', format_int (sint (1 :: 32 word))))]\<rparr>],
     hb_users := [\<lparr>hm_type = text_message, hm_data = d, hm_client = 1, hm_sid = 1\<rparr>]\<rparr>"

lemma reply_ok_demo: "reply_ok (render (JObj [(''status'', JStr ''ok'')]))"
  unfolding reply_ok_def by (subst parse_first_object(2)) (simp_all add: max_nesting_def ccode_def)

lemma demo_run: "runs (hub_alive host) new_main_hub (demo_events d) (demo_hub d)"
  unfolding runs_exec demo_events_def demo_hub_def demo_agent_def new_main_hub_def
  by (simp add: hub_alive_def server_handler_def register_cap_def handle_agent_registration_def
      auth_token_validation_def reply_ok_demo ws_peers_handler_def queue_client_def sessions_cap_def
      handle_session_def client_read_def users_cap_def write_client_def Let_def del: render.simps)

lemma demo_message:
  "hb_users (demo_hub d) = [\<lparr>hm_type = text_message, hm_data = d, hm_client = 1, hm_sid = 1\<rparr>]"
  "hb_starting (demo_hub d) = []" "hb_listening (demo_hub d) = {}" "hb_next_io (demo_hub d) = 0"
  by (simp_all add: demo_hub_def new_main_hub_def)

lemma demo_accepted: "accepted \<lparr>hm_type = text_message, hm_data = auth_text (JStr ''me''), hm_client = 1, hm_sid = 1\<rparr>"
  by (simp add: accepted_def is_auth_def auth_data_def decode_auth_text text_message_def binary_message_def)

theorem legacy_message_crash_witness:
  "hub_crashes ''localhost'' HUser (demo_hub (auth_text JNull)) = Some BadAuthdata"
  using legacy_message_crash [OF demo_run demo_message(1)]
  by (simp add: is_auth_def auth_data_def decode_auth_text text_message_def binary_message_def)

theorem legacy_port_bound_witness:
  "\<exists>t. hub_alive ''localhost'' HUser (demo_hub (auth_text (JStr ''me''))) = Some t \<and>
     hub_crashes ''localhost'' (HListen 0 True) t = None"
  using legacy_port_bound [OF demo_run demo_message(1) demo_accepted, of "''localhost''" True]
  by (simp add: demo_message)

text \<open>Client 1 authenticates; then whoever connects is given its channel.\<close>

theorem legacy_channel_hijack_witness:
  "\<exists>t. runs (hub_alive ''localhost'') new_main_hub (demo_events (auth_text (JStr ''me'')) @ [HUser]) t \<and>
     ws_channel ''other'' t = Some 0"
proof -
  let ?d = "auth_text (JStr ''me'')" and ?h = "''localhost''"
  obtain t where t: "hub_alive ?h HUser (demo_hub ?d) = Some t"
    using accepted_step [OF hub_reachable [OF demo_run] demo_message(1) demo_accepted] by blast
  note start = demo_run [of ?h ?d]
  have run: "runs (hub_alive ?h) new_main_hub (demo_events ?d @ [HUser]) t"
    using start t by (rule runs_more [where step = "hub_alive ?h"])
  have made: "made_channel HUser (demo_hub ?d) = [(Some 1, 0)]"
    using demo_accepted by (simp add: demo_message)
  have "channels_made ?h (demo_events ?d @ [HUser]) = channels_made ?h (demo_events ?d) @ [(Some 1, 0)]"
    unfolding channels_made_def made [symmetric]
    by (rule along_snoc [where step = "hub_alive ?h", OF start [unfolded runs_exec] t])
  then have "ws_channel ''other'' t = Some 0" using legacy_channel_hijack [OF run, of "''other''"] by simp
  then show ?thesis using run by blast
qed

end
