(* ===== verification/LegacyRelay.thy ===== *)
theory LegacyRelay
  imports LegacyHub
begin

text \<open>
  The relay of a channel of the first broker (\<open>_legacy/broker/channelHub.go\<close>, its earlier copy
  \<open>hubs.go\<close> and the handlers of \<open>channels.go\<close>). Every WebSocket of a channel has a hub of its own
  over the four Go channels of the \<open>channelIO\<close>, each of capacity 1. \<open>run\<close> serves the agent side
  and \<open>runCommon\<close> the browser side; they are the same loop with the channels exchanged: a hub
  forwards what its side put in (\<open>outgoing\<close>, \<open>commonOutgoing\<close>) to the channel that the other
  side delivers from (\<open>commonIncoming\<close>, \<open>incoming\<close>).
\<close>

section \<open>The model\<close>

datatype rside = AgentSide | UserSide

fun other :: "rside \<Rightarrow> rside" where
  "other AgentSide = UserSide"
| "other UserSide = AgentSide"

text \<open>There are two sides, so a condition on both is computed.\<close>

instantiation rside :: enum
begin

definition enum_rside :: "rside list" where "enum_rside = [AgentSide, UserSide]"

definition enum_all_rside :: "(rside \<Rightarrow> bool) \<Rightarrow> bool" where
  "enum_all_rside P \<longleftrightarrow> P AgentSide \<and> P UserSide"

definition enum_ex_rside :: "(rside \<Rightarrow> bool) \<Rightarrow> bool" where
  "enum_ex_rside P \<longleftrightarrow> P AgentSide \<or> P UserSide"

instance
proof
  have univ: "(UNIV :: rside set) = {AgentSide, UserSide}" by (auto intro: rside.exhaust)
  then show "(UNIV :: rside set) = set enum_class.enum" by (simp add: enum_rside_def)
  show "distinct (enum_class.enum :: rside list)" by (simp add: enum_rside_def)
  show "enum_class.enum_all P \<longleftrightarrow> Ball (UNIV :: rside set) P" for P
    by (simp add: univ enum_all_rside_def)
  show "enum_class.enum_ex P \<longleftrightarrow> Bex (UNIV :: rside set) P" for P
    by (simp add: univ enum_ex_rside_def)
qed

end

text \<open>
  A hub: its client once registered, the connection waiting in \<open>newConnection\<close>, the message its
  loop holds while the channel it sends to is full, what was written to its WebSocket, whether the
  handler of the WebSocket is still reading, and whether a read has failed.
\<close>

record channel_hub =
  ch_side :: rside
  ch_client :: bool
  ch_new :: bool
  ch_hold :: "bytes option"
  ch_out :: "(nat \<times> bytes) list"
  ch_reading :: bool
  ch_failed :: bool

definition new_channel_hub :: "rside \<Rightarrow> channel_hub" where
  "new_channel_hub x = \<lparr>ch_side = x, ch_client = False, ch_new = True, ch_hold = None, ch_out = [],
     ch_reading = True, ch_failed = False\<rparr>"

text \<open>\<open>rl_own x\<close>: \<open>outgoing\<close> and \<open>commonOutgoing\<close>; \<open>rl_link x\<close>: from side \<open>x\<close> to the other.\<close>

record relay =
  rl_own :: "rside \<Rightarrow> bytes list"
  rl_link :: "rside \<Rightarrow> bytes list"
  rl_hubs :: "nat \<rightharpoonup> channel_hub"

definition io_cap :: nat where "io_cap = 1"

definition new_channel_io :: relay where
  "new_channel_io = \<lparr>rl_own = (\<lambda>_. []), rl_link = (\<lambda>_. []), rl_hubs = Map.empty\<rparr>"

definition set_hub :: "nat \<Rightarrow> channel_hub \<Rightarrow> relay \<Rightarrow> relay" where
  "set_hub n h s = s\<lparr>rl_hubs := (rl_hubs s)(n \<mapsto> h)\<rparr>"

fun frame_type :: "rside \<Rightarrow> nat" where
  "frame_type AgentSide = binary_message"
| "frame_type UserSide = text_message"

definition relay_open :: "nat \<Rightarrow> rside \<Rightarrow> relay \<Rightarrow> relay outcome option" where
  "relay_open n x s =
     (if rl_hubs s n \<noteq> None then None else Some (Next (set_hub n (new_channel_hub x) s)))"

definition relay_connect :: "nat \<Rightarrow> relay \<Rightarrow> relay outcome option" where
  "relay_connect n s =
     (case rl_hubs s n of
        Some h \<Rightarrow> if ch_hold h = None \<and> ch_new h
          then Some (Next (set_hub n (h\<lparr>ch_client := True, ch_new := False\<rparr>) s)) else None
      | None \<Rightarrow> None)"

text \<open>
  The handler of the WebSocket: it puts a message it has read into the channel of its side. A
  connection that has failed delivers nothing any more.
\<close>

definition relay_read :: "nat \<Rightarrow> bytes \<Rightarrow> relay \<Rightarrow> relay outcome option" where
  "relay_read n d s =
     (case rl_hubs s n of
        Some h \<Rightarrow>
          (let x = ch_side h in
           if ch_reading h \<and> \<not> ch_failed h \<and> length (rl_own s x) < io_cap
           then Some (Next (s\<lparr>rl_own := (rl_own s)(x := rl_own s x @ [d])\<rparr>))
           else None)
      | None \<Rightarrow> None)"

text \<open>
  A read that fails. The agent's handler leaves its loop. The browser's drops the error and puts
  the message it got, which is nil, into its channel; so it reads the failed connection again, for
  as long as the library lets it: the library may panic (\<open>panics\<close>) when a failed connection is read again, and
  \<open>net/http\<close> then ends the handler.
\<close>

definition relay_fail :: "nat \<Rightarrow> bool \<Rightarrow> relay \<Rightarrow> relay outcome option" where
  "relay_fail n panics s =
     (case rl_hubs s n of
        Some h \<Rightarrow>
          if \<not> ch_reading h \<or> panics \<and> \<not> ch_failed h then None
          else if panics then Some (Next (set_hub n (h\<lparr>ch_reading := False\<rparr>) s))
          else
            (case ch_side h of
               AgentSide \<Rightarrow> Some (Next (set_hub n (h\<lparr>ch_reading := False, ch_failed := True\<rparr>) s))
             | UserSide \<Rightarrow>
                 if length (rl_own s UserSide) < io_cap
                 then Some (Next (set_hub n (h\<lparr>ch_failed := True\<rparr>)
                   (s\<lparr>rl_own := (rl_own s)(UserSide := rl_own s UserSide @ [[]])\<rparr>)))
                 else None)
      | None \<Rightarrow> None)"

definition relay_take :: "nat \<Rightarrow> relay \<Rightarrow> relay outcome option" where
  "relay_take n s =
     (case rl_hubs s n of
        Some h \<Rightarrow>
          (case rl_own s (ch_side h) of
             m # q \<Rightarrow> if ch_hold h = None
               then Some (Next (set_hub n (h\<lparr>ch_hold := Some m\<rparr>) (s\<lparr>rl_own := (rl_own s)(ch_side h := q)\<rparr>)))
               else None
           | [] \<Rightarrow> None)
      | None \<Rightarrow> None)"

definition relay_put :: "nat \<Rightarrow> relay \<Rightarrow> relay outcome option" where
  "relay_put n s =
     (case rl_hubs s n of
        Some h \<Rightarrow>
          (case ch_hold h of
             Some m \<Rightarrow>
               (let x = ch_side h in
                if length (rl_link s x) < io_cap
                then Some (Next (set_hub n (h\<lparr>ch_hold := None\<rparr>) (s\<lparr>rl_link := (rl_link s)(x := rl_link s x @ [m])\<rparr>)))
                else None)
           | None \<Rightarrow> None)
      | None \<Rightarrow> None)"

text \<open>
  Delivery: a message that arrives before the client is registered is written to a nil
  connection. \<open>net\<close>: whether the write worked; the \<open>break\<close> on its error only ends the select.
\<close>

definition relay_write :: "nat \<Rightarrow> bool \<Rightarrow> relay \<Rightarrow> relay outcome option" where
  "relay_write n net s =
     (case rl_hubs s n of
        Some h \<Rightarrow>
          (case rl_link s (other (ch_side h)) of
             m # q \<Rightarrow>
               if ch_hold h \<noteq> None then None
               else if \<not> ch_client h then Some (Crash NilConnection)
               else Some (Next (set_hub n
                 (if net then h\<lparr>ch_out := ch_out h @ [(frame_type (ch_side h), m)]\<rparr> else h)
                 (s\<lparr>rl_link := (rl_link s)(other (ch_side h) := q)\<rparr>)))
           | [] \<Rightarrow> None)
      | None \<Rightarrow> None)"

datatype relay_event = ROpen nat rside | RConnect nat | RRead nat bytes | RFail nat bool | RTake nat | RPut nat | RWrite nat bool

fun relay_step :: "relay_event \<Rightarrow> relay \<Rightarrow> relay outcome option" where
  "relay_step (ROpen n x) s = relay_open n x s"
| "relay_step (RConnect n) s = relay_connect n s"
| "relay_step (RRead n d) s = relay_read n d s"
| "relay_step (RFail n panics) s = relay_fail n panics s"
| "relay_step (RTake n) s = relay_take n s"
| "relay_step (RPut n) s = relay_put n s"
| "relay_step (RWrite n net) s = relay_write n net s"

definition relay_alive :: "relay_event \<Rightarrow> relay \<Rightarrow> relay option" where
  "relay_alive e s = (case relay_step e s of Some (Next t) \<Rightarrow> Some t | _ \<Rightarrow> None)"

section \<open>One direction\<close>

text \<open>
  The runs in which hub \<open>a\<close> is the only one of side \<open>x\<close>, while the other side may have any number:
  what side \<open>x\<close> puts in, and what the hubs of the other side take out to deliver.
\<close>

fun relay_solo :: "nat \<Rightarrow> rside \<Rightarrow> relay_event \<Rightarrow> relay \<Rightarrow> relay option" where
  "relay_solo a x (ROpen n y) s = (if (n = a) = (y = x) then relay_alive (ROpen n y) s else None)"
| "relay_solo a x e s = relay_alive e s"

fun relay_puts :: "rside \<Rightarrow> relay_event \<Rightarrow> relay \<Rightarrow> bytes list" where
  "relay_puts x (RRead n d) s = (case rl_hubs s n of Some h \<Rightarrow> if ch_side h = x then [d] else [] | None \<Rightarrow> [])"
| "relay_puts x (RFail n panics) s =
     (case rl_hubs s n of
        Some h \<Rightarrow> if x = UserSide \<and> ch_side h = UserSide \<and> \<not> panics then [[]] else []
      | None \<Rightarrow> [])"
| "relay_puts x _ s = []"

fun relay_takes :: "rside \<Rightarrow> relay_event \<Rightarrow> relay \<Rightarrow> bytes list" where
  "relay_takes x (RWrite n net) s =
     (case rl_hubs s n of Some h \<Rightarrow> if ch_side h = x then [] else take 1 (rl_link s x) | None \<Rightarrow> [])"
| "relay_takes x _ s = []"

definition held :: "nat \<Rightarrow> relay \<Rightarrow> bytes list" where
  "held a s = (case rl_hubs s a of Some h \<Rightarrow> (case ch_hold h of Some m \<Rightarrow> [m] | None \<Rightarrow> []) | None \<Rightarrow> [])"

definition in_relay :: "nat \<Rightarrow> rside \<Rightarrow> relay \<Rightarrow> bytes list" where
  "in_relay a x s = rl_link s x @ held a s @ rl_own s x"

definition side_of :: "relay \<Rightarrow> nat \<Rightarrow> rside option" where
  "side_of s n = map_option ch_side (rl_hubs s n)"

definition caps_ok :: "relay \<Rightarrow> bool" where
  "caps_ok s \<longleftrightarrow> (\<forall>y. length (rl_own s y) \<le> io_cap \<and> length (rl_link s y) \<le> io_cap)"

definition solo_ok :: "nat \<Rightarrow> rside \<Rightarrow> relay \<Rightarrow> bool" where
  "solo_ok a x s \<longleftrightarrow> (\<forall>n y. side_of s n = Some y \<longrightarrow> (n = a) = (y = x)) \<and> caps_ok s"

lemma other_ne [simp]: "other x \<noteq> x" "x \<noteq> other x" "other (other x) = x"
  by (cases x; simp)+

lemma rside_ne: "y \<noteq> x \<longleftrightarrow> y = other x"
  by (cases x; cases y) simp_all

lemma side_of_set [simp]: "side_of (set_hub n h s) = (side_of s)(n \<mapsto> ch_side h)"
  by (simp add: side_of_def set_hub_def fun_eq_iff)

lemma side_of_frame [simp]:
  "side_of (s\<lparr>rl_own := q\<rparr>) = side_of s" "side_of (s\<lparr>rl_link := l\<rparr>) = side_of s"
  by (simp_all add: side_of_def fun_eq_iff)

lemma side_of_hub: "rl_hubs s n = Some h \<Longrightarrow> side_of s n = Some (ch_side h)"
  by (simp add: side_of_def)

lemma set_hub_frame [simp]: "rl_own (set_hub n h s) = rl_own s" "rl_link (set_hub n h s) = rl_link s"
  "rl_hubs (set_hub n h s) = (rl_hubs s)(n \<mapsto> h)"
  by (simp_all add: set_hub_def)

lemmas relay_defs = relay_open_def relay_connect_def relay_read_def relay_fail_def relay_take_def relay_put_def relay_write_def

lemma relay_alive_solo: "relay_solo a x e s = Some t \<Longrightarrow> relay_step e s = Some (Next t)"
  by (cases e) (auto simp: relay_alive_def split: option.splits outcome.splits if_splits)

fun opens :: "relay_event \<Rightarrow> (nat \<times> rside) option" where
  "opens (ROpen n y) = Some (n, y)"
| "opens _ = None"

fun_cases opensE: "opens e = Some p"

lemma relay_step_side:
  assumes "relay_step e s = Some (Next t)"
  shows "side_of t = (case opens e of Some (n, y) \<Rightarrow> (side_of s)(n \<mapsto> y) | None \<Rightarrow> side_of s)"
  using assms
  by (cases e)
     (auto simp: relay_defs new_channel_hub_def Let_def side_of_hub fun_upd_idem
       split: if_splits option.splits list.splits rside.splits)

lemma relay_step_caps:
  assumes "caps_ok s" and "relay_step e s = Some (Next t)"
  shows "caps_ok t"
proof -
  have caps: "length (rl_own s y) \<le> io_cap" "length (rl_link s y) \<le> io_cap" for y
    using assms(1) unfolding caps_ok_def by blast+
  have tl: "length q \<le> io_cap" if "rl_own s y = m # q \<or> rl_link s y = m # q" for m q y
    using caps [of y] that by auto
  show ?thesis
    using assms(2) unfolding caps_ok_def
    by (cases e) (auto simp: relay_defs Let_def caps intro: tl split: if_splits option.splits list.splits rside.splits)
qed

lemma solo_ok_step:
  assumes "solo_ok a x s" and "relay_solo a x e s = Some t"
  shows "solo_ok a x t"
proof -
  have step: "relay_step e s = Some (Next t)" by (rule relay_alive_solo [OF assms(2)])
  have "caps_ok t" using assms(1) relay_step_caps [OF _ step] by (simp add: solo_ok_def)
  moreover have "(n = a) = (y = x)" if "side_of t n = Some y" for n y
  proof (cases "opens e")
    case None
    then show ?thesis using that assms(1) relay_step_side [OF step] unfolding solo_ok_def by simp
  next
    case (Some o')
    then obtain k z where e: "e = ROpen k z" by (elim opensE)
    with assms(2) have "(k = a) = (z = x)" by (simp split: if_splits)
    then show ?thesis
      using that assms(1) relay_step_side [OF step] unfolding solo_ok_def e by (auto split: if_splits)
  qed
  ultimately show ?thesis by (simp add: solo_ok_def)
qed

lemma relay_stream_step:
  assumes "solo_ok a x s" and "relay_solo a x e s = Some t"
  shows "in_relay a x s @ relay_puts x e s = relay_takes x e s @ in_relay a x t"
proof -
  have step: "relay_step e s = Some (Next t)" by (rule relay_alive_solo [OF assms(2)])
  have sides: "(n = a) = (ch_side h = x)" if "rl_hubs s n = Some h" for n h
    using assms(1) side_of_hub [OF that] unfolding solo_ok_def by blast
  show ?thesis
  proof (cases e)
    case (ROpen n y)
    with step show ?thesis
      by (auto simp: relay_defs in_relay_def held_def new_channel_hub_def split: if_splits)
  next
    case (RConnect n)
    with step show ?thesis
      by (auto simp: relay_defs in_relay_def held_def split: if_splits option.splits)
  next
    case (RRead n d)
    with step show ?thesis
      by (auto simp: relay_defs in_relay_def held_def Let_def split: if_splits option.splits)
  next
    case (RFail n panics)
    with step obtain h where h: "rl_hubs s n = Some h" by (auto simp: relay_defs split: option.splits)
    have x: "(x = UserSide) = (ch_side h = UserSide)" if "n = a" using sides [OF h] that by auto
    have "x \<noteq> UserSide" if "n \<noteq> a" "ch_side h = UserSide" using sides [OF h] that by auto
    then show ?thesis
      using step RFail h x
      by (cases "n = a"; cases x; auto simp: relay_defs in_relay_def held_def split: if_splits rside.splits)
  next
    case (RTake n)
    with step obtain h m q where h: "rl_hubs s n = Some h" "rl_own s (ch_side h) = m # q" "ch_hold h = None"
      and t: "t = set_hub n (h\<lparr>ch_hold := Some m\<rparr>) (s\<lparr>rl_own := (rl_own s)(ch_side h := q)\<rparr>)"
      by (auto simp: relay_defs split: if_splits option.splits list.splits)
    show ?thesis using sides [OF h(1)] h by (auto simp: RTake t in_relay_def held_def)
  next
    case (RPut n)
    with step obtain h m where h: "rl_hubs s n = Some h" "ch_hold h = Some m"
      and t: "t = set_hub n (h\<lparr>ch_hold := None\<rparr>) (s\<lparr>rl_link := (rl_link s)(ch_side h := rl_link s (ch_side h) @ [m])\<rparr>)"
      by (auto simp: relay_defs Let_def split: if_splits option.splits)
    show ?thesis using sides [OF h(1)] h by (auto simp: RPut t in_relay_def held_def)
  next
    case (RWrite n net)
    with step obtain h m q where h: "rl_hubs s n = Some h" "rl_link s (other (ch_side h)) = m # q" "ch_hold h = None"
      and t: "t = set_hub n (if net then h\<lparr>ch_out := ch_out h @ [(frame_type (ch_side h), m)]\<rparr> else h)
        (s\<lparr>rl_link := (rl_link s)(other (ch_side h) := q)\<rparr>)"
      by (auto simp: relay_defs split: if_splits option.splits list.splits)
    show ?thesis
      using h sides [OF h(1)] rside_ne [of "ch_side h" x]
      by (cases "ch_side h = x") (auto simp: RWrite t in_relay_def held_def)
  qed
qed

interpretation relay_stream: stream "relay_solo a x" "solo_ok a x" "relay_puts x" "relay_takes x" "in_relay a x" for a x
  by unfold_locales (auto intro: solo_ok_step relay_stream_step)

section \<open>What a browser sees\<close>

definition frames_of :: "relay \<Rightarrow> nat \<Rightarrow> bytes list" where
  "frames_of s n = (case rl_hubs s n of Some h \<Rightarrow> map snd (ch_out h) | None \<Rightarrow> [])"

lemma frames_step:
  assumes "relay_step e s = Some (Next t)" and "side_of t n = Some y" and "y \<noteq> x"
  shows "frames_of t n = frames_of s n \<or> (\<exists>m. frames_of t n = frames_of s n @ [m] \<and> relay_takes x e s = [m])"
proof (cases e)
  case (ROpen k z)
  with assms(1) show ?thesis by (auto simp: relay_defs frames_of_def new_channel_hub_def split: if_splits)
next
  case (RConnect k)
  with assms(1) show ?thesis by (auto simp: relay_defs frames_of_def split: if_splits option.splits)
next
  case (RRead k d)
  with assms(1) show ?thesis by (auto simp: relay_defs frames_of_def Let_def split: if_splits option.splits)
next
  case (RFail k panics)
  with assms(1) show ?thesis by (auto simp: relay_defs frames_of_def split: if_splits option.splits rside.splits)
next
  case (RTake k)
  with assms(1) show ?thesis by (auto simp: relay_defs frames_of_def split: if_splits option.splits list.splits)
next
  case (RPut k)
  with assms(1) show ?thesis by (auto simp: relay_defs frames_of_def Let_def split: if_splits option.splits)
next
  case (RWrite k net)
  with assms(1) obtain h m q where h: "rl_hubs s k = Some h" "rl_link s (other (ch_side h)) = m # q"
    and t: "t = set_hub k (if net then h\<lparr>ch_out := ch_out h @ [(frame_type (ch_side h), m)]\<rparr> else h)
      (s\<lparr>rl_link := (rl_link s)(other (ch_side h) := q)\<rparr>)"
    by (auto simp: relay_defs split: if_splits option.splits list.splits)
  show ?thesis
  proof (cases "k = n")
    case True
    with assms(2) have "ch_side h = y" by (simp add: t split: if_splits)
    with assms(3) have "other (ch_side h) = x" using rside_ne [of y x] by simp
    with h assms(3) \<open>ch_side h = y\<close> show ?thesis by (simp add: RWrite t frames_of_def True)
  next
    case False
    then show ?thesis by (simp add: t frames_of_def)
  qed
qed

lemma frames_delivered:
  assumes "runs (relay_solo a x) r es s" and "rl_hubs r = Map.empty" and "side_of s n = Some y" and "y \<noteq> x"
  shows "subseq (frames_of s n) (along (relay_solo a x) (relay_takes x) es r)"
  using assms
proof (induction rule: runs.induct)
  case (runs_none r)
  then show ?case by (simp add: frames_of_def)
next
  case (runs_more r es t e u)
  have step: "relay_step e t = Some (Next u)" by (rule relay_alive_solo [OF runs_more.hyps(2)])
  have takes: "along (relay_solo a x) (relay_takes x) (es @ [e]) r =
      along (relay_solo a x) (relay_takes x) es r @ relay_takes x e t"
    using along_snoc runs_more.hyps by (metis runs_exec)
  have "subseq (frames_of t n) (along (relay_solo a x) (relay_takes x) es r)"
  proof (cases "side_of t n = Some y")
    case True
    then show ?thesis using runs_more by blast
  next
    case False
    then have "opens e = Some (n, y)"
      using relay_step_side [OF step] runs_more.prems(2) by (auto split: option.splits if_splits)
    then have "rl_hubs t n = None" using step by (cases e) (auto simp: relay_open_def split: if_splits)
    then show ?thesis by (simp add: frames_of_def)
  qed
  then show ?case
    using frames_step [OF step runs_more.prems(2,3)] by (auto simp: takes list_emb_append2 intro: list_emb_append_mono)
qed

text \<open>
  C37. The relay of a channel keeps the order: in every run in which one WebSocket serves side \<open>x\<close>
  and any number the other side, the messages the other side takes are a prefix of those
  put in, at most three are on their way, and each WebSocket of the other side has been written
  a subsequence of them, so that several browsers of a channel share one stream.
\<close>

theorem legacy_relay_fifo:
  assumes "exec (relay_solo a x) es new_channel_io = Some s"
  shows "prefix (along (relay_solo a x) (relay_takes x) es new_channel_io)
      (along (relay_solo a x) (relay_puts x) es new_channel_io) \<and>
    length (in_relay a x s) \<le> 3 \<and>
    (\<forall>n y. side_of s n = Some y \<longrightarrow> y \<noteq> x \<longrightarrow>
      subseq (frames_of s n) (along (relay_solo a x) (relay_takes x) es new_channel_io))"
proof -
  have ok: "solo_ok a x new_channel_io" "in_relay a x new_channel_io = []"
    by (simp_all add: solo_ok_def caps_ok_def side_of_def new_channel_io_def in_relay_def held_def)
  have "solo_ok a x s" using relay_stream.ok_runs ok(1) assms by (metis runs_exec)
  then have "length (rl_own s x) \<le> 1 \<and> length (rl_link s x) \<le> 1" by (simp add: solo_ok_def caps_ok_def io_cap_def)
  moreover have "length (held a s) \<le> 1" by (auto simp: held_def split: option.split)
  ultimately have "length (in_relay a x s) \<le> 3" by (simp add: in_relay_def)
  then show ?thesis
    using relay_stream.in_order [OF assms ok] frames_delivered [of a x new_channel_io es s] assms unfolding runs_exec
    by (simp add: new_channel_io_def)
qed

definition demo_relay :: "relay_event list" where
  "demo_relay = [ROpen 0 AgentSide, ROpen 1 UserSide, RConnect 0, RConnect 1, RRead 0 [7], RTake 0, RPut 0,
     RRead 0 [8], RWrite 1 True]"

theorem legacy_relay_fifo_witness:
  "prefix (along (relay_solo 0 AgentSide) (relay_takes AgentSide) demo_relay new_channel_io)
     (along (relay_solo 0 AgentSide) (relay_puts AgentSide) demo_relay new_channel_io)"
proof -
  have "\<exists>s. exec (relay_solo 0 AgentSide) demo_relay new_channel_io = Some s"
    by (simp add: demo_relay_def relay_alive_def relay_defs new_channel_io_def new_channel_hub_def set_hub_def io_cap_def)
  then show ?thesis using legacy_relay_fifo by blast
qed

section \<open>A browser that has gone\<close>









end
