(* ===== verification/LegacyAgent.thy ===== *)
theory LegacyAgent
  imports LegacyHub Identity
begin

text \<open>
  The device side of the first version (\<open>_legacy/agent\<close>) and what it shares with the broker
  (\<open>_legacy/common\<close>): numbers and tokens as text, the protobuf messages, the adapter that makes a
  byte stream of WebSocket messages, the copy loops of a terminal, and the beacon.
\<close>

section \<open>common.go\<close>

definition int2string :: "int \<Rightarrow> string" where
  "int2string n = format_int n"

text \<open>\<open>GenerateToken\<close> and \<open>generateId\<close>: \<open>draws\<close> are what \<open>rand.Intn\<close> returned.\<close>

definition token_letters :: string where
  "token_letters = ''abcdefghijklmnopqrstuvwxyzABCDEFGHIJKLMNOPQRSTUVWXYZ0123456789''"

definition generate_token :: "nat list \<Rightarrow> string" where
  "generate_token draws = map (\<lambda>d. token_letters ! (d mod length token_letters)) draws"

definition generate_id :: "nat list \<Rightarrow> string" where
  "generate_id draws = map (\<lambda>d. hex_digits ! (d mod length hex_digits)) draws"

text \<open>\<open>toTimestamp\<close>: Go's division truncates toward zero; \<open>EncodeTimestamp\<close>: 8 bytes, big-endian.\<close>

definition to_timestamp :: "int \<Rightarrow> int" where
  "to_timestamp nanos = (if nanos < 0 then - (- nanos div 1000000) else nanos div 1000000)"

definition encode_timestamp :: "int \<Rightarrow> bytes" where
  "encode_timestamp seconds =
     (let u = (word_of_int seconds :: 64 word)
      in map (\<lambda>i. ucast (drop_bit (8 * i) u)) [7, 6, 5, 4, 3, 2, 1, 0])"

section \<open>Numbers survive being written\<close>

lemma foldl_digits_append:
  "foldl (\<lambda>v c. 10 * v + (ccode c - 48)) 0 (ds @ [c]) = 10 * foldl (\<lambda>v c. 10 * v + (ccode c - 48)) 0 ds + (ccode c - 48)"
  by simp

lemma nat_digits_decimal: "decimal (nat_digits n) = Some n"
proof (induction n rule: nat_digits.induct)
  case (1 n)
  have digit: "ccode (char_of (48 + k :: nat)) = 48 + k" "is_digit (char_of (48 + k :: nat))" if "k < 10" for k
    using that by (simp_all add: is_digit_def)
  show ?case
  proof (cases "n < 10")
    case True
    then show ?thesis
      by (subst nat_digits.simps) (simp add: decimal_def digit del: ccode_char_of)
  next
    case False
    with 1 have IH: "decimal (nat_digits (n div 10)) = Some (n div 10)" by blast
    then have "nat_digits (n div 10) \<noteq> []" "list_all is_digit (nat_digits (n div 10))"
      and f: "foldl (\<lambda>v c. 10 * v + (ccode c - 48)) 0 (nat_digits (n div 10)) = n div 10"
      by (auto simp: decimal_def split: if_splits)
    moreover have "n mod 10 < 10" by simp
    ultimately show ?thesis
      using False by (subst nat_digits.simps) (simp add: decimal_def digit f)
  qed
qed

lemma nat_digits_head: "nat_digits n \<noteq> [] \<and> is_digit (hd (nat_digits n))"
proof -
  have "decimal (nat_digits n) \<noteq> None" by (simp add: nat_digits_decimal)
  then show ?thesis by (cases "nat_digits n") (auto simp: decimal_def split: if_splits)
qed

lemma str2int_format:
  assumes "- max_int - 1 \<le> n" and "n \<le> max_int"
  shows "str2int (int2string n) = n"
proof (cases "n < 0")
  case True
  with assms show ?thesis
    by (simp add: str2int_def int2string_def format_int_def nat_digits_decimal)
next
  case False
  obtain c r where d: "nat_digits (nat n) = c # r" "is_digit c"
    using nat_digits_head [of "nat n"] by (cases "nat_digits (nat n)") auto
  then have "c \<noteq> CHR ''-''" "c \<noteq> CHR ''+''" by (auto simp: is_digit_def ccode_def)
  moreover have "decimal (c # r) = Some (nat n)" using nat_digits_decimal [of "nat n"] d by simp
  ultimately show ?thesis
    using False assms by (simp add: str2int_def int2string_def format_int_def d)
qed

section \<open>The byte stream of a WebSocket\<close>

text \<open>
  \<open>rwc\<close>: the reader of the current message, if one is open, as the bytes it has left, and the
  messages still to come; the end of the list is the error \<open>NextReader\<close> returns. A connection that
  fails inside a message is one whose last message is as short as what was read of it: its reader
  returns an error there instead of the end of the message, and the next read is the error either way.
\<close>

record rwc =
  rw_reader :: "bytes option"
  rw_frames :: "bytes list"

definition buffer_size :: nat where "buffer_size = 1024"

text \<open>
  The library's reader of one message: it may return fewer bytes than there are (\<open>n\<close>), and the
  end of the message with the last of them or alone (\<open>eof\<close>).
\<close>

definition message_read :: "nat \<times> bool \<Rightarrow> bytes \<Rightarrow> bytes \<times> bool" where
  "message_read c b =
     (if b = [] then ([], True)
      else (let d = take (max 1 (min (fst c) buffer_size)) b in (d, snd c \<and> length d = length b)))"

function rwc_read :: "nat \<times> bool \<Rightarrow> rwc \<Rightarrow> rwc \<times> bytes option" where
  "rwc_read c w =
     (case rw_reader w of
        None \<Rightarrow>
          (case rw_frames w of
             [] \<Rightarrow> (w, None)
           | f # fs \<Rightarrow> rwc_read c (w\<lparr>rw_reader := Some f, rw_frames := fs\<rparr>))
      | Some b \<Rightarrow>
          (case message_read c b of
             (d, True) \<Rightarrow>
               if d \<noteq> [] then (w\<lparr>rw_reader := None\<rparr>, Some d) else rwc_read c (w\<lparr>rw_reader := None\<rparr>)
           | (d, False) \<Rightarrow> (w\<lparr>rw_reader := Some (drop (length d) b)\<rparr>, Some d)))"
  by pat_completeness auto
termination
  by (relation "measure (\<lambda>(c, w). 2 * length (rw_frames w) + (case rw_reader w of None \<Rightarrow> 0 | Some _ \<Rightarrow> 1))") auto

declare rwc_read.simps [simp del]

text \<open>\<open>Write\<close>: one text message, and how many bytes it reports.\<close>

definition rwc_write :: "bool \<Rightarrow> bytes \<Rightarrow> (nat \<times> bytes) list \<Rightarrow> (nat \<times> bytes) list \<times> nat option" where
  "rwc_write net p out = (if net then (out @ [(text_message, p)], Some (length p)) else (out, None))"

definition unread :: "rwc \<Rightarrow> bytes" where
  "unread w = (case rw_reader w of None \<Rightarrow> [] | Some b \<Rightarrow> b) @ concat (rw_frames w)"

lemma message_read_cases:
  assumes "message_read c b = (d, eof)"
  shows "d = take (length d) b" and "length d \<le> buffer_size" and "eof \<Longrightarrow> d = b" and "\<not> eof \<Longrightarrow> d \<noteq> []"
  using assms by (auto simp: message_read_def Let_def buffer_size_def min_def split: if_splits)

text \<open>A read returns the next bytes of the stream, at least one, or finds it at its end.\<close>

lemma rwc_read_stream:
  "rwc_read c w = (w', r) \<Longrightarrow>
   (case r of None \<Rightarrow> unread w = [] | Some d \<Rightarrow> d \<noteq> [] \<and> length d \<le> buffer_size \<and> unread w = d @ unread w')"
proof (induction c w arbitrary: w' r rule: rwc_read.induct)
  case (1 c w)
  show ?case
  proof (cases "rw_reader w")
    case None
    show ?thesis
    proof (cases "rw_frames w")
      case Nil
      with None "1.prems" show ?thesis by (subst (asm) rwc_read.simps) (auto simp: unread_def)
    next
      case (Cons f fs)
      with None "1.prems" have "rwc_read c (w\<lparr>rw_reader := Some f, rw_frames := fs\<rparr>) = (w', r)"
        by (subst (asm) rwc_read.simps) simp
      moreover have "unread (w\<lparr>rw_reader := Some f, rw_frames := fs\<rparr>) = unread w"
        by (simp add: unread_def None Cons)
      ultimately show ?thesis using "1.IH"(1) [OF None Cons, of w' r] by (cases r) simp_all
    qed
  next
    case (Some b)
    obtain d eof where d: "message_read c b = (d, eof)" by (cases "message_read c b")
    note facts = message_read_cases [OF d]
    show ?thesis
    proof (cases "eof \<and> d = []")
      case True
      with Some d "1.prems" have "rwc_read c (w\<lparr>rw_reader := None\<rparr>) = (w', r)"
        by (subst (asm) rwc_read.simps) simp
      moreover have "b = []" using True facts(3) by simp
      ultimately show ?thesis
        using "1.IH"(2) [OF Some d [symmetric]] True Some by (cases r) (simp_all add: unread_def)
    next
      case False
      then have "rwc_read c w = (w\<lparr>rw_reader := (if eof then None else Some (drop (length d) b))\<rparr>, Some d)"
        using Some d by (simp add: rwc_read.simps [of c w] split: bool.split)
      then have w': "w' = w\<lparr>rw_reader := (if eof then None else Some (drop (length d) b))\<rparr>" and r: "r = Some d"
        using "1.prems" by simp_all
      have "b = d @ drop (length d) b" using facts(1) append_take_drop_id [of "length d" b] by simp
      then have "unread w = d @ unread w'" using facts(3) Some by (simp add: unread_def w')
      moreover have "d \<noteq> []" using False facts(4) by blast
      ultimately have "r = Some d" "d \<noteq> []" "unread w = d @ unread w'" using r by simp_all
      with facts(2) show ?thesis by simp
    qed
  qed
qed

section \<open>The copy loops\<close>

text \<open>
  \<open>Pipe.out\<close> from a WebSocket to a terminal: what it writes, piece by piece. It ends only by the
  panic on the error that ends the stream. \<open>pick i\<close> is what the library's reader does in round \<open>i\<close>.
\<close>

function pipe_copy :: "(nat \<Rightarrow> nat \<times> bool) \<Rightarrow> nat \<Rightarrow> rwc \<Rightarrow> bytes list" where
  "pipe_copy pick i w =
     (case rwc_read (pick i) w of
        (w', None) \<Rightarrow> []
      | (w', Some d) \<Rightarrow> d # pipe_copy pick (Suc i) w')"
  by pat_completeness auto
termination
  by (relation "measure (\<lambda>(pick, i, w). length (unread w))") (auto dest: rwc_read_stream [OF sym])

declare pipe_copy.simps [simp del]

text \<open>
  C38. The copy loop of a terminal ends, for every way the library may cut the messages, and by
  then it has written the whole stream, all messages joined, in pieces of 1 to 1024 bytes.
\<close>

theorem legacy_pipe_copies:
  "concat (pipe_copy pick i w) = unread w \<and> (\<forall>d\<in>set (pipe_copy pick i w). 0 < length d \<and> length d \<le> 1024)"
proof (induction pick i w rule: pipe_copy.induct)
  case (1 pick i w)
  obtain w' r where r: "rwc_read (pick i) w = (w', r)" by (cases "rwc_read (pick i) w")
  note stream = rwc_read_stream [OF r]
  show ?case
  proof (cases r)
    case None
    with r stream show ?thesis by (simp add: pipe_copy.simps [of pick i w])
  next
    case (Some d)
    with "1.IH" [OF r [symmetric]] r stream show ?thesis
      by (simp add: pipe_copy.simps [of pick i w] buffer_size_def)
  qed
qed

theorem legacy_pipe_copies_witness:
  "concat (pipe_copy (\<lambda>i. (2, True)) 0 \<lparr>rw_reader = None, rw_frames = [[1, 2, 3], [], [4]]\<rparr>) = [1, 2, 3, 4]"
  using legacy_pipe_copies [of "\<lambda>i. (2, True)" 0 "\<lparr>rw_reader = None, rw_frames = [[1, 2, 3], [], [4]]\<rparr>"]
  by (simp add: unread_def)

section \<open>The protobuf messages\<close>

text \<open>
  The structs of \<open>requests.proto\<close>, an unset field being None, and the getters with the defaults
  of the schema. The encoding is the protobuf library's: \<open>pb\<close> is what \<open>Marshal\<close> returns, None being
  its error for a required field that is not set, which ends the program.
\<close>

record agent_auth =
  pa_id :: "int option"
  pa_token :: "string option"
  pa_public_key :: "string option"
  pa_device_id :: "string option"

record auth_ack =
  pk_id :: "int option"
  pk_sid :: "int option"
  pk_public_key :: "string option"
  pk_address :: "string option"
  pk_port :: "int option"

record auth_request =
  pr_id :: "int option"
  pr_sid :: "int option"
  pr_public_key :: "string option"

definition get_string :: "string option \<Rightarrow> string" where
  "get_string f = (case f of None \<Rightarrow> [] | Some v \<Rightarrow> v)"

definition get_int :: "int \<Rightarrow> int option \<Rightarrow> int" where
  "get_int d f = (case f of None \<Rightarrow> d | Some v \<Rightarrow> v)"

definition serialise_auth :: "(auth_request \<Rightarrow> bytes option) \<Rightarrow> int \<Rightarrow> string \<Rightarrow> bytes option" where
  "serialise_auth pb sid pk = pb \<lparr>pr_id = Some 1, pr_sid = Some sid, pr_public_key = Some pk\<rparr>"

definition serialise_auth_ack :: "(auth_ack \<Rightarrow> bytes option) \<Rightarrow> int \<Rightarrow> string \<Rightarrow> bytes option" where
  "serialise_auth_ack pb sid pk =
     pb \<lparr>pk_id = Some 2, pk_sid = Some sid, pk_public_key = Some pk, pk_address = None, pk_port = None\<rparr>"

definition serialise_auth_ack2 :: "(auth_ack \<Rightarrow> bytes option) \<Rightarrow> int \<Rightarrow> int \<Rightarrow> bytes option" where
  "serialise_auth_ack2 pb sid port =
     pb \<lparr>pk_id = Some 4, pk_sid = Some sid, pk_public_key = Some [], pk_address = Some [], pk_port = Some port\<rparr>"

text \<open>The token is used for all three fields.\<close>

definition serialise_agent_auth :: "(agent_auth \<Rightarrow> bytes option) \<Rightarrow> string \<Rightarrow> string \<Rightarrow> string \<Rightarrow> bytes option" where
  "serialise_agent_auth pb tok pk device =
     pb \<lparr>pa_id = None, pa_token = Some tok, pa_public_key = Some tok, pa_device_id = Some tok\<rparr>"

section \<open>The agent\<close>

text \<open>\<open>readToken\<close>: \<open>ReadString\<close> keeps the newline it stops at.\<close>

definition read_token :: "string \<Rightarrow> string" where
  "read_token stdin = takeWhile (\<lambda>c. c \<noteq> CHR 0x0A) stdin @ take 1 (dropWhile (\<lambda>c. c \<noteq> CHR 0x0A) stdin)"

definition authentication_message :: "string \<Rightarrow> keypair \<Rightarrow> string \<Rightarrow> agent_auth" where
  "authentication_message secret keys device =
     \<lparr>pa_id = None, pa_token = Some secret, pa_public_key = Some (b64_encode (kp_public keys)),
      pa_device_id = Some device\<rparr>"

text \<open>The \<open>AuthAck\<close> that the broker's \<open>serverHandler\<close> writes for a waiting session.\<close>

definition session_ack :: "string \<Rightarrow> channel_session \<Rightarrow> auth_ack" where
  "session_ack public_key cs = \<lparr>pk_id = Some 2, pk_sid = Some (sint (word_of_int (cs_sid cs) :: 32 word)),
     pk_public_key = Some public_key, pk_address = Some (cs_ip cs),
     pk_port = Some (sint (word_of_int (cs_port cs) :: 32 word))\<rparr>"

definition zero_ack :: auth_ack where
  "zero_ack = \<lparr>pk_id = None, pk_sid = None, pk_public_key = None, pk_address = None, pk_port = None\<rparr>"

text \<open>
  \<open>sendBeacon\<close>: the reply is always handed to the callback, an empty body too, and decodes to a
  message without fields then. The map of ports it looks up is never written. The result is
  the address it opens a terminal for; \<open>reached\<close> is whether the dial works, and a failed
  dial is fatal. Port 0 cannot be dialled.
\<close>

definition send_beacon :: "(int \<Rightarrow> bool) \<Rightarrow> bool \<Rightarrow> auth_ack option \<Rightarrow> (string \<times> int) outcome option" where
  "send_beacon opened reached reply =
     (let ack = (case reply of None \<Rightarrow> zero_ack | Some a \<Rightarrow> a);
          port = get_int 0 (pk_port ack)
      in if opened port then None
         else if port = 0 \<or> \<not> reached then Some (Crash (DialFailed port))
         else Some (Next (get_string (pk_address ack), port)))"

definition no_ports :: "int \<Rightarrow> bool" where
  "no_ports p \<longleftrightarrow> False"

text \<open>One beacon against the broker: the request reaches \<open>serverHandler\<close>, its reply the callback.\<close>

definition beacon_round ::
  "keypair \<Rightarrow> string \<Rightarrow> bool \<Rightarrow> hub \<Rightarrow> (hub outcome \<times> (string \<times> int) outcome option) option" where
  "beacon_round keys device reached s =
     (let auth = authentication_message [] keys device;
          pk = get_string (pa_public_key auth)
      in map_option (\<lambda>(s', cs). (s', send_beacon no_ports reached (map_option (session_ack pk) cs)))
        (server_handler (Some (get_string (pa_token auth), pk, get_string (pa_device_id auth))) s))"

text \<open>
  An idle agent dies: while no session waits for its device, the first beacon of an agent that
  the broker can queue makes the agent dial port 0 and end, although the broker took the beacon;
  with a session waiting it opens a terminal for the session's port at every beacon anew.
\<close>

theorem legacy_idle_agent_dies:
  "(hb_links s device = None \<and> length (hb_register s) < 100 \<longrightarrow>
     (\<exists>t. beacon_round keys device reached s = Some (Next t, Some (Crash (DialFailed 0))))) \<and>
   (hb_links s device = Some cs \<and> 0 < cs_port cs \<and> cs_port cs \<le> 65535 \<longrightarrow>
     beacon_round keys device True s = Some (Next s, Some (Next (cs_ip cs, cs_port cs))))"
proof -
  have "sint (word_of_int p :: 32 word) = p" if "0 < p" "p \<le> 65535" for p
    using that by (simp add: sint_sbintrunc' signed_take_bit_int_eq_self)
  then show ?thesis
    by (auto simp: beacon_round_def server_handler_def send_beacon_def no_ports_def zero_ack_def get_int_def
        get_string_def authentication_message_def session_ack_def register_cap_def Let_def)
qed

theorem legacy_idle_agent_dies_witness:
  "\<exists>t. beacon_round \<lparr>kp_public = [1], kp_private = [2]\<rparr> ''dev'' True new_main_hub =
     Some (Next t, Some (Crash (DialFailed 0)))"
  using legacy_idle_agent_dies [of new_main_hub "''dev''"] by (simp add: new_main_hub_def)

end
