(* ===== verification/LegacyNet.thy ===== *)
theory LegacyNet
  imports LegacyAgent Commands
begin

text \<open>
  The program around the parts of the first version: its HTTP calls over a Noise socket
  (\<open>_legacy/agent/setup.go\<close>), the set-up of its sockets (\<open>_legacy/common/noise.go\<close>, \<open>conn.go\<close>,
  \<open>_legacy/broker/agents.go\<close>, \<open>broker.go\<close>), its terminal (\<open>agent0.go\<close>) and the life of the agent's
  process (\<open>agent.go\<close>, \<open>beacon.go\<close>). The theorem says what the process needs to stay alive.
\<close>

section \<open>HTTP calls\<close>

text \<open>
  What became of a request: \<open>cli.Do\<close> failed, the body could not be read or closed, or a reply. A
  call starts a goroutine and waits for its signal: None is a call that never returns,
  because the goroutine returned without one.
\<close>

datatype 'r http_end = NoReply | BadBody | Reply 'r

definition secure_http_post ::
  "bool \<Rightarrow> 'r http_end \<Rightarrow> ('r \<Rightarrow> 'a outcome) \<Rightarrow> 'a outcome option" where
  "secure_http_post request_ok e handle_response =
     (if \<not> request_ok then Some (Crash BadRequest)
      else case e of
          NoReply \<Rightarrow> None
        | BadBody \<Rightarrow> Some (Crash BodyUnread)
        | Reply r \<Rightarrow> Some (handle_response r))"

definition secure_http_get :: "bool \<Rightarrow> 'r http_end \<Rightarrow> unit outcome option" where
  "secure_http_get request_ok e =
     (if \<not> request_ok then Some (Crash BadRequest)
      else case e of
          NoReply \<Rightarrow> None
        | BadBody \<Rightarrow> Some (Crash BodyUnread)
        | Reply r \<Rightarrow> Some (Next ()))"

section \<open>Sockets\<close>

text \<open>
  The servers: \<open>listened\<close> is whether the port could be had. \<open>http.Serve\<close> returns an error only, and
  late, so none of these functions returns.
\<close>

definition create_server_plain_channel :: "int \<Rightarrow> bool \<Rightarrow> unit outcome" where
  "create_server_plain_channel port listened =
     (if \<not> listened then Crash (ListenFailed port) else Crash (ServeEnded port))"

definition create_server_noise_channel :: "int \<Rightarrow> bool \<Rightarrow> unit outcome" where
  "create_server_noise_channel port listened =
     (if \<not> listened then Crash (ListenFailed port) else Crash (ServeEnded port))"

definition create_server_channel :: "int \<Rightarrow> bool \<Rightarrow> unit outcome" where
  "create_server_channel port listened =
     (if \<not> listened then Crash (ListenFailed port) else Crash (ServeEnded port))"

definition listen_agents :: "int \<Rightarrow> bool \<Rightarrow> unit outcome" where
  "listen_agents port listened =
     (if \<not> listened then Crash (ListenFailed port) else Crash (ServeEnded port))"

text \<open>
  The clients: the handler runs on the connection and the function returns when it does. The
  Noise client asks for a path of its own.
\<close>

definition create_client_plain_channel ::
  "(string \<times> int \<times> string \<Rightarrow> bool) \<Rightarrow> string \<Rightarrow> int \<Rightarrow> string \<Rightarrow> 'a outcome \<Rightarrow> 'a outcome" where
  "create_client_plain_channel reached address port path handle_read_write =
     (if \<not> reached (address, port, path) then Crash (DialFailed port) else handle_read_write)"

definition create_client_noise_channel ::
  "(string \<times> int \<times> string \<Rightarrow> bool) \<Rightarrow> string \<Rightarrow> int \<Rightarrow> string \<Rightarrow> 'a outcome \<Rightarrow> 'a outcome" where
  "create_client_noise_channel reached address port path handle_read_write =
     (if \<not> reached (address, port, ''/ws'') then Crash (DialFailed port) else handle_read_write)"

definition create_client_channel :: "(string \<times> int \<times> string \<Rightarrow> bool) \<Rightarrow> string \<Rightarrow> int \<Rightarrow> string \<Rightarrow> unit outcome" where
  "create_client_channel reached address port path =
     (if \<not> reached (address, port, path) then Crash (DialFailed port) else Next ())"

section \<open>The broker's command\<close>

text \<open>The globals set by \<open>main\<close> from the command line; \<open>ints\<close> are the flags that are numbers.\<close>

record legacy_settings =
  lg_agents_port :: int
  lg_broker_port :: int
  lg_auth_address :: string
  lg_hostname :: string
  lg_id :: string
  lg_configuration :: string

definition legacy_broker_flags :: "(string \<rightharpoonup> int) \<Rightarrow> command_line \<Rightarrow> legacy_settings" where
  "legacy_broker_flags ints cl =
     \<lparr>lg_agents_port = (case ints ''agentsPort'' of None \<Rightarrow> 8082 | Some n \<Rightarrow> n),
      lg_broker_port = (case ints ''brokerPort'' of None \<Rightarrow> 8081 | Some n \<Rightarrow> n),
      lg_auth_address = flag_string cl ''authApiAddress'' ''https://auth.marshmallows.cloud'',
      lg_hostname = flag_string cl ''hostname'' ''127.0.0.1'',
      lg_id = flag_string cl ''id'' ''valc31'',
      lg_configuration = flag_string cl ''config'' ''configuration.dev.json''\<rparr>"

text \<open>The routes of \<open>listenBroker\<close>: the pattern, the method it is limited to, and the handler.\<close>

datatype legacy_endpoint = LegacyCreateChannel | LegacyDevices | LegacyPeers | LegacyChannel

definition legacy_routes :: "(string \<times> string option \<times> legacy_endpoint) list" where
  "legacy_routes =
     [(''/admin/channel/create/{channel}/{port}'', Some ''GET'', LegacyCreateChannel),
      (''/devices.json'', Some ''GET'', LegacyDevices),
      (''/open/{token}'', None, LegacyPeers),
      (''/channel/{token}/ws'', None, LegacyChannel)]"

text \<open>The variables of a pattern, in order.\<close>

function path_vars :: "string \<Rightarrow> string list" where
  "path_vars p =
     (case dropWhile (\<lambda>c. c \<noteq> CHR 0x7B) p of
        [] \<Rightarrow> []
      | _ # r \<Rightarrow> takeWhile (\<lambda>c. c \<noteq> CHR 0x7D) r # path_vars (dropWhile (\<lambda>c. c \<noteq> CHR 0x7D) r))"
  by pat_completeness auto
termination
proof (relation "measure length")
  fix p r :: string and c
  assume "dropWhile (\<lambda>c. c \<noteq> CHR 0x7B) p = c # r"
  then have "Suc (length r) \<le> length p" using length_dropWhile_le [of "\<lambda>c. c \<noteq> CHR 0x7B" p] by simp
  then show "(dropWhile (\<lambda>c. c \<noteq> CHR 0x7D) r, p) \<in> measure length"
    using length_dropWhile_le [of "\<lambda>c. c \<noteq> CHR 0x7D" r] by simp
qed simp

declare path_vars.simps [simp del]

section \<open>The agent's side connection\<close>

text \<open>The health check writes the time as a binary message; its error is only logged.\<close>

definition healthcheck_handler :: "bool \<Rightarrow> int \<Rightarrow> (nat \<times> bytes) list \<Rightarrow> (nat \<times> bytes) list" where
  "healthcheck_handler net seconds out =
     (if net then out @ [(binary_message, encode_timestamp seconds)] else out)"

section \<open>A terminal\<close>

text \<open>
  \<open>Pipe.in\<close> from the terminal to the WebSocket: each read (at most \<open>buffer_size\<close> bytes) with the
  outcome of its write, which is ignored, until the read that fails and panics.
\<close>

fun pipe_in :: "(bytes \<times> bool) list \<Rightarrow> (nat \<times> bytes) list \<Rightarrow> (nat \<times> bytes) list" where
  "pipe_in [] out = out"
| "pipe_in ((d, net) # r) out = pipe_in r (fst (rwc_write net d out))"

text \<open>
  \<open>pttyAttach\<close>: both copy loops, with what reached the WebSocket and the terminal. Neither ends but
  by a panic, which ends the process.
\<close>

definition ptty_attach ::
  "(bytes \<times> bool) list \<Rightarrow> (nat \<Rightarrow> nat \<times> bool) \<Rightarrow> bytes list \<Rightarrow> (nat \<times> bytes) list \<times> bytes list \<times> unit outcome" where
  "ptty_attach reads pick frames =
     (pipe_in reads [], pipe_copy pick 0 \<lparr>rw_reader = None, rw_frames = frames\<rparr>, Crash StreamEnded)"

section \<open>The agent's process\<close>

text \<open>
  \<open>main\<close> is enrolling, waits for ever in the enrollment, or beats. Each beacon runs in a goroutine
  of its own: those that wait for a reply, those that wait for ever, and those in a terminal.
\<close>

datatype device_pc = Enrolling | Waiting | Beating

record device_proc =
  dv_id :: string
  dv_keys :: keypair
  dv_pc :: device_pc
  dv_sent :: "agent_auth list"
  dv_calls :: nat
  dv_stuck :: nat
  dv_terminals :: "(string \<times> int) list"

definition legacy_agent_main :: "nat list \<Rightarrow> string \<Rightarrow> keypair \<Rightarrow> device_proc" where
  "legacy_agent_main draws stdin keys =
     (let device = generate_id draws
      in \<lparr>dv_id = device, dv_keys = keys, dv_pc = Enrolling,
          dv_sent = [authentication_message (read_token stdin) keys device],
          dv_calls = 0, dv_stuck = 0, dv_terminals = []\<rparr>)"

definition device_enrolled :: "'r http_end \<Rightarrow> device_proc \<Rightarrow> device_proc outcome option" where
  "device_enrolled e s =
     (if dv_pc s \<noteq> Enrolling then None
      else Some (case secure_http_post True e (\<lambda>r. Next ()) of
          None \<Rightarrow> Next (s\<lparr>dv_pc := Waiting\<rparr>)
        | Some (Crash c) \<Rightarrow> Crash c
        | Some (Next u) \<Rightarrow> Next (s\<lparr>dv_pc := Beating\<rparr>)))"

definition device_tick :: "device_proc \<Rightarrow> device_proc outcome option" where
  "device_tick s =
     (if dv_pc s \<noteq> Beating then None
      else Some (Next (s\<lparr>dv_sent := dv_sent s @ [authentication_message [] (dv_keys s) (dv_id s)],
             dv_calls := Suc (dv_calls s)\<rparr>)))"

text \<open>The end of a beacon's call; \<open>reached\<close>: whether the dial in its callback works.\<close>

definition device_answered :: "auth_ack option http_end \<Rightarrow> bool \<Rightarrow> device_proc \<Rightarrow> device_proc outcome option" where
  "device_answered e reached s =
     (if dv_calls s = 0 then None
      else let s = s\<lparr>dv_calls := dv_calls s - 1\<rparr> in Some
        (case secure_http_post True e (\<lambda>r. case send_beacon no_ports reached r of
               None \<Rightarrow> Next None
             | Some (Next t) \<Rightarrow> Next (Some t)
             | Some (Crash c) \<Rightarrow> Crash c) of
           None \<Rightarrow> Next (s\<lparr>dv_stuck := Suc (dv_stuck s)\<rparr>)
         | Some (Crash c) \<Rightarrow> Crash c
         | Some (Next None) \<Rightarrow> Next s
         | Some (Next (Some t)) \<Rightarrow> Next (s\<lparr>dv_terminals := dv_terminals s @ [t]\<rparr>)))"

text \<open>The end of a terminal: of its shell or of its WebSocket.\<close>

definition device_terminal_ends :: "nat \<Rightarrow> device_proc \<Rightarrow> device_proc outcome option" where
  "device_terminal_ends i s = (if i < length (dv_terminals s) then Some (Crash StreamEnded) else None)"

datatype device_event =
    DEnrolled "auth_ack option http_end"
  | DTick
  | DAnswered "auth_ack option http_end" bool
  | DTerminalEnds nat

fun device_step :: "device_event \<Rightarrow> device_proc \<Rightarrow> device_proc outcome option" where
  "device_step (DEnrolled e) s = device_enrolled e s"
| "device_step DTick s = device_tick s"
| "device_step (DAnswered e reached) s = device_answered e reached s"
| "device_step (DTerminalEnds i) s = device_terminal_ends i s"

definition device_alive :: "device_event \<Rightarrow> device_proc \<Rightarrow> device_proc option" where
  "device_alive e s = (case device_step e s of Some (Next t) \<Rightarrow> Some t | _ \<Rightarrow> None)"

section \<open>What keeps the agent alive\<close>

text \<open>The replies to beacons in a run, and the terminal that a reply asks for.\<close>

fun answer_of :: "device_event \<Rightarrow> auth_ack option list" where
  "answer_of (DAnswered (Reply r) reached) = [r]"
| "answer_of _ = []"

definition answers :: "device_event list \<Rightarrow> auth_ack option list" where
  "answers es = concat (map answer_of es)"

definition target :: "auth_ack option \<Rightarrow> string \<times> int" where
  "target r = (let ack = (case r of None \<Rightarrow> zero_ack | Some a \<Rightarrow> a)
     in (get_string (pk_address ack), get_int 0 (pk_port ack)))"

lemma answers_simps [simp]: "answers [] = []" "answers (es @ [e]) = answers es @ answer_of e"
  by (simp_all add: answers_def)

lemma send_beacon_cases:
  "send_beacon no_ports reached r =
     Some (if snd (target r) = 0 \<or> \<not> reached then Crash (DialFailed (snd (target r))) else Next (target r))"
  by (simp add: send_beacon_def target_def no_ports_def Let_def)

definition device_inv :: "device_event list \<Rightarrow> device_proc \<Rightarrow> bool" where
  "device_inv es s \<longleftrightarrow>
     dv_terminals s = map target (answers es) \<and> (\<forall>r\<in>set (answers es). snd (target r) \<noteq> 0) \<and>
     (\<forall>i. DTerminalEnds i \<notin> set es) \<and>
     length (dv_sent s) = Suc (dv_calls s + dv_stuck s + length (dv_terminals s)) \<and>
     (dv_pc s \<noteq> Beating \<longrightarrow> dv_calls s = 0 \<and> dv_stuck s = 0 \<and> dv_terminals s = []) \<and>
     (DEnrolled NoReply \<in> set es \<longleftrightarrow> dv_pc s = Waiting) \<and>
     (dv_pc s = Beating \<longleftrightarrow> (\<exists>r. DEnrolled (Reply r) \<in> set es))"

lemma device_inv_step:
  assumes "device_inv es s" and "device_alive e s = Some t"
  shows "device_inv (es @ [e]) t"
proof (cases e)
  case (DEnrolled r)
  then show ?thesis
    using assms
    by (auto simp: device_inv_def device_alive_def device_enrolled_def secure_http_post_def
        split: if_splits http_end.splits)
next
  case DTick
  then show ?thesis
    using assms by (auto simp: device_inv_def device_alive_def device_tick_def split: if_splits)
next
  case (DAnswered r reached)
  then have "dv_calls s \<noteq> 0"
    using assms(2) by (cases "dv_calls s = 0") (simp_all add: device_alive_def device_answered_def)
  then have "dv_pc s = Beating" using assms(1) by (auto simp: device_inv_def)
  with DAnswered \<open>dv_calls s \<noteq> 0\<close> show ?thesis
    using assms
    by (cases r) (auto simp: device_inv_def device_alive_def device_answered_def secure_http_post_def
        send_beacon_cases Let_def split: if_splits)
next
  case (DTerminalEnds i)
  then show ?thesis using assms by (auto simp: device_alive_def device_terminal_ends_def split: if_splits)
qed

text \<open>
  C39. What keeps the first agent alive: in every run it survives, each reply to a beacon named a
  session with a port and opened one more terminal, no terminal has ended, and every other
  beacon still waits, for ever if its request failed. It sends beacons only after its enrollment was
  answered; if the request of the enrollment failed, this was all it ever sent, and it can take no step
  any more: it hangs without a word.
\<close>

theorem legacy_agent_lifetime:
  assumes "runs device_alive (legacy_agent_main draws stdin keys) es s"
  shows "dv_terminals s = map target (answers es) \<and> (\<forall>r\<in>set (answers es). snd (target r) \<noteq> 0) \<and>
    (\<forall>i. DTerminalEnds i \<notin> set es) \<and>
    length (dv_sent s) = Suc (dv_calls s + dv_stuck s + length (dv_terminals s)) \<and>
    (1 < length (dv_sent s) \<longrightarrow> (\<exists>r. DEnrolled (Reply r) \<in> set es)) \<and>
    (DEnrolled NoReply \<in> set es \<longrightarrow> length (dv_sent s) = 1 \<and> (\<forall>e. device_step e s = None))"
proof -
  have "runs device_alive s0 es s \<Longrightarrow> s0 = legacy_agent_main draws stdin keys \<Longrightarrow> device_inv es s" for s0
  proof (induction rule: runs.induct)
    case runs_none
    then show ?case by (simp add: device_inv_def legacy_agent_main_def Let_def)
  qed (simp add: device_inv_step)
  then have inv: "device_inv es s" using assms by blast
  moreover have "device_step e s = None" if "dv_pc s = Waiting" for e
    using inv that
    by (cases e) (auto simp: device_inv_def device_enrolled_def device_tick_def device_answered_def
      device_terminal_ends_def)
  ultimately show ?thesis by (cases "dv_pc s") (auto simp: device_inv_def)
qed

definition demo_ack :: auth_ack where
  "demo_ack = \<lparr>pk_id = Some 2, pk_sid = Some 1, pk_public_key = Some [], pk_address = Some ''host'', pk_port = Some 9999\<rparr>"

theorem legacy_agent_lifetime_witness:
  "\<exists>s. runs device_alive (legacy_agent_main [1, 2] ''t'' \<lparr>kp_public = [1], kp_private = [2]\<rparr>)
       [DEnrolled (Reply None), DTick, DTick, DAnswered (Reply (Some demo_ack)) True, DAnswered NoReply True] s \<and>
     dv_terminals s = [(''host'', 9999)] \<and> length (dv_sent s) = 3"
proof -
  let ?es = "[DEnrolled (Reply None), DTick, DTick, DAnswered (Reply (Some demo_ack)) True, DAnswered NoReply True]"
  have "\<exists>s. runs device_alive (legacy_agent_main [1, 2] ''t'' \<lparr>kp_public = [1], kp_private = [2]\<rparr>) ?es s \<and> length (dv_sent s) = 3"
    by (simp add: runs_exec legacy_agent_main_def device_alive_def device_enrolled_def device_tick_def
        device_answered_def secure_http_post_def send_beacon_cases target_def get_int_def demo_ack_def Let_def)
  then obtain s where s: "runs device_alive (legacy_agent_main [1, 2] ''t'' \<lparr>kp_public = [1], kp_private = [2]\<rparr>) ?es s"
      "length (dv_sent s) = 3"
    by blast
  have "map target (answers ?es) = [(''host'', 9999)]"
    by (simp add: answers_def target_def demo_ack_def get_string_def get_int_def)
  with legacy_agent_lifetime [OF s(1)] s show ?thesis by auto
qed

section \<open>The route of a channel\<close>

text \<open>The variable that \<open>wsChannelHandler\<close> reads is not one of its route.\<close>

lemma channel_route_vars:
  "(p, m, LegacyChannel) \<in> set legacy_routes \<Longrightarrow> path_vars p = [''token'']"
  by (auto simp: legacy_routes_def path_vars.simps)

end
