(* ===== verification/LegacyMessages.thy ===== *)
theory LegacyMessages
  imports LegacyAgent
begin

text \<open>
  The messages of the first version at the level of their fields (\<open>_legacy/common/protocol.go\<close>,
  \<open>_legacy/agent/agentprotocol.go\<close>): the functions that decode them, and the self-tests, with what
  they print. The protobuf library is the record \<open>codec\<close>, and its promise is \<open>keeps\<close>. What is written is
  read back, except that an agent's key and device id are lost before the library sees them; the
  self-test of that message cannot notice, since it never calls the function it should test.
\<close>

section \<open>The library\<close>

text \<open>
  \<open>proto.Marshal\<close> may fail; \<open>proto.Unmarshal\<close> fills in what it can and says whether the input was a
  message. The generated types have the required fields of \<open>requests.proto\<close>, and 32-bit integers.
\<close>

record 'm codec =
  pb_marshal :: "'m \<Rightarrow> bytes option"
  pb_unmarshal :: "bytes \<Rightarrow> 'm \<times> bool"

definition int32 :: "int \<Rightarrow> bool" where
  "int32 n \<longleftrightarrow> - 2147483648 \<le> n \<and> n \<le> 2147483647"

definition complete_auth :: "auth_request \<Rightarrow> bool" where
  "complete_auth m \<longleftrightarrow> pred_option int32 (pr_id m) \<and> pr_sid m \<noteq> None \<and> pred_option int32 (pr_sid m) \<and>
     pr_public_key m \<noteq> None"

definition complete_ack :: "auth_ack \<Rightarrow> bool" where
  "complete_ack m \<longleftrightarrow> pred_option int32 (pk_id m) \<and> pk_sid m \<noteq> None \<and> pred_option int32 (pk_sid m) \<and>
     pk_public_key m \<noteq> None \<and> pred_option int32 (pk_port m)"

definition complete_agent_auth :: "agent_auth \<Rightarrow> bool" where
  "complete_agent_auth m \<longleftrightarrow> pred_option int32 (pa_id m) \<and> pa_token m \<noteq> None \<and> pa_public_key m \<noteq> None \<and>
     pa_device_id m \<noteq> None"

definition keeps :: "('m \<Rightarrow> bool) \<Rightarrow> 'm codec \<Rightarrow> bool" where
  "keeps complete c \<longleftrightarrow>
     (\<forall>m. complete m \<longrightarrow> (\<exists>b. pb_marshal c m = Some b \<and> pb_unmarshal c b = (m, True)))"

lemma keepsE:
  assumes "keeps complete c" and "complete m"
  obtains b where "pb_marshal c m = Some b" and "pb_unmarshal c b = (m, True)"
  using assms unfolding keeps_def by blast

section \<open>Decoding\<close>

text \<open>The generated getters: a field that is not set reads as its default.\<close>

definition auth_id :: "auth_request \<Rightarrow> int" where "auth_id m = get_int 1 (pr_id m)"
definition ack_id :: "auth_ack \<Rightarrow> int" where "ack_id m = get_int 2 (pk_id m)"
definition agent_auth_id :: "agent_auth \<Rightarrow> int" where "agent_auth_id m = get_int 5 (pa_id m)"

text \<open>Three of the four decoders drop the library's error; \<open>GetRequest\<close>, for a message with an id only, is fatal.\<close>

definition deserialise_auth :: "auth_request codec \<Rightarrow> bytes \<Rightarrow> auth_request" where
  "deserialise_auth c p = fst (pb_unmarshal c p)"

definition deserialise_auth_ack :: "auth_ack codec \<Rightarrow> bytes \<Rightarrow> auth_ack" where
  "deserialise_auth_ack c p = fst (pb_unmarshal c p)"

definition deserialise_agent_auth :: "agent_auth codec \<Rightarrow> bytes \<Rightarrow> agent_auth" where
  "deserialise_agent_auth c p = fst (pb_unmarshal c p)"

definition get_request :: "int option codec \<Rightarrow> bytes \<Rightarrow> int option outcome" where
  "get_request c data =
     (case pb_unmarshal c data of (req, ok) \<Rightarrow> if \<not> ok then Crash BadMessage else Next req)"

section \<open>The self-tests\<close>

text \<open>The messages they write, and their banners.\<close>

definition test_auth :: auth_request where
  "test_auth = \<lparr>pr_id = None, pr_sid = Some 1000, pr_public_key = Some ''aaaaaaaaaaaaaaaaaaaaaaaaaa''\<rparr>"

definition test_ack :: auth_ack where
  "test_ack = \<lparr>pk_id = None, pk_sid = Some 1000, pk_public_key = Some ''aaaaaaaaaaaaaaaaaaaaaaaaaa'',
     pk_address = None, pk_port = None\<rparr>"

definition test_agent_auth :: agent_auth where
  "test_agent_auth = \<lparr>pa_id = None, pa_token = Some ''mytoken'', pa_public_key = Some ''aaaaaaaaaaaaaaaaaaaaaaaaaa'',
     pa_device_id = Some ''abcdefg''\<rparr>"

definition auth_banner :: string where
  "auth_banner = ''............Test_Auth_Serialisation..........................................''"

definition ack_banner :: string where
  "ack_banner = ''............Test_AuthAck_Serialisation..........................................''"

definition protocol_banner :: string where
  "protocol_banner = ''............Test_Protocol_Auth_Serialisation..........................................''"

definition agent_banner :: string where
  "agent_banner = ''............TestAgentSerialisation..........................................''"

text \<open>Each yields the lines it prints, or ends the process.\<close>

definition test_auth_ack_serialisation :: "auth_ack codec \<Rightarrow> string list outcome" where
  "test_auth_ack_serialisation c =
     (case pb_marshal c test_ack of
        None \<Rightarrow> Crash MarshalFailed
      | Some data \<Rightarrow>
             (case pb_unmarshal c data of (test, ok) \<Rightarrow>
                if \<not> ok then Crash BadMessage
                else if get_int 0 (pk_sid test) \<noteq> get_int 0 (pk_sid test_ack)
                then Crash (DataMismatch (get_int 0 (pk_sid test)) (get_int 0 (pk_sid test_ack)))
                else Next [ack_banner,
                  ''id:'' @ format_int (ack_id test) @ ''-'' @ format_int (ack_id test_ack), ''.'']))"

definition test_auth_serialisation :: "auth_request codec \<Rightarrow> string list outcome" where
  "test_auth_serialisation c =
     (case pb_marshal c test_auth of
        None \<Rightarrow> Crash MarshalFailed
      | Some data \<Rightarrow>
             (case pb_unmarshal c data of (test, ok) \<Rightarrow>
                if \<not> ok then Crash BadMessage
                else if get_int 0 (pr_sid test) \<noteq> get_int 0 (pr_sid test_auth)
                then Crash (DataMismatch (get_int 0 (pr_sid test)) (get_int 0 (pr_sid test_auth)))
                else Next [auth_banner, ''.'']))"

definition test_protocol_auth_serialisation ::
  "auth_request codec \<Rightarrow> auth_ack codec \<Rightarrow> string list outcome" where
  "test_protocol_auth_serialisation ca ck =
     (case test_auth_serialisation ca of
        Crash e \<Rightarrow> Crash e
      | Next out1 \<Rightarrow>
          (case test_auth_ack_serialisation ck of
             Crash e \<Rightarrow> Crash e
           | Next out2 \<Rightarrow>
               Next ([protocol_banner] @ out1 @ out2 @ [''.''])))"

definition test_agent_serialisation :: "agent_auth codec \<Rightarrow> string list outcome" where
  "test_agent_serialisation c =
     (case pb_marshal c test_agent_auth of
        None \<Rightarrow> Crash MarshalFailed
      | Some data \<Rightarrow>
             (case pb_unmarshal c data of (test, ok) \<Rightarrow>
                if \<not> ok then Crash BadMessage
                else if get_string (pa_device_id test) \<noteq> get_string (pa_device_id test_agent_auth)
                then Crash (TextMismatch (get_string (pa_device_id test)) (get_string (pa_device_id test_agent_auth)))
                else Next [agent_banner,
                  ''id:'' @ format_int (agent_auth_id test) @ ''-'' @ format_int (agent_auth_id test_agent_auth), ''.'']))"

section \<open>What is written is read\<close>

lemma auth_survives:
  assumes "keeps complete_auth c" and "int32 sid"
  shows "\<exists>b. serialise_auth (pb_marshal c) sid pk = Some b \<and> auth_id (deserialise_auth c b) = 1 \<and>
    get_int 0 (pr_sid (deserialise_auth c b)) = sid \<and> get_string (pr_public_key (deserialise_auth c b)) = pk"
proof -
  have "complete_auth \<lparr>pr_id = Some 1, pr_sid = Some sid, pr_public_key = Some pk\<rparr>"
    using assms(2) by (simp add: complete_auth_def int32_def)
  from keepsE [OF assms(1) this] obtain b where "serialise_auth (pb_marshal c) sid pk = Some b"
    "pb_unmarshal c b = (\<lparr>pr_id = Some 1, pr_sid = Some sid, pr_public_key = Some pk\<rparr>, True)"
    unfolding serialise_auth_def by blast
  then show ?thesis by (simp add: deserialise_auth_def auth_id_def get_int_def get_string_def)
qed

lemma auth_ack_survives:
  assumes "keeps complete_ack c" and "int32 sid"
  shows "\<exists>b. serialise_auth_ack (pb_marshal c) sid pk = Some b \<and> ack_id (deserialise_auth_ack c b) = 2 \<and>
    get_int 0 (pk_sid (deserialise_auth_ack c b)) = sid \<and> get_string (pk_public_key (deserialise_auth_ack c b)) = pk \<and>
    get_int 0 (pk_port (deserialise_auth_ack c b)) = 0"
proof -
  have "complete_ack \<lparr>pk_id = Some 2, pk_sid = Some sid, pk_public_key = Some pk, pk_address = None, pk_port = None\<rparr>"
    using assms(2) by (simp add: complete_ack_def int32_def)
  from keepsE [OF assms(1) this] obtain b where
    "serialise_auth_ack (pb_marshal c) sid pk = Some b"
    "pb_unmarshal c b = (\<lparr>pk_id = Some 2, pk_sid = Some sid, pk_public_key = Some pk, pk_address = None, pk_port = None\<rparr>, True)"
    unfolding serialise_auth_ack_def by blast
  then show ?thesis by (simp add: deserialise_auth_ack_def ack_id_def get_int_def get_string_def)
qed

lemma auth_ack2_survives:
  assumes "keeps complete_ack c" and "int32 sid" and "int32 port"
  shows "\<exists>b. serialise_auth_ack2 (pb_marshal c) sid port = Some b \<and> ack_id (deserialise_auth_ack c b) = 4 \<and>
    get_int 0 (pk_sid (deserialise_auth_ack c b)) = sid \<and> get_int 0 (pk_port (deserialise_auth_ack c b)) = port"
proof -
  have "complete_ack \<lparr>pk_id = Some 4, pk_sid = Some sid, pk_public_key = Some [], pk_address = Some [], pk_port = Some port\<rparr>"
    using assms(2,3) by (simp add: complete_ack_def int32_def)
  from keepsE [OF assms(1) this] obtain b where
    "serialise_auth_ack2 (pb_marshal c) sid port = Some b"
    "pb_unmarshal c b = (\<lparr>pk_id = Some 4, pk_sid = Some sid, pk_public_key = Some [], pk_address = Some [], pk_port = Some port\<rparr>, True)"
    unfolding serialise_auth_ack2_def by blast
  then show ?thesis by (simp add: deserialise_auth_ack_def ack_id_def get_int_def)
qed

text \<open>An agent's key and device id are replaced by its token.\<close>

lemma agent_auth_replaced:
  assumes "keeps complete_agent_auth c"
  shows "\<exists>b. serialise_agent_auth (pb_marshal c) tok pk device = Some b \<and>
    deserialise_agent_auth c b = \<lparr>pa_id = None, pa_token = Some tok, pa_public_key = Some tok, pa_device_id = Some tok\<rparr>"
proof -
  have "complete_agent_auth \<lparr>pa_id = None, pa_token = Some tok, pa_public_key = Some tok, pa_device_id = Some tok\<rparr>"
    by (simp add: complete_agent_auth_def)
  from keepsE [OF assms this] show ?thesis
    by (metis serialise_agent_auth_def deserialise_agent_auth_def fst_conv)
qed

lemma agent_auth_survives_iff:
  assumes "keeps complete_agent_auth c" and "serialise_agent_auth (pb_marshal c) tok pk device = Some b"
  shows "get_string (pa_public_key (deserialise_agent_auth c b)) = pk \<and>
      get_string (pa_device_id (deserialise_agent_auth c b)) = device \<longleftrightarrow> pk = tok \<and> device = tok"
  using agent_auth_replaced [OF assms(1), of tok pk device] assms(2) by (auto simp: get_string_def)

section \<open>What the self-tests show\<close>

lemma complete_tests: "complete_auth test_auth" "complete_ack test_ack" "complete_agent_auth test_agent_auth"
  by (simp_all add: complete_auth_def complete_ack_def complete_agent_auth_def int32_def
      test_auth_def test_ack_def test_agent_auth_def)

lemma auth_test_passes:
  "keeps complete_auth c \<Longrightarrow> test_auth_serialisation c = Next [auth_banner, ''.'']"
  using complete_tests(1) by (auto simp: test_auth_serialisation_def elim!: keepsE)

lemma format_ids: "format_int 2 = ''2''" "format_int 5 = ''5''"
  by code_simp+

lemma ack_test_passes:
  "keeps complete_ack c \<Longrightarrow> test_auth_ack_serialisation c = Next [ack_banner, ''id:2-2'', ''.'']"
  using complete_tests(2)
  by (auto simp: test_auth_ack_serialisation_def ack_id_def test_ack_def get_int_def format_ids elim!: keepsE)

lemma protocol_test_passes:
  "keeps complete_auth ca \<Longrightarrow> keeps complete_ack ck \<Longrightarrow> test_protocol_auth_serialisation ca ck =
     Next [protocol_banner, auth_banner, ''.'', ack_banner, ''id:2-2'', ''.'', ''.'']"
  by (simp add: test_protocol_auth_serialisation_def auth_test_passes ack_test_passes)

lemma agent_test_passes:
  "keeps complete_agent_auth c \<Longrightarrow> test_agent_serialisation c = Next [agent_banner, ''id:5-5'', ''.'']"
  using complete_tests(3)
  by (auto simp: test_agent_serialisation_def agent_auth_id_def test_agent_auth_def get_int_def format_ids
      elim!: keepsE)

text \<open>
  They compare one field: a library that loses the public keys and tokens of all messages passes
  them as well.
\<close>

definition lossy :: "('m \<Rightarrow> 'm) \<Rightarrow> 'm codec \<Rightarrow> 'm codec" where
  "lossy forget c = c\<lparr>pb_unmarshal := (\<lambda>b. apfst forget (pb_unmarshal c b))\<rparr>"

lemma lossy_passes:
  "test_auth_serialisation (lossy (pr_public_key_update (\<lambda>_. None)) ca) = test_auth_serialisation ca"
  "test_auth_ack_serialisation (lossy (pk_public_key_update (\<lambda>_. None)) ck) = test_auth_ack_serialisation ck"
  "test_agent_serialisation (lossy (pa_public_key_update (\<lambda>_. None) \<circ> pa_token_update (\<lambda>_. None)) cg) =
     test_agent_serialisation cg"
  by (auto simp: lossy_def test_auth_serialisation_def test_auth_ack_serialisation_def
      test_agent_serialisation_def ack_id_def agent_auth_id_def apfst_def map_prod_def split: option.split prod.split)

section \<open>A codec that keeps its promise\<close>

text \<open>
  A plain encoding of the fields, one after the other, shows that a library can keep its
  promise for all three messages. It is not the wire format of protobuf.
\<close>

definition put_num :: "int option \<Rightarrow> bytes" where
  "put_num v = (case v of None \<Rightarrow> [0]
     | Some n \<Rightarrow> (if n < 0 then 2 else 1) # replicate (nat \<bar>n\<bar>) 1 @ [0])"

definition take_num :: "bytes \<Rightarrow> int option \<times> bytes" where
  "take_num b = (case b of [] \<Rightarrow> (None, [])
     | t # r \<Rightarrow> if t = 0 then (None, r)
         else let k = length (takeWhile (\<lambda>x. x = 1) r) in (Some (if t = 2 then - int k else int k), drop (Suc k) r))"

definition put_text :: "string option \<Rightarrow> bytes" where
  "put_text v = (case v of None \<Rightarrow> [0] | Some s \<Rightarrow> 1 # replicate (length s) 1 @ [0] @ go_bytes s)"

definition take_text :: "bytes \<Rightarrow> string option \<times> bytes" where
  "take_text b = (case b of [] \<Rightarrow> (None, [])
     | t # r \<Rightarrow> if t = 0 then (None, r)
         else let k = length (takeWhile (\<lambda>x. x = 1) r); q = drop (Suc k) r in (Some (go_string (take k q)), drop k q))"

lemma takeWhile_ones: "takeWhile (\<lambda>x. x = 1) (replicate n (1 :: byte) @ 0 # r) = replicate n 1"
  by (induction n) simp_all

lemma take_put_num: "take_num (put_num v @ r) = (v, r)"
  by (cases v) (simp_all add: take_num_def put_num_def takeWhile_ones)

lemma take_put_text: "take_text (put_text v @ r) = (v, r)"
proof (cases v)
  case (Some s)
  have "length (go_bytes s) = length s" "go_string (go_bytes s) = s"
    by (simp_all add: go_bytes_def go_string_def comp_def)
  then show ?thesis by (simp add: Some take_text_def put_text_def takeWhile_ones Let_def)
qed (simp add: take_text_def put_text_def)

definition plain_auth_codec :: "auth_request codec" where
  "plain_auth_codec = \<lparr>pb_marshal = (\<lambda>m. Some (put_num (pr_id m) @ put_num (pr_sid m) @ put_text (pr_public_key m))),
     pb_unmarshal = (\<lambda>b. let (i, b) = take_num b; (n, b) = take_num b; (k, b) = take_text b
       in (\<lparr>pr_id = i, pr_sid = n, pr_public_key = k\<rparr>, b = []))\<rparr>"

definition plain_ack_codec :: "auth_ack codec" where
  "plain_ack_codec = \<lparr>pb_marshal = (\<lambda>m. Some (put_num (pk_id m) @ put_num (pk_sid m) @ put_text (pk_public_key m) @
       put_text (pk_address m) @ put_num (pk_port m))),
     pb_unmarshal = (\<lambda>b. let (i, b) = take_num b; (n, b) = take_num b; (k, b) = take_text b;
         (a, b) = take_text b; (p, b) = take_num b
       in (\<lparr>pk_id = i, pk_sid = n, pk_public_key = k, pk_address = a, pk_port = p\<rparr>, b = []))\<rparr>"

definition plain_agent_auth_codec :: "agent_auth codec" where
  "plain_agent_auth_codec = \<lparr>pb_marshal = (\<lambda>m. Some (put_num (pa_id m) @ put_text (pa_token m) @
       put_text (pa_public_key m) @ put_text (pa_device_id m))),
     pb_unmarshal = (\<lambda>b. let (i, b) = take_num b; (t, b) = take_text b; (k, b) = take_text b; (d, b) = take_text b
       in (\<lparr>pa_id = i, pa_token = t, pa_public_key = k, pa_device_id = d\<rparr>, b = []))\<rparr>"

lemmas take_put = take_put_num take_put_text take_put_num [of _ "[]", simplified] take_put_text [of _ "[]", simplified]

lemma plain_codecs_keep:
  "keeps complete_auth plain_auth_codec" "keeps complete_ack plain_ack_codec"
  "keeps complete_agent_auth plain_agent_auth_codec"
  by (simp_all add: keeps_def plain_auth_codec_def plain_ack_codec_def plain_agent_auth_codec_def take_put)

text \<open>With this library the self-tests pass, and the device id of an agent is lost nevertheless.\<close>

lemma device_id_lost:
  "test_agent_serialisation plain_agent_auth_codec = Next [agent_banner, ''id:5-5'', ''.''] \<and>
   (\<exists>b. serialise_agent_auth (pb_marshal plain_agent_auth_codec) ''t'' ''k'' ''d'' = Some b \<and>
      get_string (pa_device_id (deserialise_agent_auth plain_agent_auth_codec b)) = ''t'')"
proof -
  obtain b where b: "serialise_agent_auth (pb_marshal plain_agent_auth_codec) ''t'' ''k'' ''d'' = Some b"
      "pa_device_id (deserialise_agent_auth plain_agent_auth_codec b) = Some ''t''"
    using agent_auth_replaced [OF plain_codecs_keep(3), of "''t''" "''k''" "''d''"] by auto
  then show ?thesis using agent_test_passes [OF plain_codecs_keep(3)] by (auto simp: get_string_def)
qed

end
