(* ===== verification/Spec2Isabelle.thy ===== *)
theory Spec2Isabelle
  imports Commands AuthPolicy AuthGate BrokerLock Enrollment Transport LegacyFacts LegacyRelay LegacyNet LegacyMessages
begin

text \<open>
  Verification development of marshmallows, a platform that gives a browser a terminal on a device
  behind a firewall. The device runs an agent (\<open>cmd/mm-agent\<close>, \<open>internal/agent\<close>) that dials the
  broker (\<open>cmd/mm-broker\<close>, \<open>internal/broker\<close>) over a WebSocket with a Noise session inside
  (\<open>internal/transport\<close>, \<open>internal/secure\<close>), registers with a one-time token and then serves shells.
  A browser opens a WebSocket to the broker for a device, and the broker bridges the two by frames
  that carry a session id (\<open>internal/protocol\<close>). The identity service (\<open>cmd/mm-auth\<close>,
  \<open>internal/auth\<close>) keeps users, invites and tokens, serves passkey and TOTP logins, and answers
  the broker's questions about tokens and cookies. The directory \<open>_legacy\<close> holds the first version.

  The code is modelled as it is written: a Go struct is a record, a map a partial function, an
  error a value, a string the list of its bytes, a fixed-width integer a word. Code that runs
  in one goroutine is a function; code that is interleaved (broker, agent, transports, the first version's hub
  and relay) is a step function on a state that contains every running handler, with one step
  per critical section, channel operation or network operation. An event carries what the
  environment decides: the outcome of each write, the bytes read, the clock, random draws,
  the choice of a \<open>select\<close>. The predicate \<open>runs\<close> (and its executable form \<open>exec\<close>) gives the
  interleavings, and the properties quantify over all of them.

  The theories, in the order of their imports:

  \<^item> \<open>Prelude\<close>: bytes and strings, runs of step functions, and the contracts that several parts
    meet, as locales: \<open>stepper\<close> and \<open>machine\<close> (an invariant kept by every step), \<open>single_use\<close>
    (a table of tokens each redeemed once per minting; \<open>single_use_within\<close> under an invariant), \<open>stream\<close> (what is taken out is a prefix of what was
    put in). Each is interpreted on the models of components: the store and the HTTP service for
    \<open>stepper\<close> and \<open>single_use\<close>, the broker, the composed system and the first version's hub for \<open>machine\<close>, the pipe, the
    browser connection and the first version's relay for \<open>stream\<close>, which a secure session meets too
    (\<open>session_stream\<close>) when the Noise library keeps its promises.
  \<^item> \<open>GoStrings\<close>, \<open>Codec\<close>, \<open>Utf8\<close>, \<open>Json\<close>, \<open>JsonParse\<close>, \<open>JsonFacts\<close>: the parts of Go's standard
    library that the code uses, with the round trips of hex, base64 and JSON (the locale \<open>roundtrip\<close>).
    The JSON parser has fuel 2 * length + 1 and the library's nesting limit; \<open>parse_fuel_enough\<close> shows
    that more fuel changes nothing on any input, \<open>parse_render\<close> that what the renderer produces within
    the limit is read back.
  \<^item> \<open>Protocol\<close>: the frame between agent and broker, its JSON text and its decoding.
  \<^item> \<open>Registry\<close>: the broker's table of devices, behind the contract \<open>catalogue\<close>, and the graph it serves.
  \<^item> \<open>AuthStore\<close>, \<open>AuthSession\<close>, \<open>AuthServer\<close>: the store with its file, the sessions, every HTTP
    handler. \<open>AuthFacts\<close> and \<open>AuthPolicy\<close>: tokens and invites are single-use, who can become logged in
    and for how long, what needs a login, and where the code misses what it means to do. These take a
    request as one step. \<open>AuthConcurrent\<close> has the handlers as programs that are interrupted
    between any two operations on shared data, on sessions that are objects behind pointers; \<open>AuthAlone\<close>: a
    request that is not interrupted does the same as in \<open>AuthServer\<close>; \<open>AuthRace\<close>, \<open>AuthLogins\<close>: what holds
    under every schedule, and what does not; \<open>AuthGate\<close>: what a positive answer of \<open>/api/session\<close> is worth.
  \<^item> \<open>Broker\<close>: both handlers as step machines over the shared tables. \<open>BrokerFacts\<close>: the tables agree with the
    running handlers, and the machine refines the abstract protocol of attachments and bridges.
    \<open>BrokerFlow\<close>, \<open>BrokerOutput\<close> and \<open>BrokerSent\<close>: what reaches agents and browsers, over the whole life
    of a session. \<open>BrokerExit\<close>: handlers whose connection failed return and leave nothing behind.
    \<open>BrokerLock\<close>: the same machine with the mutex of each agent's connection, which a handler holds until
    its write has returned: who waits for whom when the network stalls.
  \<^item> \<open>Agent\<close>, \<open>AgentFacts\<close>, \<open>AgentFlow\<close>: the loop of the agent, its shells and their readers; shells do not
    outlive the connection, keystrokes and output keep their session and their order.
  \<^item> \<open>System\<close>: the coordinator and an agent composed into one machine, in which each reads what the other
    wrote, while all other handlers do as they like: from the browser into the shell and back.
    \<open>Hangup\<close>: what either side does about a session once it has read the other's closing of it.
    \<open>Enrollment\<close>: how far the registration of an agent has come under every interleaving, and
    what happens when a browser comes before it is confirmed.
  \<^item> \<open>Transport\<close>: the message connections. \<open>Identity\<close>: keys and their files. \<open>Secure\<close>: the handshake and
    the session, with the Noise library as the record \<open>noise\<close> and its promises as \<open>ciphers_ok\<close> and
    \<open>ik_ok\<close>, which \<open>counting_noise\<close> shows can hold. \<open>Commands\<close>: the configuration of the three commands.
  \<^item> \<open>LegacyHub\<close>, \<open>LegacyFacts\<close>, \<open>LegacyRelay\<close>, \<open>LegacyAgent\<close>, \<open>LegacyNet\<close>,
    \<open>LegacyMessages\<close>: the first version, with everything that ends one of its processes as a crash and calls
    that never return, and its self-tests.
  \<^item> This theory: the parts at work together. What one sends is what the other reads: the HTTP calls
    from the broker to the identity service, a login and the terminal it opens, the registration of
    an agent with the broker, and the pinning of the broker's key.

  Not modelled: the WebAuthn, TOTP, Noise, WebSocket, protobuf and pseudo-terminal libraries
  (parameters, or outcomes in the events); HTTP parsing, the file server and logging; flag
  parsing (the command line is a map); TLS; the Go memory model beyond the granularity above, so data
  races of the first version's globals are not visible; of the first version: what its transports carry
  below a message, its generated protobuf code, its prototypes (programs that try out
  a library, among them earlier copies of the agent), the Rails service and the web clients.
\<close>

section \<open>The broker's calls to mm-auth\<close>

text \<open>The bytes of a reply: \<open>json.Encoder\<close> ends the value with a newline.\<close>

definition reply_of :: "response \<Rightarrow> http_reply" where
  "reply_of r = Some (rs_status r, case rs_body r of None \<Rightarrow> [] | Some v \<Rightarrow> render v @ [CHR 0x0A])"

definition token_request :: "string \<Rightarrow> request" where
  "token_request token = \<lparr>rq_method = ''POST'', rq_path = ''/agent_registration/check'', rq_cookie = None,
     rq_origin = [], rq_body = token_check_body token\<rparr>"

definition session_request :: "string \<Rightarrow> request" where
  "session_request c = \<lparr>rq_method = ''GET'', rq_path = ''/api/session'', rq_cookie = Some c,
     rq_origin = [], rq_body = []\<rparr>"

lemma session_request_simps [simp]:
  "route (session_request c) = Some SessionInfo" "rq_method (session_request c) = ''GET''"
  "rq_cookie (session_request c) = Some c"
  by (simp_all add: route_def routes_def session_request_def)

lemma reply_status_values:
  "reply_status (render (JObj [(''status'', JStr ''ok'')]) @ [CHR 0x0A]) = ''ok''"
  "reply_status (render (JObj [(''message'', JStr ''Invalid token''), (''status'', JStr ''error'')]) @ [CHR 0x0A])
     = ''error''"
  "reply_status (render (JObj [(''message'', JStr ''invalid JSON body''), (''status'', JStr ''error'')]) @ [CHR 0x0A])
     = ''error''"
proof -
  have nl: "delim [CHR 0x0A]" by (simp add: delim_def is_digit_def ccode_def)
  show "reply_status (render (JObj [(''status'', JStr ''ok'')]) @ [CHR 0x0A]) = ''ok''"
    unfolding reply_status_def
    by (subst parse_first_object(1) [OF _ _ nl])
       (simp_all add: max_nesting_def decode_string_field_def ccode_def)
  show "reply_status (render (JObj [(''message'', JStr ''Invalid token''), (''status'', JStr ''error'')]) @ [CHR 0x0A])
     = ''error''"
    unfolding reply_status_def
    by (subst parse_first_object(1) [OF _ _ nl])
       (simp_all add: max_nesting_def decode_string_field_def ccode_def)
  show "reply_status (render (JObj [(''message'', JStr ''invalid JSON body''), (''status'', JStr ''error'')]) @ [CHR 0x0A])
     = ''error''"
    unfolding reply_status_def
    by (subst parse_first_object(1) [OF _ _ nl])
       (simp_all add: max_nesting_def decode_string_field_def ccode_def)
qed

lemma read_token_body:
  "valid_utf8 t \<Longrightarrow> read_json [''token''] (token_check_body t) = Some ((\<lambda>_. [])(''token'' := t))"
  using read_json_post [of "''token''" t "[''token'']"]
  by (simp add: post_def token_check_body_def ccode_def del: render.simps)

text \<open>
  C22. The enrollment check end to end: with \<open>mm-auth\<close> reachable, the broker accepts a token
  exactly if the identity service holds it and it has not expired, and after the call the
  service holds it no more, whatever the answer was.
\<close>

theorem token_check_end_to_end:
  assumes "valid_utf8 token" and "auth_url \<noteq> []"
    and "auth_handle lib e (token_request token) sv = (sv', r)"
  shows "(broker_check_agent_token auth_url (reply_of r) \<longleftrightarrow>
      (\<exists>t. agent_tokens (sv_store sv) token = Some t \<and> e_now e < tok_expires t)) \<and>
    agent_tokens (sv_store sv') = (agent_tokens (sv_store sv))(token := None)"
proof -
  obtain st ok where c: "check_agent_token (e_io e 0) (e_now e) token (sv_store sv) = (st, ok)"
    by (metis surj_pair)
  have route: "route (token_request token) = Some AgentCheck"
    by (simp add: route_def routes_def token_request_def)
  have "rq_method (token_request token) \<noteq> ''OPTIONS''" "rq_origin (token_request token) = []"
    "rq_body (token_request token) = token_check_body token"
    by (simp_all add: token_request_def)
  then have sv': "sv' = sv\<lparr>sv_store := st\<rparr>"
    and r: "rs_body r = Some (if ok then JObj [(''status'', JStr ''ok'')]
      else JObj [(''message'', JStr ''Invalid token''), (''status'', JStr ''error'')])"
    using assms(3) route c
    by (auto simp: auth_handle_def serve_def agent_check_def read_token_body [OF assms(1)] write_json_def
        split: if_splits)
  have "broker_check_agent_token auth_url (reply_of r) \<longleftrightarrow> ok"
    using assms(2) reply_status_values(1,2)
    by (cases ok) (simp_all add: broker_check_agent_token_def reply_of_def r del: render.simps)
  then show ?thesis using check_agent_tokenD [OF c] by (simp add: sv')
qed

lemma check_user_session:
  assumes "auth_url \<noteq> []" and "auth_handle lib e (session_request c) sv = (sv', r)"
  shows "sv' = sv" and "check_user auth_url True (Some c) (reply_of r) \<longleftrightarrow>
    (\<exists>s. ss_map (sv_sess sv) c = Some s \<and> e_now e \<le> ses_expires s \<and> ses_authenticated s)"
proof -
  show "sv' = sv" "check_user auth_url True (Some c) (reply_of r) \<longleftrightarrow>
      (\<exists>s. ss_map (sv_sess sv) c = Some s \<and> e_now e \<le> ses_expires s \<and> ses_authenticated s)"
    using assms
    by (auto simp: auth_handle_def serve_def session_info_def sessions_get_def write_json_def http_error_def
        check_user_def reply_of_def Let_def simp del: render.simps split: option.splits if_splits)
qed

text \<open>
  C33. The terminal gate end to end: with \<open>mm-auth\<close> reachable and asked with the browser's
  cookie, the broker lets the browser in exactly if the cookie names a session of the identity
  service that is authenticated and has not expired, and asking changes nothing there; a
  browser without the cookie is let in without being asked.
\<close>

theorem user_check_end_to_end:
  assumes "auth_url \<noteq> []" and "auth_handle lib e (session_request c) sv = (sv', r)"
  shows "(check_user auth_url True (Some c) (reply_of r) \<longleftrightarrow>
      (\<exists>s. ss_map (sv_sess sv) c = Some s \<and> e_now e \<le> ses_expires s \<and> ses_authenticated s)) \<and>
    sv' = sv \<and> check_user auth_url True None reply"
  using check_user_session [OF assms] assms(1) by (simp add: check_user_def)

lemma let_in:
  assumes "auth_url \<noteq> []"
    and "broker_step (BConnect b device (check_user auth_url True (Some c) (reply_of r))) (bk :: broker) = Some bk'"
    and "bk_bctl bk' b = Some ctl" and "bc_error ctl \<noteq> Some 401"
  shows "check_user auth_url True (Some c) (reply_of r)" and "rs_status r = 200"
proof -
  show in': "check_user auth_url True (Some c) (reply_of r)"
    using assms(2-4) by (auto simp: browser_connect_def split: if_splits)
  show "rs_status r = 200" using in' assms(1) by (simp add: check_user_def reply_of_def)
qed

text \<open>
  No terminal without a login: when the identity service has been started with no sessions and
  served any requests, and the broker, asked for a device with a cookie, does not refuse,
  then one of those requests came with this cookie and logged its session in: by a passkey
  registration or login the WebAuthn library accepted, or by a valid code of the user's TOTP secret.
\<close>

theorem terminal_requires_login:
  fixes bk :: broker
  assumes "auth_url \<noteq> []" and "ss_map (sv_sess sv0) = Map.empty" and "sv = fold (auth_step lib) es sv0"
    and "auth_handle lib e (session_request c) sv = (sv', r)"
    and "broker_step (BConnect b device (check_user auth_url True (Some c) (reply_of r))) bk = Some bk'"
    and "bk_bctl bk' b = Some ctl" and "bc_error ctl \<noteq> Some 401"
  shows "\<exists>es1 e' rq es2. es = es1 @ (e', rq) # es2 \<and> rq_cookie rq = Some c \<and>
    login_proof lib e' rq (fold (auth_step lib) es1 sv0) c"
proof -
  have "authed c sv"
    using let_in(1) [OF assms(1,5-7)] check_user_session(2) [OF assms(1,4)] by (auto simp: authed_def)
  moreover have "\<not> authed c sv0" by (simp add: authed_def assms(2))
  ultimately obtain es1 e' rq es2 where "es = es1 @ (e', rq) # es2"
      "login_proof lib e' rq (fold (auth_step lib) es1 sv0) c"
    using authed_origin unfolding assms(3) by blast
  then show ?thesis unfolding login_proof_def by blast
qed

text \<open>
  C11. No terminal without a proof, under every schedule: when the handlers of the identity service
  have been interleaved in any way since a state with no logged-in session, one of them has
  answered the broker's question with this cookie, and the broker then does not refuse the
  browser, then a request with this cookie found a session, read a name in it, and afterwards a
  registration, a login of a user seen without TOTP, or a TOTP code was accepted for this name.
\<close>

theorem terminal_requires_proof:
  fixes bk :: broker
  assumes "auth_url \<noteq> []"
    and "runs (site_step lib) s0 es s" and "si_request s0 = Map.empty" and "web_ok (si_web s0)"
    and "\<And>p. \<not> ses_authenticated (wb_heap (si_web s0) p)"
    and "si_request s h = Some (session_request c)" and "site_answer h s = Some r"
    and "broker_step (BConnect b device (check_user auth_url True (Some c) (reply_of r))) bk = Some bk'"
    and "bk_bctl bk' b = Some ctl" and "bc_error ctl \<noteq> Some 401"
  shows "\<exists>h' rq p k. Arrive h' rq \<in> set es \<and> rq_cookie rq = Some c \<and>
    moment lib s0 es h' (\<lambda>e w. find_session (e_now e) (Some c) w = Some p) \<and>
    moment lib s0 es h' (\<lambda>e w. ses_username (wb_heap w p) = k) \<and>
    moment lib s0 es h' (passed lib rq p k) \<and>
    (route rq = Some LoginFinish \<longrightarrow> moment lib s0 es h' (\<lambda>e. no_totp k))"
  using session_answer [OF assms(2-5,6) _ _ assms(7) let_in(2) [OF assms(1,8-10)]] by simp

section \<open>Enrollment\<close>

lemma wf_register_msg:
  "wf_msg (register_msg cfg) \<longleftrightarrow> valid_utf8 (acf_device cfg) \<and> valid_utf8 (acf_name cfg) \<and>
     valid_utf8 (acf_os cfg) \<and> valid_utf8 (acf_token cfg)"
  by (auto simp: wf_msg_def register_msg_def zero_msg_def type_register_def ccode_def)

lemma agent_main_device:
  assumes "agent_main env cl os rnd goos stdin fs = (fs', Inr a)"
  shows "acf_device (as_agent a) \<noteq> []"
  using assms
  by (auto simp: agent_main_def Let_def split: if_splits option.splits prod.splits sum.splits)

lemma hello_register:
  assumes "wf_msg (register_msg cfg)" and "acf_device cfg \<noteq> []"
  shows "hello_msg (marshal_msg (register_msg cfg)) = Some (register_msg cfg)"
  using assms by (simp add: hello_msg_def unmarshal_marshal) (simp add: register_msg_def zero_msg_def)

text \<open>
  C10. Enrollment, under every interleaving: when the command of the agent has set up its
  configuration, with fields in valid UTF-8, and the coordinator has accepted its registration frame, then, as long as no
  other agent has registered as this device, whatever the handlers do: the connection
  stays open; the handler sets up in three steps of its own, of which one is always possible
  (for the confirmation: once its write returns); while it has attached and not left, the device is attached to this
  agent; while it has listed the device, it is listed with the names the agent gave; and once the
  confirmation is written, the first message on the connection is one \<open>Run\<close> accepts, exactly if
  nothing was sent to the agent before it, else the opening of a session, which \<open>Run\<close> gives up on.
\<close>

theorem enrollment_completes:
  fixes s :: broker
  assumes "agent_main env cl os rnd goos stdin files = (files', Inr a)" and "wf_msg (register_msg (as_agent a))"
    and "runs broker_step (broker_new cloud) es s"
    and "broker_step (AHello n (marshal_msg (register_msg (as_agent a))) addr pub True net) s = Some t"
    and "runs broker_step t fs u" and "alone_for u n (acf_device (as_agent a))"
  shows "\<exists>c. bk_actl u n = Some c \<and> ac_open c \<and>
    (if setting_up (ac_pc c)
     then length (List.filter (\<lambda>e. agent_mover e = Some n) fs) < 3 \<and>
       (\<exists>e v. agent_mover e = Some n \<and> broker_step e u = Some v)
     else 3 \<le> length (List.filter (\<lambda>e. agent_mover e = Some n) fs)) \<and>
    (attached_pc (ac_pc c) \<longrightarrow> bk_agents u (acf_device (as_agent a)) = Some n) \<and>
    (listed_pc (ac_pc c) \<longrightarrow> (\<exists>now. reg_devices (bk_reg u) (acf_device (as_agent a)) = Some \<lparr>dev_id = acf_device (as_agent a),
      dev_name = acf_name (as_agent a), dev_os = acf_os (as_agent a), dev_addr = addr, dev_pubkey = pub,
      dev_last_seen = now\<rparr>)) \<and>
    (\<forall>fs1 v fs2. fs = fs1 @ AConfirm n True # fs2 \<longrightarrow> runs broker_step t fs1 v \<longrightarrow>
      out_to u n \<noteq> [] \<and> agent_register True True True (Some (marshal_msg (hd (out_to u n)))) =
        (if out_to v n = [] then None else Some (ErrUnexpected type_open)))"
proof -
  let ?cfg = "as_agent a" and ?d = "acf_device (as_agent a)"
  note hello = hello_register [OF assms(2) agent_main_device [OF assms(1)]]
  note seen = enrollment_run [OF assms(3,4) hello]
  have fields: "msg_device (register_msg ?cfg) = ?d" "msg_name (register_msg ?cfg) = acf_name ?cfg"
      "msg_os (register_msg ?cfg) = acf_os ?cfg"
    by (simp_all add: register_msg_def)
  obtain c where c: "bk_actl u n = Some c" "ac_open c"
      "if setting_up (ac_pc c) then length (List.filter (\<lambda>e. agent_mover e = Some n) fs) = steps_taken (ac_pc c)
       else 3 \<le> length (List.filter (\<lambda>e. agent_mover e = Some n) fs)"
      "attached_pc (ac_pc c) \<longrightarrow> bk_agents u ?d = Some n"
      "listed_pc (ac_pc c) \<longrightarrow> (\<exists>now. reg_devices (bk_reg u) ?d = Some \<lparr>dev_id = ?d, dev_name = acf_name ?cfg,
         dev_os = acf_os ?cfg, dev_addr = addr, dev_pubkey = pub, dev_last_seen = now\<rparr>)"
    using seen [OF assms(5)] assms(6) by (auto simp: enrolled_def device_entry_def fields)
  have goes_on: "steps_taken (ac_pc c) < 3 \<and> (\<exists>e v. agent_mover e = Some n \<and> broker_step e u = Some v)"
    if "setting_up (ac_pc c)"
    by (rule set_up_goes_on [OF c(1) that])
  have answer: "out_to u n \<noteq> [] \<and> agent_register True True True (Some (marshal_msg (hd (out_to u n)))) =
      (if out_to v n = [] then None else Some (ErrUnexpected type_open))"
    if fs: "fs = fs1 @ AConfirm n True # fs2" and v: "runs broker_step t fs1 v" for fs1 v fs2
  proof -
    obtain w where w: "broker_step (AConfirm n True) v = Some w" "runs broker_step w fs2 u"
      using runs_split [OF v] assms(5) unfolding fs by blast
    have "alone_for v n ?d"
      using alone_back [OF w(1)] alone_back_runs [OF w(2) assms(6)] by blast
    then obtain cv where "bk_actl v n = Some cv" "ac_open cv"
      using seen [OF v] by (auto simp: enrolled_def fields)
    then show ?thesis
      using first_answer [OF runs_append [OF runs_more [OF assms(3,4)] v] _ _ w] by blast
  qed
  show ?thesis
    using c goes_on answer by (intro exI [of _ c]) (auto split: if_splits)
qed

section \<open>The broker's key\<close>

lemma decode_public_line: "decode_public (encode_public k @ [CHR 0x0A]) = Some k"
  using b64_decode_encode [of k] by (simp add: decode_public_def encode_public_def b64_decode_def)

lemma broker_main_pubkey:
  assumes "broker_main env cl os Written fs = (fs', Inr b)"
    and "flag_string cl ''pubkey-out'' (getenv env ''MM_BROKER_PUBKEY_OUT'') = p" and "p \<noteq> []"
  shows "\<exists>mode. fs' p = Some (mode, encode_public (kp_public (bs_static b)) @ [CHR 0x0A])"
  using assms
  by (auto simp: broker_main_def Let_def split: if_splits option.splits prod.splits sum.splits)

lemma agent_main_key:
  assumes "agent_main env cl os rnd goos stdin fs = (fs', Inr a)"
  shows "decode_public (flag_string cl ''broker-key'' (getenv env ''MM_AGENT_BROKER_KEY'')) = Some (as_broker_key a)"
  using assms
  by (auto simp: agent_main_def Let_def split: if_splits option.splits prod.splits sum.splits)

text \<open>
  C25. Pinning: an agent that is started with the contents of the file the broker's command wrote
  for it, final newline included, pins the broker's public key, and with the library's promises
  the handshake of its \<open>Run\<close> with that broker's \<open>agentWS\<close> succeeds on both sides and gives
  each the other's key.
\<close>

theorem agent_pins_broker:
  assumes "broker_main benv bcl bos Written bfs = (bfs', Inr b)"
    and "flag_string bcl ''pubkey-out'' (getenv benv ''MM_BROKER_PUBKEY_OUT'') = p" and "p \<noteq> []"
    and "agent_main env cl os rnd goos stdin fs = (fs', Inr a)"
    and "map_option snd (bfs' p) = Some (flag_string cl ''broker-key'' (getenv env ''MM_AGENT_BROKER_KEY''))"
    and "ciphers_ok nz sync" and "ik_ok nz sync valid"
    and "valid (as_identity a)" and "valid (bs_static b)" and "kp_public (bs_static b) \<noteq> []"
  shows "as_broker_key a = kp_public (bs_static b) \<and>
    (\<exists>m1 m2 ka kb. handshake nz si (agent_handshake a) True (Some m2) = (\<lparr>hc_sent = [m1], hc_closed = False\<rparr>, Inr ka) \<and>
      handshake nz sr (broker_handshake b) True (Some m1) = (\<lparr>hc_sent = [m2], hc_closed = False\<rparr>, Inr kb) \<and>
      sk_peer ka = kp_public (bs_static b) \<and> sk_peer kb = kp_public (as_identity a))"
proof -
  have "flag_string cl ''broker-key'' (getenv env ''MM_AGENT_BROKER_KEY'')
      = encode_public (kp_public (bs_static b)) @ [CHR 0x0A]"
    using broker_main_pubkey [OF assms(1,2,3)] assms(5) by auto
  then have key: "as_broker_key a = kp_public (bs_static b)"
    using agent_main_key [OF assms(4)] decode_public_line by simp
  moreover have "\<exists>m1 m2 ka kb.
      handshake nz si (agent_handshake a) True (Some m2) = (\<lparr>hc_sent = [m1], hc_closed = False\<rparr>, Inr ka) \<and>
      handshake nz sr (broker_handshake b) True (Some m1) = (\<lparr>hc_sent = [m2], hc_closed = False\<rparr>, Inr kb) \<and>
      sk_peer ka = kp_public (bs_static b) \<and> sk_peer kb = kp_public (as_identity a)"
    using secure_handshake [OF assms(7), of "agent_handshake a" "broker_handshake b" si sr] assms(8-10) key
    by (simp add: agent_handshake_def broker_handshake_def authorized_def) blast
  ultimately show ?thesis by blast
qed

section \<open>The properties at work\<close>

definition plain_server :: "'sd server" where
  "plain_server = \<lparr>sv_cfg = \<lparr>cfg_rpid = [], cfg_rp_name = [], cfg_rp_origins = [], cfg_cors_origins = [],
       cfg_cookie_secure = False, cfg_invite_ttl = 0, cfg_agent_token_ttl = 0\<rparr>,
     sv_store = \<lparr>st_path = [], st_data = empty_data\<lparr>d_agent_tokens := [''t'' \<mapsto> \<lparr>tok_username = [], tok_expires = 9\<rparr>]\<rparr>,
       st_disk = Map.empty\<rparr>,
     sv_sess = (new_sessions False)\<lparr>ss_map := [''c'' \<mapsto> (fresh_session 0)\<lparr>ses_authenticated := True\<rparr>]\<rparr>\<rparr>"

lemma plain_server_views:
  "agent_tokens (sv_store plain_server) = [''t'' \<mapsto> \<lparr>tok_username = [], tok_expires = 9\<rparr>]"
  "ss_map (sv_sess plain_server) = [''c'' \<mapsto> (fresh_session 0)\<lparr>ses_authenticated := True\<rparr>]"
  "ses_expires (fresh_session 0) = 43200000000000"
  by (simp_all add: plain_server_def fresh_session_def session_ttl_def new_sessions_def)

theorem token_check_end_to_end_witness:
  "broker_check_agent_token ''http://auth'' (reply_of (snd (auth_handle demo_lib (demo_env 3)
     (token_request ''t'') plain_server)))"
proof -
  obtain sv' r where h: "auth_handle demo_lib (demo_env 3) (token_request ''t'') plain_server = (sv', r)"
    by (metis surj_pair)
  have "valid_utf8 ''t''" by (simp add: ccode_def)
  from token_check_end_to_end [OF this _ h, of "''http://auth''"] show ?thesis
    by (simp add: h plain_server_views)
qed

theorem user_check_end_to_end_witness:
  "check_user ''http://auth'' True (Some ''c'') (reply_of (snd (auth_handle demo_lib (demo_env 3)
     (session_request ''c'') plain_server)))"
proof -
  obtain sv' r where h: "auth_handle demo_lib (demo_env 3) (session_request ''c'') plain_server = (sv', r)"
    by (metis surj_pair)
  from user_check_end_to_end [OF _ h, of "''http://auth''"] show ?thesis
    by (simp add: h plain_server_views)
qed

text \<open>A user with TOTP logs in and opens a terminal.\<close>

definition plain_login :: "(env \<times> request) list" where
  "plain_login = [(demo_env 0, post ''/api/login/begin'' None [(''username'', ''alice'')]),
     (demo_env 9, post ''/api/totp/verify'' (Some (random_token [1])) [(''code'', ''000000'')])]"

lemma plain_logged_in:
  "\<exists>s. ss_map (sv_sess (fold (auth_step demo_lib) plain_login demo_server)) (random_token [1]) = Some s \<and>
     9 \<le> ses_expires s \<and> ses_authenticated s"
proof -
  have "read_json [''username''] (rq_body (post ''/api/login/begin'' None [(''username'', ''alice'')]))
      = Some ((\<lambda>_. [])(''username'' := ''alice''))"
    by (rule read_json_post) (simp_all add: ccode_def)
  then have first: "auth_step demo_lib (demo_env 0, post ''/api/login/begin'' None [(''username'', ''alice'')]) demo_server =
      demo_server\<lparr>sv_sess := (sv_sess demo_server)\<lparr>ss_map := (ss_map (sv_sess demo_server))
        (random_token [1] \<mapsto> (fresh_session 0)\<lparr>ses_username := ''alice'', ses_ceremony := Some ()\<rparr>)\<rparr>\<rparr>"
    using auth_step_login_begin [of "post ''/api/login/begin'' None [(''username'', ''alice'')]"
        "(\<lambda>_. [])(''username'' := ''alice'')" demo_server demo_user demo_lib "demo_env 0" "JObj []" "()"]
    by (simp add: route_def routes_def demo_server_def demo_lib_def)
  have "read_json [''code''] (rq_body (post ''/api/totp/verify'' (Some (random_token [1])) [(''code'', ''000000'')]))
      = Some ((\<lambda>_. [])(''code'' := ''000000''))"
    by (rule read_json_post) (simp_all add: ccode_def)
  then show ?thesis
    by (simp add: plain_login_def first)
       (simp add: auth_step_serve serve_def route_def routes_def totp_verify_def sessions_get_def
        demo_server_def demo_user_def demo_lib_def get_user_def fresh_session_def session_ttl_def has_totp_def)
qed

theorem terminal_requires_login_witness:
  "\<exists>es1 e' rq es2. plain_login = es1 @ (e', rq) # es2 \<and> rq_cookie rq = Some (random_token [1]) \<and>
     login_proof demo_lib e' rq (fold (auth_step demo_lib) es1 demo_server) (random_token [1])"
proof -
  let ?sv = "fold (auth_step demo_lib) plain_login demo_server"
  obtain sv' r where h: "auth_handle demo_lib (demo_env 9) (session_request (random_token [1])) ?sv = (sv', r)"
    by (metis surj_pair)
  have in': "check_user ''http://auth'' True (Some (random_token [1])) (reply_of r)"
    using check_user_session(2) [OF _ h, of "''http://auth''"] plain_logged_in by simp
  obtain bk' ctl where "broker_step (BConnect 0 ''dev''
        (check_user ''http://auth'' True (Some (random_token [1])) (reply_of r))) (broker_new ''cloud'') = Some bk'"
      "bk_bctl bk' 0 = Some ctl" "bc_error ctl \<noteq> Some 401"
    using in' by (simp add: browser_connect_def broker_new_def)
  then show ?thesis
    by (intro terminal_requires_login [OF _ _ refl h, of "''http://auth''"]) (simp_all add: demo_server_def new_sessions_def)
qed

lemma session_served:
  assumes "si_request s h = None" and "wb_index (si_web s) c = Some p" and "e_now e \<le> ses_expires (wb_heap (si_web s) p)"
    and "ses_authenticated (wb_heap (si_web s) p)"
  shows "\<exists>t r. runs (site_step lib) s (Arrive h (session_request c) # replicate 5 (Move h e)) t \<and>
    si_request t h = Some (session_request c) \<and> site_answer h t = Some r \<and> rs_status r = 200"
  using assms
  by (simp add: runs_exec numeral_eq_Suc serve_prog_def session_info_prog_def with_session_def find_session_def
      site_answer_def answer_with_cors_def write_json_def Let_def)

text \<open>The session that the race has taken over opens the terminal too.\<close>

definition stolen_visit :: "site_event list" where
  "stolen_visit = takeover 1 finish_request 2 begin_request (demo_env 9) @
     Arrive 3 (session_request ''id'') # replicate 5 (Move 3 (demo_env 9))"

theorem terminal_requires_proof_witness:
  "\<exists>h rq p k. Arrive h rq \<in> set stolen_visit \<and> rq_cookie rq = Some ''id'' \<and>
     moment race_lib demo_site stolen_visit h (passed race_lib rq p k)"
proof -
  obtain t where t: "runs (site_step race_lib) demo_site (takeover 1 finish_request 2 begin_request (demo_env 9)) t"
      "wb_index (si_web t) ''id'' = Some 0" "ses_authenticated (wb_heap (si_web t) 0)"
      "ses_expires (wb_heap (si_web t) 0) = session_ttl" "si_request t 3 = None"
    using demo_race by auto
  obtain s r where s: "runs (site_step race_lib) t (Arrive 3 (session_request ''id'') # replicate 5 (Move 3 (demo_env 9))) s"
      "si_request s 3 = Some (session_request ''id'')" "site_answer 3 s = Some r" "rs_status r = 200"
    using session_served [of t 3 "''id''" 0 "demo_env 9" race_lib] t(2-5) by (auto simp: session_ttl_def)
  have in': "check_user ''http://auth'' True (Some ''id'') (reply_of r)"
    by (simp add: check_user_def reply_of_def s(4))
  then obtain bk' ctl where b: "broker_step (BConnect 0 ''dev'' (check_user ''http://auth'' True (Some ''id'') (reply_of r)))
        (broker_new ''cloud'') = Some bk'" "bk_bctl bk' 0 = Some ctl" "bc_error ctl \<noteq> Some 401"
    by (simp add: browser_connect_def broker_new_def)
  have demo_site_ok: "web_ok (si_web demo_site)" by (simp add: demo_site_def demo_web_ok)
  have run: "runs (site_step race_lib) demo_site stolen_visit s"
    unfolding stolen_visit_def by (rule runs_append [OF t(1) s(1)])
  from terminal_requires_proof [OF _ run _ demo_site_ok _ s(2,3) b] show ?thesis
    by (auto simp: bob_session_def fresh_session_def)
qed

definition plain_answers :: "keypair \<Rightarrow> os_answers" where
  "plain_answers kp = \<lparr>os_read_error = False, os_fresh = Some kp, os_mkdir = True, os_write = Written\<rparr>"

definition plain_agent :: agent_settings where
  "plain_agent = \<lparr>as_url = ''ws://localhost:8081'', as_broker_key = [2],
     as_identity = \<lparr>kp_public = [1], kp_private = [7]\<rparr>,
     as_agent = \<lparr>acf_device = ''valc31.0102ff'', acf_name = ''device'', acf_os = ''linux'', acf_token = ''t'',
       acf_shell = ''/bin/sh''\<rparr>\<rparr>"

definition plain_command_line :: command_line where
  "plain_command_line = [''broker-key'' \<mapsto> encode_public [2] @ [CHR 0x0A], ''token'' \<mapsto> ''t'']"

lemma plain_agent_main:
  "agent_main Map.empty plain_command_line (plain_answers \<lparr>kp_public = [1], kp_private = [7]\<rparr>) [1, 2, 255]
     ''linux'' [] Map.empty =
   ([''data/agent.key'' \<mapsto> (0x180, print_identity \<lparr>kp_public = [1], kp_private = [7]\<rparr>)], Inr plain_agent)"
  by (simp add: agent_main_def plain_command_line_def plain_answers_def plain_agent_def flag_string_def
      env_or_def getenv_def load_or_create_def generate_keypair_def identity_mode_def decode_public_line
      short_id_def hex_digit_def hex_digits_def Let_def)

lemma plain_agent_wf: "wf_msg (register_msg (as_agent plain_agent))"
  unfolding wf_register_msg by (simp add: plain_agent_def ccode_def)

text \<open>It registers, and the coordinator has taken it as far as the confirmation.\<close>

lemma plain_enrolled:
  "\<exists>t u. broker_step (AHello 0 (marshal_msg (register_msg (as_agent plain_agent))) ''10.0.0.9'' ''k'' True True)
       (broker_new ''valc31'') = Some t \<and>
     runs broker_step t [AAttach 0, AAdd 0 5, AConfirm 0 True] u \<and> alone_for u 0 (acf_device (as_agent plain_agent))"
proof -
  have "hello_msg (marshal_msg (register_msg (as_agent plain_agent))) = Some (register_msg (as_agent plain_agent))"
    by (rule hello_register [OF plain_agent_wf agent_main_device [OF plain_agent_main]])
  then show ?thesis
    by (simp add: runs_exec agent_hello_def agent_attach_def agent_add_def agent_confirm_def broker_new_def
        send_agent_def alone_for_def Let_def)
qed

theorem enrollment_completes_witness:
  "\<exists>t u. broker_step (AHello 0 (marshal_msg (register_msg (as_agent plain_agent))) ''10.0.0.9'' ''k'' True True)
       (broker_new ''valc31'') = Some t \<and>
     runs broker_step t [AAttach 0, AAdd 0 5, AConfirm 0 True] u \<and> out_to u 0 \<noteq> [] \<and>
     (\<exists>c. bk_actl u 0 = Some c \<and> \<not> setting_up (ac_pc c))"
proof -
  obtain t u where t: "broker_step (AHello 0 (marshal_msg (register_msg (as_agent plain_agent))) ''10.0.0.9'' ''k'' True True)
        (broker_new ''valc31'') = Some t" "runs broker_step t [AAttach 0, AAdd 0 5, AConfirm 0 True] u"
      "alone_for u 0 (acf_device (as_agent plain_agent))"
    using plain_enrolled by blast
  obtain v where v: "runs broker_step t [AAttach 0, AAdd 0 5] v"
    using t(2) by (auto simp: runs_exec split: option.splits)
  note all = enrollment_completes [OF plain_agent_main plain_agent_wf runs_none t]
  have "[AAttach 0, AAdd 0 5, AConfirm 0 True] = [AAttach 0, AAdd 0 5] @ AConfirm 0 True # []" by simp
  with all v have "out_to u 0 \<noteq> []" by blast
  moreover have "\<exists>c. bk_actl u 0 = Some c \<and> \<not> setting_up (ac_pc c)" using all by force
  ultimately show ?thesis using t(1,2) by blast
qed

definition plain_broker :: broker_settings where
  "plain_broker = \<lparr>bs_addr = '':8081'', bs_static = \<lparr>kp_public = [2], kp_private = [8]\<rparr>, bs_cloud = ''valc31'',
     bs_auth_url = [], bs_webdir = [], bs_origins = [''http://localhost:8080'']\<rparr>"

definition plain_broker_files :: files where
  "plain_broker_files = [''data/broker.key'' \<mapsto> (0x180, print_identity \<lparr>kp_public = [2], kp_private = [8]\<rparr>),
     ''pub'' \<mapsto> (0x1A4, encode_public [2] @ [CHR 0x0A])]"

lemma plain_broker_main:
  "broker_main [''MM_BROKER_PUBKEY_OUT'' \<mapsto> ''pub''] Map.empty (plain_answers \<lparr>kp_public = [2], kp_private = [8]\<rparr>)
     Written Map.empty = (plain_broker_files, Inr plain_broker)"
proof -
  have "trim_space ''http://localhost:8080'' = ''http://localhost:8080''"
    by (rule trim_space_fix) (simp_all add: space_end_len_def wide_space_def ccode_def)
  then have "split_csv ''http://localhost:8080'' = [''http://localhost:8080'']" by (simp add: split_csv_def)
  then show ?thesis
    by (simp add: broker_main_def plain_answers_def plain_broker_def plain_broker_files_def flag_string_def
        env_or_def getenv_def load_or_create_def generate_keypair_def identity_mode_def Let_def)
qed

theorem agent_pins_broker_witness:
  "\<exists>m1 m2 ka kb.
     handshake counting_noise [] (agent_handshake plain_agent) True (Some m2) = (\<lparr>hc_sent = [m1], hc_closed = False\<rparr>, Inr ka) \<and>
     handshake counting_noise [] (broker_handshake plain_broker) True (Some m1) = (\<lparr>hc_sent = [m2], hc_closed = False\<rparr>, Inr kb) \<and>
     sk_peer ka = [2] \<and> sk_peer kb = [1]"
  using agent_pins_broker [OF plain_broker_main _ _ plain_agent_main _ counting_noise_ok, of "''pub''" "[]" "[]"]
  by (simp add: flag_string_def getenv_def plain_broker_files_def plain_command_line_def)
     (simp add: plain_broker_def plain_agent_def)

end
